(* ===== verification/Prelude.thy ===== *)
theory Prelude
  imports Main "HOL-Library.Word" "HOL-Library.AList" "HOL-Library.Multiset"
begin

text \<open>
  Shared vocabulary of the Zephyria development.

  Go's fixed-width integers are words (\<open>uint64\<close> is a 64-bit word, the holiman
  \<open>uint256.Int\<close> a 256-bit word), \<open>*big.Int\<close> is \<open>int\<close> (with an \<open>option\<close> where the
  program tests it against nil), a byte slice is a list of 8-bit words.  A Go \<open>map\<close> is an
  association list updated by \<open>AList.update\<close>, so that a loop over a map is a
  loop over the list; the iteration order of Go is unspecified, and the component lemmas
  show that the results do not depend on it.

  The theory collects the big-endian byte codec and the list, map and word lemmas that more
  than one component uses.
\<close>

type_synonym byte = "8 word"
type_synonym bytes = "byte list"
type_synonym hash = "256 word"
type_synonym address = "160 word"
type_synonym uint32 = "32 word"
type_synonym uint64 = "64 word"
type_synonym uint256 = "256 word"

named_theorems byte_simps \<open>rewrite rules of the byte codec\<close>
named_theorems alist_simps \<open>lookups after updates of association lists\<close>

subsection \<open>Big-endian bytes\<close>

definition nat_of_bytes :: "bytes \<Rightarrow> nat" where
  "nat_of_bytes bs = foldl (\<lambda>a b. a * 256 + unat b) 0 bs"

text \<open>\<open>bytes_of_nat\<close> is \<open>(*big.Int).Bytes\<close>: no leading zero, the empty slice for zero.\<close>

fun bytes_of_nat :: "nat \<Rightarrow> bytes" where
  "bytes_of_nat n = (if n = 0 then [] else bytes_of_nat (n div 256) @ [of_nat (n mod 256)])"

declare bytes_of_nat.simps [simp del]

text \<open>\<open>be_bytes w n\<close> is the big-endian encoding of \<open>n\<close> on exactly \<open>w\<close> bytes.\<close>

primrec be_bytes :: "nat \<Rightarrow> nat \<Rightarrow> bytes" where
  "be_bytes 0 n = []"
| "be_bytes (Suc w) n = be_bytes w (n div 256) @ [of_nat (n mod 256)]"

lemma nat_of_bytes_Nil [simp]: "nat_of_bytes [] = 0"
  by (simp add: nat_of_bytes_def)

lemma nat_of_bytes_snoc [simp]: "nat_of_bytes (bs @ [b]) = nat_of_bytes bs * 256 + unat b"
  by (simp add: nat_of_bytes_def)

lemma unat_byte_bound: "unat (b :: byte) < 256"
  using unsigned_less [of b, where ?'a = nat] by simp

lemma unat_of_nat_byte [simp]: "unat (of_nat (n mod 256) :: byte) = n mod 256"
  by (simp add: unat_of_nat)

lemma bytes_of_nat_0 [simp]: "bytes_of_nat 0 = []"
  by (simp add: bytes_of_nat.simps)

lemma nat_of_bytes_of_nat [simp, byte_simps]: "nat_of_bytes (bytes_of_nat n) = n"
proof (induction n rule: bytes_of_nat.induct)
  case (1 n)
  then show ?case
    by (cases "n = 0") (simp_all add: bytes_of_nat.simps [of n])
qed

lemma bytes_of_nat_eq_Nil [simp]: "bytes_of_nat n = [] \<longleftrightarrow> n = 0"
  by (subst bytes_of_nat.simps) simp

lemma nat_of_bytes_bound: "nat_of_bytes bs < 256 ^ length bs"
proof (induction bs rule: rev_induct)
  case Nil
  then show ?case by simp
next
  case (snoc b bs)
  have "nat_of_bytes bs * 256 + unat b < (nat_of_bytes bs + 1) * 256"
    using unat_byte_bound [of b] by simp
  also have "\<dots> \<le> 256 ^ length bs * 256"
    using snoc.IH by (intro mult_le_mono) auto
  finally show ?case by (simp add: mult.commute)
qed

lemma length_be_bytes [simp, byte_simps]: "length (be_bytes w n) = w"
  by (induction w arbitrary: n) auto

lemma be_bytes_numeral:
  "be_bytes (numeral k) n = be_bytes (pred_numeral k) (n div 256) @ [of_nat (n mod 256)]"
  by (simp only: numeral_eq_Suc [of k] be_bytes.simps)

lemma hd_be_bytes: "hd (be_bytes (Suc w) n) = of_nat (n div 256 ^ w mod 256)"
proof (induction w arbitrary: n)
  case 0
  then show ?case by simp
next
  case (Suc w)
  have "be_bytes (Suc w) (n div 256) \<noteq> []" by simp
  then have "hd (be_bytes (Suc (Suc w)) n) = hd (be_bytes (Suc w) (n div 256))" by (subst be_bytes.simps(2)) (rule hd_append2)
  then show ?case using Suc.IH [of "n div 256"] by (simp add: div_mult2_eq)
qed

lemma nat_of_be_bytes [byte_simps]: "nat_of_bytes (be_bytes w n) = n mod 256 ^ w"
proof (induction w arbitrary: n)
  case 0
  then show ?case by simp
next
  case (Suc w)
  then show ?case
    by (simp add: mod_mult2_eq mult.commute)
qed

lemma be_bytes_of_bytes [byte_simps]: "length bs = w \<Longrightarrow> be_bytes w (nat_of_bytes bs) = bs"
proof (induction bs arbitrary: w rule: rev_induct)
  case Nil
  then show ?case by simp
next
  case (snoc b bs)
  then obtain w' where w: "w = Suc w'" "length bs = w'" by (cases w) auto
  have "of_nat (unat b) = b" by simp
  then show ?case
    using snoc.IH [of w'] w unat_byte_bound [of b] by simp
qed

lemma be_bytes_inj:
  "m < 256 ^ w \<Longrightarrow> n < 256 ^ w \<Longrightarrow> be_bytes w m = be_bytes w n \<longleftrightarrow> m = n"
  by (metis mod_less nat_of_be_bytes)

lemma length_bytes_of_nat_le: "n < 256 ^ w \<Longrightarrow> length (bytes_of_nat n) \<le> w"
proof (induction w arbitrary: n)
  case 0
  then show ?case by simp
next
  case (Suc w)
  have "n div 256 < 256 ^ w"
    using Suc.prems by (simp add: less_mult_imp_div_less mult.commute)
  then have "length (bytes_of_nat (n div 256)) \<le> w" by (rule Suc.IH)
  then show ?case by (subst bytes_of_nat.simps) simp
qed

subsection \<open>Words\<close>

lemma unat_word_bytes_bound: "unat (w :: 'a::len word) < 2 ^ LENGTH('a)"
  by simp

lemma unat_hash_bound: "unat (h :: hash) < 256 ^ 32"
  using unsigned_less [of h, where ?'a = nat] by simp

lemma unat_address_bound: "unat (a :: address) < 256 ^ 20"
  using unsigned_less [of a, where ?'a = nat] by simp

lemma unat_uint64_bound: "unat (a :: uint64) < 256 ^ 8"
  using unsigned_less [of a, where ?'a = nat] by simp

lemma of_nat_unat_word [simp]: "of_nat (unat (w :: 'a::len word)) = w"
  by simp

subsection \<open>Association lists as Go maps\<close>

lemma map_of_update [simp, alist_simps]:
  "map_of (AList.update k v al) k' = (if k' = k then Some v else map_of al k')"
  by (simp add: update_conv')

lemma distinct_keys_update [simp, intro]:
  "distinct (map fst al) \<Longrightarrow> distinct (map fst (AList.update k v al))"
  by (rule distinct_update)

text \<open>
  A loop that writes every binding of one Go map into another: the result, as a map, is the
  target overridden by the source, whatever the iteration order.
\<close>

lemma map_of_fold_update:
  "distinct (map fst bs) \<Longrightarrow>
     map_of (fold (\<lambda>(k, v). AList.update k v) bs al) = map_of al ++ map_of bs"
proof (induction bs arbitrary: al)
  case Nil
  then show ?case by simp
next
  case (Cons b bs)
  obtain k v where b: "b = (k, v)" by (cases b)
  have "k \<notin> dom (map_of bs)"
    using Cons.prems b by (force simp: dom_map_of_conv_image_fst)
  then show ?case
    using Cons b
    by (auto simp: fun_eq_iff map_add_def split: option.splits)
qed

lemma map_of_distinct_mset:
  assumes "distinct (map fst xs)" and "mset xs = mset ys"
  shows "map_of xs = map_of ys"
proof -
  have "mset (map fst xs) = mset (map fst ys)" using assms(2) by simp
  then have "distinct (map fst ys)" using assms(1) by (metis mset_eq_imp_distinct_iff)
  moreover have "set xs = set ys" using assms(2) by (metis set_mset_mset)
  ultimately show ?thesis
    using assms(1) by (intro map_of_inject_set [THEN iffD2]) auto
qed

end
