(* ===== verification/GoLib.thy ===== *)
theory GoLib
  imports Prelude
begin

text \<open>
  The value types the program takes from its libraries, as far as it uses them:
  go-ethereum's \<open>common.Hash\<close> and \<open>common.Address\<close> (32 and 20 byte arrays, here
  256 and 160 bit words read big-endian) with their conversions, \<open>common.FromHex\<close>, the
  conversions of \<open>uint256.Int\<close>, and the parser behind \<open>(*big.Int).SetString\<close>.
  The lemmas are the round trips the components rely on.
\<close>

subsection \<open>Hashes and addresses\<close>

definition BytesToHash :: "bytes \<Rightarrow> hash" where
  "BytesToHash b = (let b' = (if length b > 32 then drop (length b - 32) b else b)
                    in of_nat (nat_of_bytes b'))"

definition hash_Bytes :: "hash \<Rightarrow> bytes" where
  "hash_Bytes h = be_bytes 32 (unat h)"

definition hash_Big :: "hash \<Rightarrow> int" where
  "hash_Big h = uint h"

definition BigToHash :: "int \<Rightarrow> hash" where
  "BigToHash b = BytesToHash (bytes_of_nat (nat \<bar>b\<bar>))"

definition BytesToAddress :: "bytes \<Rightarrow> address" where
  "BytesToAddress b = (let b' = (if length b > 20 then drop (length b - 20) b else b)
                       in of_nat (nat_of_bytes b'))"

definition address_Bytes :: "address \<Rightarrow> bytes" where
  "address_Bytes a = be_bytes 20 (unat a)"

text \<open>The key under which the system contracts file an account: \<open>BytesToHash(addr.Bytes())\<close>.\<close>

definition address_key :: "address \<Rightarrow> hash" where
  "address_key a = BytesToHash (address_Bytes a)"

lemma length_hash_Bytes [simp]: "length (hash_Bytes h) = 32"
  by (simp add: hash_Bytes_def)

lemma length_address_Bytes [simp]: "length (address_Bytes a) = 20"
  by (simp add: address_Bytes_def)

lemma nat_of_bytes_hash_Bytes [simp, byte_simps]: "nat_of_bytes (hash_Bytes h) = unat h"
  using unat_hash_bound [of h] by (simp add: hash_Bytes_def nat_of_be_bytes)

lemma nat_of_bytes_address_Bytes [simp, byte_simps]: "nat_of_bytes (address_Bytes a) = unat a"
  using unat_address_bound [of a] by (simp add: address_Bytes_def nat_of_be_bytes)

lemma BytesToHash_hash_Bytes [simp, byte_simps]: "BytesToHash (hash_Bytes h) = h"
  using unat_hash_bound [of h]
  by (simp add: BytesToHash_def hash_Bytes_def nat_of_be_bytes)

lemma hash_Bytes_inj [simp]: "hash_Bytes h = hash_Bytes h' \<longleftrightarrow> h = h'"
  by (metis BytesToHash_hash_Bytes)

lemma BytesToAddress_address_Bytes [simp, byte_simps]: "BytesToAddress (address_Bytes a) = a"
  using unat_address_bound [of a]
  by (simp add: BytesToAddress_def address_Bytes_def nat_of_be_bytes)

lemma address_Bytes_inj [simp]: "address_Bytes a = address_Bytes a' \<longleftrightarrow> a = a'"
  by (metis BytesToAddress_address_Bytes)

lemma nat_of_bytes_drop:
  "w \<le> length b \<Longrightarrow> nat_of_bytes (drop (length b - w) b) = nat_of_bytes b mod 256 ^ w"
proof (induction b arbitrary: w rule: rev_induct)
  case Nil
  then show ?case by simp
next
  case (snoc x b)
  show ?case
  proof (cases w)
    case 0
    then show ?thesis by simp
  next
    case (Suc w')
    with snoc.prems have w': "w' \<le> length b" by simp
    have "drop (length (b @ [x]) - w) (b @ [x]) = drop (length b - w') b @ [x]"
      using Suc by simp
    then have "nat_of_bytes (drop (length (b @ [x]) - w) (b @ [x]))
        = (nat_of_bytes b mod 256 ^ w') * 256 + unat x"
      using snoc.IH [OF w'] by simp
    also have "\<dots> = (nat_of_bytes b * 256 + unat x) mod 256 ^ w"
      using unat_byte_bound [of x] Suc
      by (simp add: mod_mult2_eq mult.commute)
    finally show ?thesis by simp
  qed
qed

lemma BytesToHash_nat: "BytesToHash b = of_nat (nat_of_bytes b)"
proof (cases "length b > 32")
  case True
  have "(of_nat (nat_of_bytes b mod 256 ^ 32) :: hash) = of_nat (nat_of_bytes b)"
    by (simp add: word_of_nat_eq_iff take_bit_eq_mod)
  then show ?thesis
    using True nat_of_bytes_drop [of 32 b] by (simp add: BytesToHash_def)
next
  case False
  then show ?thesis by (simp add: BytesToHash_def)
qed

lemma BigToHash_nat: "BigToHash b = of_nat (nat \<bar>b\<bar>)"
  by (simp add: BigToHash_def BytesToHash_nat)

lemma BigToHash_hash_Big [simp, byte_simps]: "BigToHash (hash_Big h) = h"
  by (simp add: BigToHash_nat hash_Big_def)

lemma hash_Big_BigToHash [byte_simps]: "0 \<le> b \<Longrightarrow> b < 2 ^ 256 \<Longrightarrow> hash_Big (BigToHash b) = b"
  by (simp add: BigToHash_nat hash_Big_def unsigned_of_int take_bit_eq_mod)

lemma BigToHash_0 [simp]: "BigToHash 0 = 0"
  by (simp add: BigToHash_nat)

lemma hash_Big_0 [simp]: "hash_Big 0 = 0"
  by (simp add: hash_Big_def)

lemma hash_Big_eq_0 [simp]: "hash_Big h = 0 \<longleftrightarrow> h = 0"
  by (simp add: hash_Big_def unsigned_eq_0_iff)

lemma hash_Big_bounds: "0 \<le> hash_Big h" "hash_Big h < 2 ^ 256"
  using unsigned_less [of h, where ?'a = int] by (simp_all add: hash_Big_def)

lemma address_key_nat: "address_key a = of_nat (unat a)"
  using unat_address_bound [of a]
  by (simp add: address_key_def BytesToHash_nat address_Bytes_def nat_of_be_bytes)

lemma unat_address_key: "unat (address_key a) = unat a"
proof -
  have "unat a mod 2 ^ 256 = unat a" using unat_address_bound [of a] by (intro mod_less) simp
  then show ?thesis by (simp add: address_key_nat unsigned_ucast_eq take_bit_eq_mod)
qed

lemma address_key_inj [simp]: "address_key a = address_key b \<longleftrightarrow> a = b"
  by (metis unat_address_key word_eq_iff_unsigned)

lemma address_key_roundtrip [byte_simps]: "BytesToAddress (hash_Bytes (address_key a)) = a"
proof -
  have "nat_of_bytes (drop (32 - 20) (hash_Bytes (address_key a))) = unat a"
    using nat_of_bytes_drop [of 20 "hash_Bytes (address_key a)"] unat_address_bound [of a]
    by (simp add: hash_Bytes_def nat_of_be_bytes unat_address_key)
  then show ?thesis by (simp add: BytesToAddress_def)
qed

subsection \<open>Hexadecimal text\<close>

definition hex_value :: "char \<Rightarrow> nat option" where
  "hex_value c =
     (let n = (of_char c :: nat) in
      if 48 \<le> n \<and> n \<le> 57 then Some (n - 48)
      else if 97 \<le> n \<and> n \<le> 102 then Some (n - 87)
      else if 65 \<le> n \<and> n \<le> 70 then Some (n - 55)
      else None)"

definition isHexCharacter :: "char \<Rightarrow> bool" where
  "isHexCharacter c \<longleftrightarrow> hex_value c \<noteq> None"

definition isHex :: "string \<Rightarrow> bool" where
  "isHex s \<longleftrightarrow> length s mod 2 = 0 \<and> list_all isHexCharacter s"

fun has0xPrefix :: "string \<Rightarrow> bool" where
  "has0xPrefix (a # b # _) \<longleftrightarrow> a = CHR ''0'' \<and> (b = CHR ''x'' \<or> b = CHR ''X'')"
| "has0xPrefix _ \<longleftrightarrow> False"

text \<open>
  \<open>Hex2Bytes\<close> drops the error of \<open>hex.DecodeString\<close>, which returns the bytes decoded
  before the first bad pair.
\<close>

fun Hex2Bytes :: "string \<Rightarrow> bytes" where
  "Hex2Bytes (a # b # s) =
     (case (hex_value a, hex_value b) of
        (Some x, Some y) \<Rightarrow> of_nat (16 * x + y) # Hex2Bytes s
      | _ \<Rightarrow> [])"
| "Hex2Bytes _ = []"

definition FromHex :: "string \<Rightarrow> bytes" where
  "FromHex s =
     (let s1 = (if has0xPrefix s then drop 2 s else s);
          s2 = (if length s1 mod 2 = 1 then CHR ''0'' # s1 else s1)
      in Hex2Bytes s2)"

definition HexToAddress :: "string \<Rightarrow> address" where
  "HexToAddress s = BytesToAddress (FromHex s)"

definition HexToHash :: "string \<Rightarrow> hash" where
  "HexToHash s = BytesToHash (FromHex s)"

definition IsHexAddress :: "string \<Rightarrow> bool" where
  "IsHexAddress s =
     (let s1 = (if has0xPrefix s then drop 2 s else s)
      in length s1 = 40 \<and> isHex s1)"

lemma length_Hex2Bytes: "length (Hex2Bytes s) \<le> length s div 2"
  by (induction s rule: Hex2Bytes.induct) (auto split: option.splits)

lemma length_Hex2Bytes_isHex: "isHex s \<Longrightarrow> length (Hex2Bytes s) = length s div 2"
  by (induction s rule: Hex2Bytes.induct) (auto simp: isHex_def isHexCharacter_def)

subsection \<open>Text of integers\<close>

text \<open>
  \<open>(*big.Int).SetString\<close> with an explicit base: an optional sign, then at least one digit of
  the base and nothing else; letters of either case are digits from ten upwards.
\<close>

definition digit_value :: "nat \<Rightarrow> char \<Rightarrow> nat option" where
  "digit_value base c =
     (let n = (of_char c :: nat);
          d = (if 48 \<le> n \<and> n \<le> 57 then Some (n - 48)
               else if 97 \<le> n \<and> n \<le> 122 then Some (n - 87)
               else if 65 \<le> n \<and> n \<le> 90 then Some (n - 55)
               else None)
      in case d of None \<Rightarrow> None | Some v \<Rightarrow> if v < base then Some v else None)"

fun scan_digits :: "nat \<Rightarrow> nat \<Rightarrow> string \<Rightarrow> nat option" where
  "scan_digits base acc [] = Some acc"
| "scan_digits base acc (c # s) =
     (case digit_value base c of
        None \<Rightarrow> None
      | Some v \<Rightarrow> scan_digits base (acc * base + v) s)"

definition big_SetString :: "string \<Rightarrow> nat \<Rightarrow> int option" where
  "big_SetString s base =
     (let (neg, ds) = (case s of
          c # r \<Rightarrow> (if c = CHR ''-'' then (True, r) else if c = CHR ''+'' then (False, r) else (False, s))
        | [] \<Rightarrow> (False, []))
      in if ds = [] then None
         else case scan_digits base 0 ds of
                None \<Rightarrow> None
              | Some n \<Rightarrow> Some (if neg then - int n else int n))"

definition string_of_bytes :: "bytes \<Rightarrow> string" where
  "string_of_bytes b = map (\<lambda>x. char_of (unat x)) b"

definition bytes_of_string :: "string \<Rightarrow> bytes" where
  "bytes_of_string s = map (\<lambda>c. of_nat (of_char c)) s"

lemma string_of_bytes_of_string [simp]: "string_of_bytes (bytes_of_string s) = s"
proof -
  have "unat (of_nat (of_char c :: nat) :: byte) = of_char c" for c :: char
    by (metis of_char_mod_256 unat_of_nat_byte)
  then show ?thesis by (simp add: string_of_bytes_def bytes_of_string_def comp_def)
qed

subsection \<open>uint256\<close>

definition u256_FromBig :: "int \<Rightarrow> uint256 \<times> bool" where
  "u256_FromBig b = (of_int b, 2 ^ 256 \<le> \<bar>b\<bar>)"

definition u256_MustFromBig :: "int \<Rightarrow> uint256 option" where
  "u256_MustFromBig b = (if snd (u256_FromBig b) then None else Some (fst (u256_FromBig b)))"

definition u256_Bytes :: "uint256 \<Rightarrow> bytes" where
  "u256_Bytes z = bytes_of_nat (unat z)"

definition u256_SetBytes :: "bytes \<Rightarrow> uint256" where
  "u256_SetBytes b = of_nat (nat_of_bytes (if length b > 32 then drop (length b - 32) b else b))"

definition u256_ToBig :: "uint256 \<Rightarrow> int" where
  "u256_ToBig z = uint z"

lemma u256_SetBytes_Bytes [simp, byte_simps]: "u256_SetBytes (u256_Bytes z) = z"
proof -
  have "length (bytes_of_nat (unat z)) \<le> 32"
    by (rule length_bytes_of_nat_le) (rule unat_hash_bound)
  then show ?thesis by (simp add: u256_SetBytes_def u256_Bytes_def)
qed

lemma u256_Bytes_eq_Nil [simp]: "u256_Bytes z = [] \<longleftrightarrow> z = 0"
  by (simp add: u256_Bytes_def unat_eq_0)

lemma length_u256_Bytes: "length (u256_Bytes z) \<le> 32"
  unfolding u256_Bytes_def by (rule length_bytes_of_nat_le) (rule unat_hash_bound)

lemma u256_MustFromBig_Some: "0 \<le> b \<Longrightarrow> b < 2 ^ 256 \<Longrightarrow> u256_MustFromBig b = Some (of_int b)"
  by (simp add: u256_MustFromBig_def u256_FromBig_def)

lemma uint_of_int_u256: "0 \<le> b \<Longrightarrow> b < 2 ^ 256 \<Longrightarrow> uint (of_int b :: uint256) = b"
  by (simp add: unsigned_of_int take_bit_eq_mod)

end
