(* ===== verification/Types.thy ===== *)
theory Types
  imports GoLib
begin

text \<open>
  The data of package \<open>types\<close>: headers, blocks and receipts, and the parts of go-ethereum's
  \<open>Transaction\<close> and \<open>Log\<close> the program reads (a transaction is a library value; its
  fields here are the results of the accessors the program calls).

  The cryptography is a parameter, the record \<open>crypto\<close>: Keccak-256, the RLP encoding
  of a header, ECDSA signing and recovery, and the recovery of a transaction's sender for a
  chain id.  What the program relies on is named: \<open>sign_ok\<close> (a signature is 65 bytes long
  and recovers to the signer's address).  \<open>toy_crypto\<close> is a concrete instance used
  by the witnesses.
\<close>

record header =
  ParentHash :: hash
  Number :: int
  Time :: uint64
  VerkleRoot :: hash
  TxHash :: hash
  Coinbase :: address
  ExtraData :: bytes
  Difficulty :: "int option"
  GasLimit :: uint64
  GasUsed :: uint64
  BaseFee :: "int option"

record transaction =
  tx_Type :: byte
  tx_ChainId :: int
  tx_Nonce :: uint64
  tx_GasPrice :: int
  tx_GasFeeCap :: int
  tx_GasTipCap :: int
  tx_Gas :: uint64
  tx_To :: "address option"
  tx_Value :: int
  tx_Data :: bytes
  tx_AccessList :: "(address \<times> hash list) list"
  tx_Hash :: hash
  tx_Size :: uint64
  tx_V :: int
  tx_R :: int
  tx_S :: int
  tx_BlobHashes :: "hash list option"
  tx_BlobGasFeeCap :: "int option"

record block =
  Header :: header
  Transactions :: "transaction list"

record log =
  log_Address :: address
  log_Topics :: "hash list"
  log_Data :: bytes
  log_BlockNumber :: uint64
  log_TxHash :: hash
  log_TxIndex :: nat
  log_BlockHash :: hash
  log_Index :: nat
  log_Removed :: bool

record receipt =
  PostState :: bytes
  Status :: uint64
  CumulativeGasUsed :: uint64
  Bloom :: bytes
  Logs :: "log list"
  r_TxHash :: hash
  ContractAddress :: address
  r_GasUsed :: uint64

type_synonym privkey = "256 word"

record crypto =
  Keccak :: "bytes \<Rightarrow> hash"
  EncodeHeader :: "header \<Rightarrow> bytes"
  SignHash :: "hash \<Rightarrow> privkey \<Rightarrow> bytes option"
  SigToAddr :: "hash \<Rightarrow> bytes \<Rightarrow> address option"
  PrivToAddr :: "privkey \<Rightarrow> address"
  TxSender :: "int \<Rightarrow> transaction \<Rightarrow> address option"

definition NewBlock :: "header \<Rightarrow> transaction list \<Rightarrow> block" where
  "NewBlock h txs = \<lparr>Header = h, Transactions = txs\<rparr>"

definition header_Hash :: "crypto \<Rightarrow> header option \<Rightarrow> hash" where
  "header_Hash C ho = (case ho of None \<Rightarrow> 0 | Some h \<Rightarrow> Keccak C (EncodeHeader C h))"

definition block_Hash :: "crypto \<Rightarrow> block \<Rightarrow> hash" where
  "block_Hash C b = header_Hash C (Some (Header b))"

text \<open>
  \<open>types.Sender\<close> with the signer that \<open>types.LatestSigner\<close> chooses for the chain's
  configuration: Cancun is configured and Prague is not, so the types 0 to 3 are accepted.
\<close>

definition Sender :: "crypto \<Rightarrow> int \<Rightarrow> transaction \<Rightarrow> address option" where
  "Sender C cid tx = (if tx_Type tx \<le> 3 then TxSender C cid tx else None)"

text \<open>\<open>uint64(x)\<close> of a \<open>*big.Int\<close>: \<open>(*big.Int).Uint64\<close> keeps the low 64 bits of the magnitude.\<close>

definition big_Uint64 :: "int \<Rightarrow> uint64" where
  "big_Uint64 i = of_int \<bar>i\<bar>"

definition sign_ok :: "crypto \<Rightarrow> bool" where
  "sign_ok C \<longleftrightarrow> (\<forall>h k s. SignHash C h k = Some s \<longrightarrow>
     length s = 65 \<and> SigToAddr C h s = Some (PrivToAddr C k))"

text \<open>Two headers with different encodings have different hashes, among the headers of interest.\<close>

definition header_hash_inj :: "crypto \<Rightarrow> header set \<Rightarrow> bool" where
  "header_hash_inj C H \<longleftrightarrow> inj_on (\<lambda>h. header_Hash C (Some h)) H"

lemma header_Hash_Some: "header_Hash C (Some h) = Keccak C (EncodeHeader C h)"
  by (simp add: header_Hash_def)

lemma block_Hash_NewBlock [simp]: "block_Hash C (NewBlock h txs) = header_Hash C (Some h)"
  by (simp add: block_Hash_def NewBlock_def)

lemma NewBlock_sel [simp]: "Header (NewBlock h txs) = h" "Transactions (NewBlock h txs) = txs"
  by (simp_all add: NewBlock_def)

lemma block_Hash_Transactions [simp]: "block_Hash C (b\<lparr>Transactions := txs\<rparr>) = block_Hash C b"
  by (simp add: block_Hash_def)

lemma big_Uint64_add1: "0 \<le> i \<Longrightarrow> big_Uint64 (i + 1) = big_Uint64 i + 1"
  by (simp add: big_Uint64_def)

lemma unat_big_Uint64: "0 \<le> i \<Longrightarrow> i < 2 ^ 64 \<Longrightarrow> int (unat (big_Uint64 i)) = i"
  by (simp add: big_Uint64_def unsigned_of_int take_bit_eq_mod)

lemma big_Uint64_inj:
  "0 \<le> i \<Longrightarrow> i < 2 ^ 64 \<Longrightarrow> 0 \<le> j \<Longrightarrow> j < 2 ^ 64 \<Longrightarrow> big_Uint64 i = big_Uint64 j \<longleftrightarrow> i = j"
  by (metis unat_big_Uint64)

subsection \<open>A concrete instance of the parameters\<close>

definition toy_hash :: "bytes \<Rightarrow> hash" where
  "toy_hash b = of_nat ((nat_of_bytes b mod (2 ^ 221 + 1)) * 65536 + length b)"

definition toy_encode :: "header \<Rightarrow> bytes" where
  "toy_encode h =
     be_bytes 8 (nat \<bar>Number h\<bar>) @ be_bytes 8 (unat (Time h)) @ ExtraData h @ [of_nat (length (ExtraData h))]
     @ hash_Bytes (VerkleRoot h)"

definition toy_crypto :: crypto where
  "toy_crypto = \<lparr>
     Keccak = toy_hash,
     EncodeHeader = toy_encode,
     SignHash = (\<lambda>h k. Some (hash_Bytes k @ hash_Bytes h @ [0])),
     SigToAddr = (\<lambda>h s. if drop 32 s = hash_Bytes h @ [0]
                         then Some (of_nat (nat_of_bytes (take 32 s))) else None),
     PrivToAddr = (\<lambda>k. of_nat (unat k)),
     TxSender = (\<lambda>cid tx. if tx_R tx = 0 then None else Some (of_int (tx_R tx)))\<rparr>"

lemma sign_ok_toy: "sign_ok toy_crypto"
  by (auto simp: sign_ok_def toy_crypto_def)

end
