(* ===== verification/Zelius.thy ===== *)
theory Zelius
  imports Types
begin

text \<open>
  Package \<open>consensus\<close>: the Zelius engine, proof of stake with a leader schedule.

  The engine is the record \<open>engine\<close>.  An operation that changes it returns it; \<open>None\<close>
  as a leader is the run-time panic of an empty validator list.  The state an engine reads the
  validator set from is its \<open>GetState\<close> method, \<open>None\<close> when the type assertion
  fails.  Time and the sorting routine of the library are arguments.

  The lemmas: the cached leader schedule always agrees with the schedule computed afresh
  (\<open>schedule_ok\<close>), so leaders depend on the validator list and the view only; which share
  of the hash range each validator gets; sealing and verifying; the set-changing operations
  keep the engine usable; reading the validator set from the state returns.
\<close>

record validator =
  v_Address :: address
  v_Stake :: int

record engine =
  Validators :: "validator list"
  e_f :: nat
  privKey :: "privkey option"
  NonCompliantValidators :: "(address \<times> int) list"
  LeaderSchedule :: "(uint64 \<times> address) list"
  CurrentEpoch :: uint64
  EpochSchedule :: "address list"

datatype engine_error =
    ReadonlyNode
  | SignError
  | MissingSignature
  | SignatureRecoveryFailed
  | WrongLeader address address
  | InvalidStateDB
  | NilPrivateKey
  | NoValidators

definition fault_bound :: "validator list \<Rightarrow> nat" where
  "fault_bound vs = (length vs - 1) div 3"

definition NewZelius :: "validator list \<Rightarrow> privkey option \<Rightarrow> engine" where
  "NewZelius vs key = \<lparr>Validators = vs, e_f = fault_bound vs, privKey = key,
     NonCompliantValidators = [], LeaderSchedule = [], CurrentEpoch = 0, EpochSchedule = []\<rparr>"

subsection \<open>The leader schedule\<close>

definition RecalculateSchedule :: "engine \<Rightarrow> engine" where
  "RecalculateSchedule e = e\<lparr>LeaderSchedule := []\<rparr>"

text \<open>The loop over the cumulative stakes; \<open>None\<close> when it runs through.\<close>

fun pick :: "validator list \<Rightarrow> int \<Rightarrow> int \<Rightarrow> address option" where
  "pick [] current target = None"
| "pick (v # vs) current target =
     (let current' = current + v_Stake v
      in if target \<le> current' then Some (v_Address v) else pick vs current' target)"

definition totalStake :: "validator list \<Rightarrow> int" where
  "totalStake vs = foldl (\<lambda>t v. t + v_Stake v) 0 vs"

definition view_target :: "crypto \<Rightarrow> validator list \<Rightarrow> uint64 \<Rightarrow> int" where
  "view_target C vs view =
     (let seed = Keccak C (bytes_of_nat (unat view)) in hash_Big seed mod \<bar>totalStake vs\<bar>)"

text \<open>\<open>big.Int.Mod\<close> is the Euclidean remainder, the remainder by the absolute value.\<close>

definition GetLeader :: "crypto \<Rightarrow> engine \<Rightarrow> uint64 \<Rightarrow> address option \<times> engine" where
  "GetLeader C e view =
     (case map_of (LeaderSchedule e) view of
        Some leader \<Rightarrow> (Some leader, e)
      | None \<Rightarrow>
          (let vs = Validators e in
           if totalStake vs = 0 then
             (if vs = [] then (None, e)
              else (Some (v_Address (vs ! unat (view mod of_nat (length vs)))), e))
           else
             (let leader = (case pick vs 0 (view_target C vs view) of
                              Some a \<Rightarrow> a
                            | None \<Rightarrow> v_Address (vs ! 0))
              in (Some leader, e\<lparr>LeaderSchedule := AList.update view leader (LeaderSchedule e)\<rparr>))))"

definition SelectProposer :: "crypto \<Rightarrow> engine \<Rightarrow> hash \<Rightarrow> int \<Rightarrow> address option \<times> engine" where
  "SelectProposer C e seed round = GetLeader C e 0"

subsection \<open>Sealing and verifying\<close>

definition Seal :: "crypto \<Rightarrow> engine \<Rightarrow> block \<Rightarrow> block \<times> engine_error option" where
  "Seal C e b =
     (case privKey e of
        None \<Rightarrow> (b, Some ReadonlyNode)
      | Some key \<Rightarrow>
          (let origExtra = ExtraData (Header b);
               b1 = b\<lparr>Header := (Header b)\<lparr>ExtraData := []\<rparr>\<rparr>
           in case SignHash C (block_Hash C b1) key of
                None \<Rightarrow> (b1, Some SignError)
              | Some sig \<Rightarrow>
                  (b1\<lparr>Header := (Header b1)\<lparr>ExtraData :=
                        (if length origExtra > 0 then origExtra @ sig else sig)\<rparr>\<rparr>, None)))"

definition Verify :: "crypto \<Rightarrow> engine \<Rightarrow> block \<Rightarrow> engine_error option \<times> engine" where
  "Verify C e b =
     (let extra = ExtraData (Header b); n = length extra in
      if n < 65 then (Some MissingSignature, e)
      else
        (let sig = drop (n - 65) extra;
             preSealExtra = take (n - 65) extra;
             sealHash = header_Hash C (Some ((Header b)\<lparr>ExtraData := preSealExtra\<rparr>))
         in case SigToAddr C sealHash sig of
              None \<Rightarrow> (Some SignatureRecoveryFailed, e)
            | Some signer \<Rightarrow>
                (case GetLeader C e (big_Uint64 (Number (Header b))) of
                   (None, e') \<Rightarrow> (Some NoValidators, e')
                 | (Some expected, e') \<Rightarrow>
                     (if expected \<noteq> signer then (Some (WrongLeader expected signer), e')
                      else (None, e')))))"

subsection \<open>Changing the validator set\<close>

text \<open>The update of the first entry with the address, if there is one.\<close>

fun addStake :: "validator list \<Rightarrow> address \<Rightarrow> int \<Rightarrow> validator list option" where
  "addStake [] addr stake = None"
| "addStake (v # vs) addr stake =
     (if v_Address v = addr then Some (v\<lparr>v_Stake := v_Stake v + stake\<rparr> # vs)
      else map_option ((#) v) (addStake vs addr stake))"

definition AddValidator :: "engine \<Rightarrow> address \<Rightarrow> int \<Rightarrow> engine" where
  "AddValidator e addr stake =
     (case addStake (Validators e) addr stake of
        Some vs \<Rightarrow> RecalculateSchedule (e\<lparr>Validators := vs\<rparr>)
      | None \<Rightarrow>
          (let vs = Validators e @ [\<lparr>v_Address = addr, v_Stake = stake\<rparr>]
           in RecalculateSchedule (e\<lparr>Validators := vs, e_f := fault_bound vs\<rparr>)))"

fun removeFirst :: "validator list \<Rightarrow> address \<Rightarrow> validator list option" where
  "removeFirst [] addr = None"
| "removeFirst (v # vs) addr =
     (if v_Address v = addr then Some vs else map_option ((#) v) (removeFirst vs addr))"

definition RemoveValidator :: "engine \<Rightarrow> address \<Rightarrow> engine" where
  "RemoveValidator e addr =
     (if length (Validators e) \<le> 1 then e
      else case removeFirst (Validators e) addr of
             None \<Rightarrow> e
           | Some vs \<Rightarrow> RecalculateSchedule (e\<lparr>Validators := vs, e_f := fault_bound vs\<rparr>))"

definition Slash :: "engine \<Rightarrow> address \<Rightarrow> engine" where
  "Slash e addr = RemoveValidator e addr"

definition nonCompliance :: "engine \<Rightarrow> address \<Rightarrow> int" where
  "nonCompliance e addr = (case map_of (NonCompliantValidators e) addr of None \<Rightarrow> 0 | Some n \<Rightarrow> n)"

definition RecordNonCompliance :: "engine \<Rightarrow> address \<Rightarrow> engine" where
  "RecordNonCompliance e addr =
     (let n = nonCompliance e addr + 1;
          e1 = e\<lparr>NonCompliantValidators := AList.update addr n (NonCompliantValidators e)\<rparr>
      in if n \<ge> 1000 then Slash e1 addr else e1)"

subsection \<open>Reading the validator set from the state\<close>

definition sync_validatorAddr :: address where
  "sync_validatorAddr = HexToAddress ''0x0000000000000000000000000000000000003000''"

definition sync_stakingAddr :: address where
  "sync_stakingAddr = HexToAddress ''0x0000000000000000000000000000000000002000''"

definition readValidator :: "(address \<Rightarrow> hash \<Rightarrow> hash) \<Rightarrow> uint64 \<Rightarrow> validator" where
  "readValidator GetState i =
     (let indexKey = BigToHash (uint i);
          addr = BytesToAddress (hash_Bytes (GetState sync_validatorAddr indexKey));
          key = BytesToHash (address_Bytes addr)
      in \<lparr>v_Address = addr, v_Stake = hash_Big (GetState sync_stakingAddr key)\<rparr>)"

text \<open>The loop \<open>for i := uint64(1); i <= count; i++\<close>; it does not return when \<open>count\<close> is the largest \<open>uint64\<close>.\<close>

partial_function (option) syncLoop ::
    "(address \<Rightarrow> hash \<Rightarrow> hash) \<Rightarrow> uint64 \<Rightarrow> uint64 \<Rightarrow> validator list \<Rightarrow> validator list option" where
  "syncLoop GetState i cnt acc =
     (if i \<le> cnt then syncLoop GetState (i + 1) cnt (acc @ [readValidator GetState i])
      else Some acc)"

definition SyncValidators ::
    "(address \<Rightarrow> hash \<Rightarrow> hash) option \<Rightarrow> engine \<Rightarrow> (engine_error option \<times> engine) option" where
  "SyncValidators stateDB e =
     (case stateDB of
        None \<Rightarrow> Some (Some InvalidStateDB, e)
      | Some GetState \<Rightarrow>
          (let count = hash_Big (GetState sync_validatorAddr 0) in
           if count = 0 then Some (None, e)
           else case syncLoop GetState 1 (big_Uint64 count) [] of
                  None \<Rightarrow> None
                | Some vs \<Rightarrow>
                    Some (None, RecalculateSchedule (e\<lparr>Validators := vs, e_f := fault_bound vs\<rparr>))))"

subsection \<open>A simulated round\<close>

text \<open>
  The proposals of the other validators are collected into a map that is never read, so the
  block holds the local transactions.  The state is an optional argument (\<open>nil\<close> skips
  the synchronisation), \<open>srt\<close> is the library's sorting of transactions by nonce.
\<close>

definition round_header :: "crypto \<Rightarrow> block \<Rightarrow> uint64 \<Rightarrow> address \<Rightarrow> header" where
  "round_header C par now myAddr = \<lparr>
     ParentHash = block_Hash C par,
     Number = Number (Header par) + 1,
     Time = now,
     VerkleRoot = 0,
     TxHash = 0,
     Coinbase = myAddr,
     ExtraData = [],
     Difficulty = Some 0,
     GasLimit = 30000000,
     GasUsed = 0,
     BaseFee = Some 10\<rparr>"

definition SimulateRound ::
    "crypto \<Rightarrow> (transaction list \<Rightarrow> transaction list) \<Rightarrow> uint64 \<Rightarrow> engine \<Rightarrow> block \<Rightarrow> transaction list
     \<Rightarrow> (address \<Rightarrow> hash \<Rightarrow> hash) option option \<Rightarrow> ((engine_error + block) \<times> engine) option" where
  "SimulateRound C srt now e par txs stateDB =
     (case (case stateDB of None \<Rightarrow> Some e | Some r \<Rightarrow> map_option snd (SyncValidators r e)) of
        None \<Rightarrow> None
      | Some e1 \<Rightarrow>
          (case GetLeader C e1 (big_Uint64 (Number (Header par) + 1)) of
             (None, e2) \<Rightarrow> Some (Inl NoValidators, e2)
           | (Some proposer, e2) \<Rightarrow>
               (case privKey e2 of
                  None \<Rightarrow> Some (Inl NilPrivateKey, e2)
                | Some key \<Rightarrow>
                    (let finalTxs = srt (concat [txs]);
                         b = NewBlock (round_header C par now (PrivToAddr C key)) finalTxs
                     in case Seal C e2 b of
                          (_, Some err) \<Rightarrow> Some (Inl err, e2)
                        | (b', None) \<Rightarrow> Some (Inr b', e2)))))"

subsection \<open>The schedule is a function of the validators and the view\<close>

text \<open>The leader computed without the cache.\<close>

definition leader_of :: "crypto \<Rightarrow> validator list \<Rightarrow> uint64 \<Rightarrow> address option" where
  "leader_of C vs view =
     (if vs = [] then None
      else if totalStake vs = 0 then Some (v_Address (vs ! unat (view mod of_nat (length vs))))
      else case pick vs 0 (view_target C vs view) of
             None \<Rightarrow> Some (v_Address (hd vs))
           | Some a \<Rightarrow> Some a)"

definition schedule_ok :: "crypto \<Rightarrow> engine \<Rightarrow> bool" where
  "schedule_ok C e \<longleftrightarrow>
     (\<forall>view a. map_of (LeaderSchedule e) view = Some a \<longrightarrow> leader_of C (Validators e) view = Some a)"

definition engine_ok :: "crypto \<Rightarrow> engine \<Rightarrow> bool" where
  "engine_ok C e \<longleftrightarrow> schedule_ok C e \<and> e_f e = fault_bound (Validators e)"

lemma totalStake_sum: "totalStake vs = sum_list (map v_Stake vs)"
proof -
  have "foldl (\<lambda>t v. t + v_Stake v) a vs = a + sum_list (map v_Stake vs)" for a
    by (induction vs arbitrary: a) auto
  then show ?thesis by (simp add: totalStake_def)
qed

lemma totalStake_Nil [simp]: "totalStake [] = 0"
  by (simp add: totalStake_def)

lemma GetLeader_leader_of:
  assumes "schedule_ok C e"
  shows "fst (GetLeader C e view) = leader_of C (Validators e) view"
proof (cases "map_of (LeaderSchedule e) view")
  case None
  then show ?thesis
    by (cases "Validators e") (auto simp: GetLeader_def leader_of_def Let_def split: option.splits)
next
  case (Some a)
  with assms show ?thesis by (simp add: GetLeader_def schedule_ok_def)
qed

lemma GetLeader_engine:
  assumes "GetLeader C e view = (r, e')"
  shows "Validators e' = Validators e" "e_f e' = e_f e" "privKey e' = privKey e"
    and "NonCompliantValidators e' = NonCompliantValidators e"
    and "schedule_ok C e \<Longrightarrow> schedule_ok C e'"
proof -
  show "Validators e' = Validators e" "e_f e' = e_f e" "privKey e' = privKey e"
    and "NonCompliantValidators e' = NonCompliantValidators e"
    using assms by (auto simp: GetLeader_def Let_def split: option.splits if_splits)
  show "schedule_ok C e'" if ok: "schedule_ok C e"
  proof (cases "LeaderSchedule e' = LeaderSchedule e")
    case True
    with ok \<open>Validators e' = Validators e\<close> show ?thesis by (simp add: schedule_ok_def)
  next
    case False
    then obtain a where "r = Some a" "LeaderSchedule e' = AList.update view a (LeaderSchedule e)"
      using assms
      by (auto simp: GetLeader_def Let_def split: option.splits if_splits) metis
    moreover have "leader_of C (Validators e) view = r" using GetLeader_leader_of [OF ok] assms by (metis fst_conv)
    ultimately show ?thesis using ok \<open>Validators e' = Validators e\<close> by (auto simp: schedule_ok_def)
  qed
qed

lemma schedule_ok_empty [simp]: "LeaderSchedule e = [] \<Longrightarrow> schedule_ok C e"
  by (simp add: schedule_ok_def)

lemma RecalculateSchedule_sel [simp]:
  "LeaderSchedule (RecalculateSchedule e) = []" "Validators (RecalculateSchedule e) = Validators e"
  "e_f (RecalculateSchedule e) = e_f e"
  "NonCompliantValidators (RecalculateSchedule e) = NonCompliantValidators e"
  by (simp_all add: RecalculateSchedule_def)

lemma addStake_length: "addStake vs a s = Some vs' \<Longrightarrow> length vs' = length vs"
  by (induction vs arbitrary: vs') (auto split: if_splits)

lemma engine_ok_NewZelius: "engine_ok C (NewZelius vs key)"
  by (simp add: engine_ok_def NewZelius_def schedule_ok_def)

lemma engine_ok_GetLeader: "engine_ok C e \<Longrightarrow> engine_ok C (snd (GetLeader C e view))"
  using GetLeader_engine [of C e view "fst (GetLeader C e view)" "snd (GetLeader C e view)"]
  by (auto simp: engine_ok_def)

lemma engine_ok_AddValidator: "engine_ok C e \<Longrightarrow> engine_ok C (AddValidator e a s)"
  using addStake_length [of "Validators e" a s]
  by (auto simp: AddValidator_def engine_ok_def Let_def fault_bound_def split: option.splits)

lemma engine_ok_RemoveValidator: "engine_ok C e \<Longrightarrow> engine_ok C (RemoveValidator e a)"
  by (auto simp: RemoveValidator_def engine_ok_def split: option.splits)

lemma engine_ok_RecordNonCompliance:
  assumes "engine_ok C e"
  shows "engine_ok C (RecordNonCompliance e a)"
proof -
  have "engine_ok C (e\<lparr>NonCompliantValidators := x\<rparr>)" for x
    using assms by (simp add: engine_ok_def schedule_ok_def)
  then show ?thesis by (simp add: RecordNonCompliance_def Let_def Slash_def engine_ok_RemoveValidator)
qed

lemma engine_ok_SyncValidators:
  "engine_ok C e \<Longrightarrow> SyncValidators r e = Some (err, e') \<Longrightarrow> engine_ok C e'"
  by (auto simp: SyncValidators_def engine_ok_def Let_def split: option.splits if_splits)

lemma engine_ok_Verify: "engine_ok C e \<Longrightarrow> engine_ok C (snd (Verify C e b))"
  using engine_ok_GetLeader [of C e "big_Uint64 (Number (Header b))"]
  by (auto simp: Verify_def Let_def split: option.splits prod.splits)

lemma pick_mem: "pick vs c t = Some a \<Longrightarrow> \<exists>v \<in> set vs. a = v_Address v"
  by (induction vs c t rule: pick.induct) (auto simp: Let_def split: if_splits)

lemma unat_mod_length:
  assumes "vs \<noteq> []"
  shows "unat ((view :: uint64) mod of_nat (length vs)) < length vs"
proof -
  let ?n = "length vs mod 2 ^ 64"
  have eq: "unat (view mod of_nat (length vs)) = unat view mod ?n"
    by (simp add: unat_mod unsigned_of_nat take_bit_eq_mod)
  show ?thesis
  proof (cases "?n = 0")
    case True
    then have "2 ^ 64 \<le> length vs"
      using assms by (auto intro!: dvd_imp_le simp: mod_eq_0_iff_dvd)
    moreover have "unat view < 2 ^ 64" using unat_uint64_bound [of view] by simp
    ultimately show ?thesis unfolding eq True by (metis mod_by_0 less_le_trans)
  next
    case False
    then have "unat view mod ?n < ?n" by simp
    also have "?n \<le> length vs" by simp
    finally show ?thesis unfolding eq .
  qed
qed

lemma leader_of_mem:
  assumes "vs \<noteq> []"
  shows "\<exists>v \<in> set vs. leader_of C vs view = Some (v_Address v)"
  using assms unat_mod_length [OF assms, of view] pick_mem
  by (fastforce simp: leader_of_def split: option.split)

text \<open>What can happen to an engine between its creation and a later moment.\<close>

inductive engine_step :: "crypto \<Rightarrow> engine \<Rightarrow> engine \<Rightarrow> bool" for C where
  step_leader: "engine_step C e (snd (GetLeader C e view))"
| step_verify: "engine_step C e (snd (Verify C e b))"
| step_add: "engine_step C e (AddValidator e a s)"
| step_remove: "engine_step C e (RemoveValidator e a)"
| step_slash: "engine_step C e (Slash e a)"
| step_noncompliance: "engine_step C e (RecordNonCompliance e a)"
| step_sync: "SyncValidators r e = Some (err, e') \<Longrightarrow> engine_step C e e'"

inductive engine_reach :: "crypto \<Rightarrow> engine \<Rightarrow> bool" for C where
  reach_new: "engine_reach C (NewZelius vs key)"
| reach_step: "engine_reach C e \<Longrightarrow> engine_step C e e' \<Longrightarrow> engine_reach C e'"

lemma engine_ok_step: "engine_step C e e' \<Longrightarrow> engine_ok C e \<Longrightarrow> engine_ok C e'"
  by (induction rule: engine_step.induct)
    (simp_all add: engine_ok_GetLeader engine_ok_Verify engine_ok_AddValidator engine_ok_RemoveValidator
      Slash_def engine_ok_RecordNonCompliance engine_ok_SyncValidators)

lemma engine_reach_ok: "engine_reach C e \<Longrightarrow> engine_ok C e"
  by (induction rule: engine_reach.induct) (auto intro: engine_ok_NewZelius engine_ok_step)

text \<open>C26. Leaders do not depend on an engine's history: whatever two engines went through since
  they were created, if they hold the same validator list they name the same leader for every
  view, from the cache or not, and the leader is a validator whenever there is one.\<close>

theorem leader_determined_by_validators:
  assumes "engine_reach C e" "engine_reach C e'" "Validators e = Validators e'"
  shows "fst (GetLeader C e view) = fst (GetLeader C e' view) \<and>
    (Validators e \<noteq> [] \<longrightarrow> (\<exists>v \<in> set (Validators e). fst (GetLeader C e view) = Some (v_Address v)))"
proof -
  show ?thesis
    using assms leader_of_mem engine_reach_ok [of C e] engine_reach_ok [of C e'] GetLeader_leader_of
    by (simp add: engine_ok_def)
qed

subsection \<open>The share of each validator\<close>

text \<open>The stake in front of validator \<open>i\<close>.\<close>

definition stakeBefore :: "validator list \<Rightarrow> nat \<Rightarrow> int" where
  "stakeBefore vs i = sum_list (map v_Stake (take i vs))"

lemma stakeBefore_simps [simp]:
  "stakeBefore vs 0 = 0" "stakeBefore (v # vs) (Suc i) = v_Stake v + stakeBefore vs i"
  by (simp_all add: stakeBefore_def)

lemma stakeBefore_nonneg: "\<forall>v \<in> set vs. 0 \<le> v_Stake v \<Longrightarrow> 0 \<le> stakeBefore vs i"
  unfolding stakeBefore_def by (rule sum_list_nonneg) (metis (no_types) imageE in_set_takeD set_map)

lemma pick_nth:
  assumes "distinct (map v_Address vs)" "\<forall>v \<in> set vs. 0 \<le> v_Stake v" "i < length vs"
  shows "pick vs c t = Some (v_Address (vs ! i)) \<longleftrightarrow>
    (i = 0 \<or> c + stakeBefore vs i < t) \<and> t \<le> c + stakeBefore vs (Suc i)"
  using assms
proof (induction vs arbitrary: c i)
  case Nil
  then show ?case by simp
next
  case (Cons v vs)
  show ?case
  proof (cases i)
    case 0
    have "pick vs d t \<noteq> Some (v_Address v)" for d
      using Cons.prems(1) pick_mem [of vs d t "v_Address v"] by auto
    with 0 show ?thesis by (auto simp: Let_def)
  next
    case (Suc j)
    have "v_Address (vs ! j) \<in> set (map v_Address vs)" "v_Address v \<notin> set (map v_Address vs)"
      using Cons.prems Suc by auto
    then have ne: "v_Address v \<noteq> v_Address (vs ! j)" by metis
    have "0 \<le> stakeBefore vs j" using Cons.prems(2) by (auto intro: stakeBefore_nonneg)
    moreover have "pick vs (c + v_Stake v) t = Some (v_Address (vs ! j)) \<longleftrightarrow>
      (j = 0 \<or> c + v_Stake v + stakeBefore vs j < t) \<and> t \<le> c + v_Stake v + stakeBefore vs (Suc j)"
      using Cons Suc by (intro Cons.IH) auto
    ultimately show ?thesis using Suc ne by (auto simp: Let_def)
  qed
qed

text \<open>The share of a validator: of the \<open>totalStake\<close> possible targets of a view, validator
  \<open>i\<close> leads for those strictly above the stake in front of it up to and including that stake
  plus its own, the first validator for target 0 as well.  Every share has the size of the
  stake, except that the first validator has one target more and the last one fewer.\<close>

theorem leader_shares:
  assumes "distinct (map v_Address vs)" "\<forall>v \<in> set vs. 0 \<le> v_Stake v" "i < length vs"
  shows "{t \<in> {0..<totalStake vs}. pick vs 0 t = Some (v_Address (vs ! i))}
    = {(if i = 0 then 0 else stakeBefore vs i + 1)..min (stakeBefore vs (Suc i)) (totalStake vs - 1)}"
proof (rule set_eqI)
  fix t
  note nonneg = stakeBefore_nonneg [OF assms(2), of i]
  show "t \<in> {t \<in> {0..<totalStake vs}. pick vs 0 t = Some (v_Address (vs ! i))} \<longleftrightarrow>
    t \<in> {(if i = 0 then 0 else stakeBefore vs i + 1)..min (stakeBefore vs (Suc i)) (totalStake vs - 1)}"
    unfolding mem_Collect_eq pick_nth [OF assms] using nonneg by (cases "i = 0") (simp_all, linarith+)
qed

theorem leader_shares_witness:
  "card {t \<in> {0..<totalStake [\<lparr>v_Address = 1, v_Stake = 10\<rparr>, \<lparr>v_Address = 2, v_Stake = 10\<rparr>]}.
     pick [\<lparr>v_Address = 1, v_Stake = 10\<rparr>, \<lparr>v_Address = 2, v_Stake = 10\<rparr>] 0 t = Some 1} = 11"
  using leader_shares [of "[\<lparr>v_Address = 1, v_Stake = 10\<rparr>, \<lparr>v_Address = 2, v_Stake = 10\<rparr>]" 0]
  by (simp add: totalStake_def)

subsection \<open>Sealing\<close>

lemma Seal_Some:
  assumes "Seal C e b = (b', None)"
  obtains key sig where "privKey e = Some key"
    "SignHash C (header_Hash C (Some ((Header b)\<lparr>ExtraData := []\<rparr>))) key = Some sig"
    "b' = b\<lparr>Header := (Header b)\<lparr>ExtraData := ExtraData (Header b) @ sig\<rparr>\<rparr>"
  using assms by (auto simp: Seal_def Let_def block_Hash_def split: option.splits if_splits)

text \<open>The outcome of verifying a block whose extra data ends in a signature.\<close>

lemma Verify_signed:
  assumes "ExtraData (Header b) = x @ sig" "length sig = 65"
    and "SigToAddr C (header_Hash C (Some ((Header b)\<lparr>ExtraData := x\<rparr>))) sig = Some a"
  shows "fst (Verify C e b) =
    (case fst (GetLeader C e (big_Uint64 (Number (Header b)))) of
       None \<Rightarrow> Some NoValidators
     | Some l \<Rightarrow> if l = a then None else Some (WrongLeader l a))"
  using assms by (auto simp: Verify_def Let_def split: prod.splits option.splits)

lemma Verify_Seal:
  assumes "sign_ok C" "ExtraData (Header b) = []" "privKey e = Some key" "Seal C e b = (b', None)"
  shows "fst (Verify C e' b') =
    (case fst (GetLeader C e' (big_Uint64 (Number (Header b)))) of
       None \<Rightarrow> Some NoValidators
     | Some l \<Rightarrow> if l = PrivToAddr C key then None else Some (WrongLeader l (PrivToAddr C key)))"
proof -
  obtain sig where sig: "SignHash C (header_Hash C (Some ((Header b)\<lparr>ExtraData := []\<rparr>))) key = Some sig"
      "b' = b\<lparr>Header := (Header b)\<lparr>ExtraData := sig\<rparr>\<rparr>"
    using Seal_Some [OF assms(4)] assms(2,3) by (metis append_Nil option.inject)
  then show ?thesis
    using assms(1) Verify_signed [of b' "[]" sig C "PrivToAddr C key" e'] by (simp add: sign_ok_def)
qed

text \<open>C25. Sealing and verifying agree: a block sealed with empty extra data is accepted by every
  engine for which the sealing key belongs to the leader of the block's number, and rejected as
  signed by the wrong leader otherwise.\<close>

theorem seal_then_verify:
  assumes "sign_ok C" "ExtraData (Header b) = []" "privKey e = Some key" "Seal C e b = (b', None)"
  shows "fst (Verify C e' b') =
    (case fst (GetLeader C e' (big_Uint64 (Number (Header b)))) of
       None \<Rightarrow> Some NoValidators
     | Some l \<Rightarrow> if l = PrivToAddr C key then None else Some (WrongLeader l (PrivToAddr C key)))"
  using assms by (rule Verify_Seal)

text \<open>
  ECDSA recovery binds the message: a signature made for one hash does not recover to its
  signer under another hash.
\<close>

definition sig_binding :: "crypto \<Rightarrow> bool" where
  "sig_binding C \<longleftrightarrow> (\<forall>h h' k s. SignHash C h k = Some s \<longrightarrow> SigToAddr C h' s = Some (PrivToAddr C k) \<longrightarrow> h' = h)"

text \<open>A block that already has extra data cannot be sealed usefully: \<open>Seal\<close> signs the
  header without the extra data and \<open>Verify\<close> checks the signature against the header with it,
  so the leader's own block is rejected.\<close>

theorem seal_with_extra_rejected:
  assumes "sign_ok C" "sig_binding C" "ExtraData (Header b) \<noteq> []" "privKey e = Some key"
    and "Seal C e b = (b', None)"
    and "header_hash_inj C {(Header b)\<lparr>ExtraData := []\<rparr>, Header b}"
    and "fst (GetLeader C e' (big_Uint64 (Number (Header b)))) = Some (PrivToAddr C key)"
  shows "fst (Verify C e' b') \<noteq> None"
proof -
  obtain sig where sig: "SignHash C (header_Hash C (Some ((Header b)\<lparr>ExtraData := []\<rparr>))) key = Some sig"
      "b' = b\<lparr>Header := (Header b)\<lparr>ExtraData := ExtraData (Header b) @ sig\<rparr>\<rparr>"
    using Seal_Some [OF assms(5)] assms(4) by (metis option.inject)
  have "(Header b)\<lparr>ExtraData := []\<rparr> \<noteq> Header b" using assms(3) by (cases "Header b") simp
  then have "header_Hash C (Some (Header b)) \<noteq> header_Hash C (Some ((Header b)\<lparr>ExtraData := []\<rparr>))"
    using assms(6) by (auto simp: header_hash_inj_def)
  then have "SigToAddr C (header_Hash C (Some (Header b))) sig \<noteq> Some (PrivToAddr C key)"
    using assms(2) sig(1) unfolding sig_binding_def by metis
  moreover have "length sig = 65" using assms(1) sig(1) by (simp add: sign_ok_def)
  ultimately show ?thesis
    using sig(2) assms(7) by (auto simp: Verify_def Let_def split: prod.splits option.splits)
qed

text \<open>The signature does not cover the transactions: replacing the transaction list of a
  block changes neither its hash nor the outcome of its verification.\<close>

theorem verify_ignores_transactions:
  "Verify C e (b\<lparr>Transactions := txs\<rparr>) = Verify C e b \<and>
   block_Hash C (b\<lparr>Transactions := txs\<rparr>) = block_Hash C b"
proof -
  have h: "Header (b\<lparr>Transactions := txs\<rparr>) = Header b" by simp
  show ?thesis by (simp only: Verify_def block_Hash_def h simp_thms)
qed

subsection \<open>Changes of the validator set\<close>

lemma removeFirst_length: "removeFirst vs a = Some vs' \<Longrightarrow> length vs = Suc (length vs')"
  by (induction vs arbitrary: vs') (auto split: if_splits)

lemma removeFirst_mem: "a \<in> v_Address ` set vs \<Longrightarrow> \<exists>vs'. removeFirst vs a = Some vs'"
  by (induction vs) (auto split: if_splits)

lemma RemoveValidator_nonempty: "Validators e \<noteq> [] \<Longrightarrow> Validators (RemoveValidator e a) \<noteq> []"
  by (auto simp: RemoveValidator_def dest!: removeFirst_length split: option.splits)

lemma RecordNonCompliance_count:
  "nonCompliance (RecordNonCompliance e a) a = nonCompliance e a + 1"
  by (simp add: RecordNonCompliance_def nonCompliance_def Let_def Slash_def RemoveValidator_def
      split: option.split)

lemma RecordNonCompliance_below:
  assumes "nonCompliance e a = 0" "n < 1000"
  shows "Validators (((\<lambda>e. RecordNonCompliance e a) ^^ n) e) = Validators e \<and>
    nonCompliance (((\<lambda>e. RecordNonCompliance e a) ^^ n) e) a = int n"
  using assms(2)
proof (induction n)
  case 0
  with assms(1) show ?case by simp
next
  case (Suc n)
  then show ?case
    using RecordNonCompliance_count [of "((\<lambda>e. RecordNonCompliance e a) ^^ n) e" a]
    by (simp add: RecordNonCompliance_def Let_def)
qed

text \<open>The liveness penalty: a validator keeps its place through 999 recorded failures, is
  removed by the thousandth, and the last validator is never removed.\<close>

theorem slashed_at_1000:
  assumes "nonCompliance e a = 0" "a \<in> v_Address ` set (Validators e)" "length (Validators e) > 1"
  shows "(\<forall>n < 1000. Validators (((\<lambda>e. RecordNonCompliance e a) ^^ n) e) = Validators e) \<and>
    Some (Validators (((\<lambda>e. RecordNonCompliance e a) ^^ 1000) e)) = removeFirst (Validators e) a \<and>
    Validators (((\<lambda>e. RecordNonCompliance e a) ^^ 1000) e) \<noteq> []"
proof -
  let ?e = "((\<lambda>e. RecordNonCompliance e a) ^^ 999) e"
  note b = RecordNonCompliance_below [OF assms(1)]
  have b999: "Validators ?e = Validators e" "nonCompliance ?e a = 999" using b [of 999] by simp_all
  have split: "((\<lambda>e. RecordNonCompliance e a) ^^ 1000) e = RecordNonCompliance ?e a"
    using funpow.simps(2) [of 999 "\<lambda>e. RecordNonCompliance e a"] by (metis comp_apply eval_nat_numeral(3) numeral_eq_Suc pred_numeral_simps(2) Num.BitM.simps)
  obtain vs where vs: "removeFirst (Validators e) a = Some vs" using removeFirst_mem [OF assms(2)] by blast
  have "Validators (RecordNonCompliance ?e a) = vs"
    using vs b999 assms(3) by (simp add: RecordNonCompliance_def Let_def Slash_def RemoveValidator_def)
  with split vs b removeFirst_length [OF vs] assms(3) show ?thesis by auto
qed

subsection \<open>Synchronisation\<close>

lemma syncLoop_returns:
  assumes "unat cnt < 2 ^ 64 - 1" "unat i \<le> Suc (unat cnt)"
  shows "syncLoop g i cnt acc = Some (acc @ map (\<lambda>j. readValidator g (of_nat j)) [unat i..<Suc (unat cnt)])"
  using assms(2)
proof (induction "Suc (unat cnt) - unat i" arbitrary: i acc)
  case 0
  then have "\<not> i \<le> cnt" by (simp add: word_le_nat_alt)
  with 0 show ?case by (subst syncLoop.simps) simp
next
  case (Suc k)
  then have le: "i \<le> cnt" by (simp add: word_le_nat_alt)
  have u: "unat (i + 1) = Suc (unat i)"
    using assms(1) le by (simp add: unat_word_ariths word_le_nat_alt)
  have "[unat i..<Suc (unat cnt)] = unat i # [Suc (unat i)..<Suc (unat cnt)]"
    using le by (simp add: upt_conv_Cons word_le_nat_alt)
  with Suc u le show ?case
    by (subst syncLoop.simps) (simp add: word_le_nat_alt)
qed

text \<open>Synchronisation returns for every count below the largest \<open>uint64\<close> and replaces the
  validator list by the registry entries 1 to count, in order, with a fresh schedule and the
  fault bound of the new list.\<close>

theorem sync_reads_registry:
  assumes "n = unat (g sync_validatorAddr 0)" "0 < n" "n < 2 ^ 64 - 1"
  shows "\<exists>e'. SyncValidators (Some g) e = Some (None, e') \<and>
    Validators e' = map (\<lambda>i. readValidator g (of_nat i)) [1..<Suc n] \<and>
    e_f e' = (n - 1) div 3 \<and> LeaderSchedule e' = []"
proof -
  let ?c = "big_Uint64 (hash_Big (g sync_validatorAddr 0))"
  have i: "hash_Big (g sync_validatorAddr 0) = int n" using assms(1) by (simp add: hash_Big_def)
  have "int (unat ?c) = int n"
    unfolding i using assms(3) by (intro unat_big_Uint64) simp_all
  then have c: "unat ?c = n" by (simp only: of_nat_eq_iff)
  have "syncLoop g 1 ?c [] = Some (map (\<lambda>i. readValidator g (of_nat i)) [1..<Suc n])"
    using syncLoop_returns [of ?c 1 g "[]"] assms(2,3) c by simp
  then show ?thesis using i assms(2) by (simp add: SyncValidators_def Let_def fault_bound_def)
qed

subsection \<open>Rounds\<close>

text \<open>What the library promises of sorting by nonce; ties may end up in any order.\<close>

definition sorts_by_nonce :: "(transaction list \<Rightarrow> transaction list) \<Rightarrow> bool" where
  "sorts_by_nonce srt \<longleftrightarrow> (\<forall>txs. mset (srt txs) = mset txs \<and> sorted (map tx_Nonce (srt txs)))"

lemma SimulateRound_Inr:
  assumes "SimulateRound C srt now e par txs stateDB = Some (Inr b, e2)"
  obtains key b0 where "privKey e2 = Some key" "Seal C e2 b0 = (b, None)"
    "b0 = NewBlock (round_header C par now (PrivToAddr C key)) (srt txs)"
  using assms
  by (auto simp: SimulateRound_def Let_def split: option.splits prod.splits)

text \<open>A successful round extends its parent: the block carries the next number and the
  parent's hash, holds exactly the given transactions ordered by nonce, and verifies if and only
  if the local key is the leader of its number.\<close>

theorem round_extends_parent:
  assumes "sign_ok C" "sorts_by_nonce srt"
    and "SimulateRound C srt now e par txs stateDB = Some (Inr b, e2)" "privKey e2 = Some key"
  shows "Number (Header b) = Number (Header par) + 1 \<and> ParentHash (Header b) = block_Hash C par \<and>
    mset (Transactions b) = mset txs \<and> sorted (map tx_Nonce (Transactions b)) \<and>
    (fst (Verify C e2 b) = None \<longleftrightarrow>
       fst (GetLeader C e2 (big_Uint64 (Number (Header par) + 1))) = Some (PrivToAddr C key))"
proof -
  obtain b0 where s: "Seal C e2 b0 = (b, None)"
      and b0: "b0 = NewBlock (round_header C par now (PrivToAddr C key)) (srt txs)"
    using SimulateRound_Inr [OF assms(3)] assms(4) by (metis option.inject)
  have x: "ExtraData (Header b0) = []" "Number (Header b0) = Number (Header par) + 1"
      "ParentHash (Header b0) = block_Hash C par" "Transactions b0 = srt txs"
    by (simp_all add: b0 round_header_def)
  obtain sig where "b = b0\<lparr>Header := (Header b0)\<lparr>ExtraData := sig\<rparr>\<rparr>"
    using Seal_Some [OF s] x(1) by (metis append_Nil)
  with Verify_Seal [OF assms(1) x(1) assms(4) s, of e2] x assms(2) show ?thesis
    by (auto simp: sorts_by_nonce_def split: option.splits)
qed

subsection \<open>Witnesses\<close>

text \<open>Two validators with equal stakes; the second, whose key is local, leads view 1.\<close>

definition demo_engine :: engine where
  "demo_engine = NewZelius [\<lparr>v_Address = 1, v_Stake = 10\<rparr>, \<lparr>v_Address = 2, v_Stake = 10\<rparr>] (Some 2)"

definition demo_header :: "bytes \<Rightarrow> header" where
  "demo_header x = \<lparr>ParentHash = 0, Number = 1, Time = 5, VerkleRoot = 0, TxHash = 0, Coinbase = 2,
     ExtraData = x, Difficulty = Some 0, GasLimit = 30000000, GasUsed = 0, BaseFee = Some 10\<rparr>"

lemma toy_sign: "SignHash toy_crypto h k = Some (hash_Bytes k @ hash_Bytes h @ [0])"
  by (simp add: toy_crypto_def)

lemma toy_hash_unat:
  assumes "length b < 65536"
  shows "unat (toy_hash b) = (nat_of_bytes b mod (2 ^ 221 + 1)) * 65536 + length b"
proof -
  have "nat_of_bytes b mod (2 ^ 221 + 1) < 2 ^ 221 + 1" by (rule mod_less_divisor) simp
  then have "nat_of_bytes b mod (2 ^ 221 + 1) \<le> 2 ^ 221" by (metis Suc_eq_plus1 less_Suc_eq_le)
  then have "(nat_of_bytes b mod (2 ^ 221 + 1)) * 65536 + length b < 2 ^ 256"
    using assms mult_le_mono1 [of "nat_of_bytes b mod (2 ^ 221 + 1)" "2 ^ 221" 65536] by simp
  then show ?thesis unfolding toy_hash_def by (simp only: unsigned_of_nat take_bit_eq_mod) simp
qed

lemma toy_hash_length:
  assumes "toy_hash b = toy_hash b'" "length b < 65536" "length b' < 65536"
  shows "length b = length b'"
proof -
  have "unat (toy_hash b) mod 65536 = unat (toy_hash b') mod 65536" using assms(1) by simp
  then show ?thesis using assms(2,3) by (simp add: toy_hash_unat)
qed

lemma demo_leader: "fst (GetLeader toy_crypto demo_engine 1) = Some 2"
proof -
  have "hash_Big (toy_hash [1]) = 65537"
    by (simp add: toy_hash_def nat_of_bytes_def hash_Big_def)
  moreover have "bytes_of_nat 1 = [1]" by (simp add: bytes_of_nat.simps)
  ultimately show ?thesis
    by (simp add: GetLeader_def demo_engine_def NewZelius_def totalStake_def view_target_def toy_crypto_def Let_def)
qed

lemma demo_seal: "\<exists>b'. Seal toy_crypto demo_engine (NewBlock (demo_header x) []) = (b', None)"
  by (simp add: Seal_def demo_engine_def NewZelius_def toy_crypto_def Let_def)

lemma demo_number: "big_Uint64 (Number (Header (NewBlock (demo_header x) []))) = 1"
  by (simp add: demo_header_def big_Uint64_def)

lemma demo_key: "privKey demo_engine = Some 2" "PrivToAddr toy_crypto 2 = 2"
  by (simp_all add: demo_engine_def NewZelius_def toy_crypto_def)

lemma sig_binding_toy: "sig_binding toy_crypto"
  by (auto simp: sig_binding_def toy_crypto_def split: if_splits)

theorem leader_determined_by_validators_witness:
  "fst (GetLeader toy_crypto (snd (GetLeader toy_crypto demo_engine 1)) 1) = Some 2"
proof -
  have r: "engine_reach toy_crypto demo_engine" unfolding demo_engine_def by (rule reach_new)
  then have r': "engine_reach toy_crypto (snd (GetLeader toy_crypto demo_engine 1))"
    by (rule reach_step) (rule step_leader)
  have "Validators demo_engine = Validators (snd (GetLeader toy_crypto demo_engine 1))"
    by (metis GetLeader_engine(1) prod.collapse)
  from leader_determined_by_validators [OF r r' this, of 1] demo_leader show ?thesis by simp
qed

theorem seal_then_verify_witness:
  "\<exists>b'. Seal toy_crypto demo_engine (NewBlock (demo_header []) []) = (b', None) \<and>
     fst (Verify toy_crypto demo_engine b') = None"
proof -
  obtain b' where s: "Seal toy_crypto demo_engine (NewBlock (demo_header []) []) = (b', None)"
    using demo_seal by blast
  moreover have "ExtraData (Header (NewBlock (demo_header []) [])) = []" by (simp add: demo_header_def)
  from seal_then_verify [OF sign_ok_toy this demo_key(1) s, of demo_engine]
  have "fst (Verify toy_crypto demo_engine b') = None"
    using demo_leader demo_number [of "[]"] demo_key(2) by simp
  ultimately show ?thesis by blast
qed

theorem seal_with_extra_rejected_witness:
  "\<exists>b'. Seal toy_crypto demo_engine (NewBlock (demo_header [7]) []) = (b', None) \<and>
     fst (Verify toy_crypto demo_engine b') \<noteq> None"
proof -
  let ?b = "NewBlock (demo_header [7]) []"
  obtain b' where s: "Seal toy_crypto demo_engine ?b = (b', None)" using demo_seal by blast
  have x: "ExtraData (Header ?b) \<noteq> []" by (simp add: demo_header_def)
  have "toy_encode (demo_header []) = be_bytes 8 1 @ be_bytes 8 5 @ [0] @ hash_Bytes 0"
      "toy_encode (demo_header [7]) = be_bytes 8 1 @ be_bytes 8 5 @ [7, 1] @ hash_Bytes 0"
    by (simp_all add: toy_encode_def demo_header_def)
  then have "length (toy_encode (demo_header [])) = 49" "length (toy_encode (demo_header [7])) = 50"
    by simp_all
  then have "toy_hash (toy_encode (demo_header [])) \<noteq> toy_hash (toy_encode (demo_header [7]))"
    using toy_hash_length [of "toy_encode (demo_header [])" "toy_encode (demo_header [7])"] by auto
  then have "header_hash_inj toy_crypto {(Header ?b)\<lparr>ExtraData := []\<rparr>, Header ?b}"
    by (auto simp: header_hash_inj_def header_Hash_Some toy_crypto_def demo_header_def)
  from seal_with_extra_rejected [OF sign_ok_toy sig_binding_toy x demo_key(1) s this, of demo_engine]
  show ?thesis using s demo_leader demo_number [of "[7]"] demo_key(2) by simp
qed

theorem slashed_at_1000_witness:
  "Validators (((\<lambda>e. RecordNonCompliance e 1) ^^ 1000) demo_engine) = [\<lparr>v_Address = 2, v_Stake = 10\<rparr>]"
  using slashed_at_1000 [of demo_engine 1]
  by (simp add: demo_engine_def NewZelius_def nonCompliance_def)

theorem sync_reads_registry_witness:
  "\<exists>e'. SyncValidators (Some (\<lambda>a k. if k = 0 then 1 else 9)) demo_engine = Some (None, e') \<and>
     length (Validators e') = 1"
  using sync_reads_registry [of 1 "\<lambda>a k. if k = 0 then 1 else 9" demo_engine] by auto

theorem round_extends_parent_witness:
  "\<exists>b e2. SimulateRound toy_crypto (sort_key tx_Nonce) 6 demo_engine
       (NewBlock ((demo_header [])\<lparr>Number := 0\<rparr>) []) [] None = Some (Inr b, e2) \<and>
     fst (Verify toy_crypto e2 b) = None"
proof -
  let ?par = "NewBlock ((demo_header [])\<lparr>Number := 0\<rparr>) []"
  obtain e2 where l: "GetLeader toy_crypto demo_engine 1 = (Some 2, e2)"
    using demo_leader by (metis prod.collapse)
  have k: "privKey e2 = Some 2" using GetLeader_engine(3) [OF l] demo_key by simp
  have n: "big_Uint64 (Number (Header ?par) + 1) = 1" by (simp add: demo_header_def big_Uint64_def)
  obtain b where sr: "SimulateRound toy_crypto (sort_key tx_Nonce) 6 demo_engine ?par [] None = Some (Inr b, e2)"
    using l k n by (simp add: SimulateRound_def Let_def Seal_def toy_sign)
  have "schedule_ok toy_crypto demo_engine" by (simp add: demo_engine_def NewZelius_def)
  then have "fst (GetLeader toy_crypto e2 1) = Some 2"
    using GetLeader_engine(1,5) [OF l] GetLeader_leader_of l by (metis fst_conv)
  moreover have "sorts_by_nonce (sort_key tx_Nonce)" by (simp add: sorts_by_nonce_def)
  ultimately show ?thesis
    using round_extends_parent [OF sign_ok_toy _ sr k] sr n demo_key(2) by auto
qed

end
