(* ===== verification/Genesis.thy ===== *)
theory Genesis
  imports Zelius
begin

text \<open>
  \<open>core/genesis.go\<close>: the network configurations, the genesis block and the genesis
  allocation.  A Go map literal is the association list of its assignments.

  The lemmas compute the system addresses and show that every network uses the same three,
  that the initial validators are distinct with positive stakes, and the genesis supply.
\<close>

record SystemParams =
  StakingAddr :: address
  RewardAddr :: address
  ValidatorAddr :: address
  DefaultGasLimit :: uint64
  DefaultBaseFee :: int

text \<open>Durations are in nanoseconds.\<close>

record ConsensusConfig =
  BlockTimeout :: int

record NetworkConfig =
  n_ChainID :: int
  n_GenesisTime :: uint64
  n_GenesisHash :: hash
  n_Difficulty :: int
  n_GasLimit :: uint64
  n_BaseFee :: "int option"
  n_Coinbase :: address
  n_Alloc :: "(address \<times> uint256) list"
  n_Validators :: "validator list"
  n_ConsensusCfg :: ConsensusConfig
  n_Params :: SystemParams

text \<open>The fields of go-ethereum's \<open>params.ChainConfig\<close> that the program sets; the fork blocks before London are all 0.\<close>

record ChainConfig =
  c_ChainID :: int
  LondonBlock :: "int option"
  ArrowGlacierBlock :: "int option"
  GrayGlacierBlock :: "int option"
  MergeNetsplitBlock :: "int option"
  ShanghaiTime :: "uint64 option"
  CancunTime :: "uint64 option"

definition ChainConfigOf :: "NetworkConfig \<Rightarrow> ChainConfig" where
  "ChainConfigOf c = \<lparr>c_ChainID = n_ChainID c, LondonBlock = Some 0, ArrowGlacierBlock = None,
     GrayGlacierBlock = None, MergeNetsplitBlock = None, ShanghaiTime = Some 0, CancunTime = Some 0\<rparr>"

definition DefaultChainConfig :: ChainConfig where
  "DefaultChainConfig = \<lparr>c_ChainID = 99999, LondonBlock = Some 0, ArrowGlacierBlock = None,
     GrayGlacierBlock = None, MergeNetsplitBlock = None, ShanghaiTime = Some 0, CancunTime = Some 0\<rparr>"

definition DefaultValidators :: "validator list" where
  "DefaultValidators = [
     \<lparr>v_Address = HexToAddress ''0xf39Fd6e51aad88F6F4ce6aB8827279cffFb92266'', v_Stake = 100\<rparr>,
     \<lparr>v_Address = HexToAddress ''0x96216849c49358B10257cb55b28eA603c874b05E'', v_Stake = 100\<rparr>,
     \<lparr>v_Address = HexToAddress ''0x627306090abaB3A6e1400e9345bC60c78a8BEf57'', v_Stake = 100\<rparr>,
     \<lparr>v_Address = HexToAddress ''0xf17f52151EbEF6C7334FAD080c5704D77216b732'', v_Stake = 100\<rparr>]"

definition SimulationValidators :: "validator list" where
  "SimulationValidators = [
     \<lparr>v_Address = HexToAddress ''0xf39Fd6e51aad88F6F4ce6aB8827279cffFb92266'', v_Stake = 100\<rparr>,
     \<lparr>v_Address = HexToAddress ''0x70997970C51812dc3A010C7d01b50e0d17dc79C8'', v_Stake = 100\<rparr>,
     \<lparr>v_Address = HexToAddress ''0x3C44CdDdB6a900fa2b585dd299e03d12FA4293BC'', v_Stake = 100\<rparr>,
     \<lparr>v_Address = HexToAddress ''0x90F79bf6EB2c4f870365E785982E1f101E93b906'', v_Stake = 100\<rparr>]"

text \<open>\<open>uint256.FromBig\<close> of the number a decimal literal denotes.\<close>

definition decimal_u256 :: "string \<Rightarrow> uint256" where
  "decimal_u256 s = (case big_SetString s 10 of None \<Rightarrow> 0 | Some amt \<Rightarrow> fst (u256_FromBig amt))"

definition GenesisAlloc :: "NetworkConfig \<Rightarrow> (address \<times> uint256) list" where
  "GenesisAlloc cfg =
     (let userAddr = HexToAddress ''0xf39Fd6e51aad88F6F4ce6aB8827279cffFb92266'';
          balance = decimal_u256 ''1000000000000000000000000'';
          sysBal = fst (u256_FromBig 1000000000000000000);
          reqAddr = HexToAddress ''0xfc77dd2e36da5546258f6c25cf0f71d1460aaff0'';
          reqBal = decimal_u256 ''10000000000000000000000''
      in AList.update reqAddr reqBal
          (AList.update (ValidatorAddr (n_Params cfg)) sysBal
            (AList.update (RewardAddr (n_Params cfg)) sysBal
              (AList.update (StakingAddr (n_Params cfg)) sysBal
                (AList.update userAddr balance [])))))"

definition network_params :: SystemParams where
  "network_params = \<lparr>
     StakingAddr = HexToAddress ''0x0000000000000000000000000000000000001000'',
     RewardAddr = HexToAddress ''0x0000000000000000000000000000000000002000'',
     ValidatorAddr = HexToAddress ''0x0000000000000000000000000000000000003000'',
     DefaultGasLimit = 60000000,
     DefaultBaseFee = 1000000000\<rparr>"

text \<open>
  The configuration before the allocation is filled in.  All four networks have the genesis
  time 2025-01-01 (Unix time 1735689600), the same expected genesis hash, difficulty 1, gas
  limit 60000000 and coinbase; they differ in chain id, base fee, validators and timeout.
\<close>

definition network_base :: "int \<Rightarrow> int option \<Rightarrow> validator list \<Rightarrow> int \<Rightarrow> NetworkConfig" where
  "network_base cid fee vs timeout = \<lparr>
     n_ChainID = cid,
     n_GenesisTime = 1735689600,
     n_GenesisHash = HexToHash ''0x8cdc37cd690b6c953ea305b357eba4b443a844932e6bf99ccc06f659e6e10b5a'',
     n_Difficulty = 1,
     n_GasLimit = 60000000,
     n_BaseFee = fee,
     n_Coinbase = HexToAddress ''0xf39Fd6e51aad88F6F4ce6aB8827279cffFb92266'',
     n_Alloc = [],
     n_Validators = vs,
     n_ConsensusCfg = \<lparr>BlockTimeout = timeout\<rparr>,
     n_Params = network_params\<rparr>"

definition GetNetworkConfig :: "string \<Rightarrow> NetworkConfig" where
  "GetNetworkConfig network =
     (let cfg =
        (if network = ''mainnet'' then network_base 999 (Some 1000000000) DefaultValidators 1000000000
         else if network = ''testnet'' then network_base 9999 None DefaultValidators 500000000
         else if network = ''simulation'' then network_base 1338 None SimulationValidators 500000000
         else network_base 99999 (Some 1000000000)
                [\<lparr>v_Address = HexToAddress ''0xf39Fd6e51aad88F6F4ce6aB8827279cffFb92266'', v_Stake = 100\<rparr>]
                200000000)
      in cfg\<lparr>n_Alloc := GenesisAlloc cfg\<rparr>)"

definition GenerateGenesisBlock :: "NetworkConfig \<Rightarrow> block" where
  "GenerateGenesisBlock cfg = NewBlock \<lparr>
     ParentHash = 0,
     Number = 0,
     Time = n_GenesisTime cfg,
     VerkleRoot = 0,
     TxHash = 0,
     Coinbase = n_Coinbase cfg,
     ExtraData = [],
     Difficulty = Some (n_Difficulty cfg),
     GasLimit = n_GasLimit cfg,
     GasUsed = 0,
     BaseFee = n_BaseFee cfg\<rparr> []"

subsection \<open>The constants\<close>

lemmas hex_eval = HexToAddress_def FromHex_def hex_value_def BytesToAddress_def nat_of_bytes_def
lemmas decimal_eval = decimal_u256_def big_SetString_def digit_value_def u256_FromBig_def

lemma system_addresses:
  "StakingAddr network_params = 0x1000" "RewardAddr network_params = 0x2000"
  "ValidatorAddr network_params = 0x3000"
  by (simp_all add: network_params_def hex_eval)

lemma sync_addresses: "sync_validatorAddr = 0x3000" "sync_stakingAddr = 0x2000"
  by (simp_all add: sync_validatorAddr_def sync_stakingAddr_def hex_eval)

lemma GetNetworkConfig_params [simp]: "n_Params (GetNetworkConfig network) = network_params"
  by (simp add: GetNetworkConfig_def network_base_def Let_def)

lemma GetNetworkConfig_validators:
  "n_Validators (GetNetworkConfig network) \<in>
     {DefaultValidators, SimulationValidators, take 1 DefaultValidators}"
  by (simp add: GetNetworkConfig_def network_base_def Let_def DefaultValidators_def)

lemma validator_lists:
  "distinct (map v_Address DefaultValidators)" "distinct (map v_Address SimulationValidators)"
  "list_all (\<lambda>v. v_Stake v = 100) DefaultValidators" "list_all (\<lambda>v. v_Stake v = 100) SimulationValidators"
  by (simp_all add: DefaultValidators_def SimulationValidators_def hex_eval)

lemma alloc_amounts:
  "decimal_u256 ''1000000000000000000000000'' = 1000000 * 10 ^ 18"
  "decimal_u256 ''10000000000000000000000'' = 10000 * 10 ^ 18"
  "fst (u256_FromBig 1000000000000000000) = 10 ^ 18"
  by (simp_all add: decimal_eval)

lemma alloc_addresses:
  "HexToAddress ''0xf39Fd6e51aad88F6F4ce6aB8827279cffFb92266'' = 0xf39Fd6e51aad88F6F4ce6aB8827279cffFb92266"
  "HexToAddress ''0xfc77dd2e36da5546258f6c25cf0f71d1460aaff0'' = 0xfc77dd2e36da5546258f6c25cf0f71d1460aaff0"
  by (simp_all add: hex_eval)

text \<open>The allocation of every network, in the order of the assignments.\<close>

lemma GenesisAlloc_eq:
  assumes "n_Params cfg = network_params"
  shows "GenesisAlloc cfg =
    [(0xf39Fd6e51aad88F6F4ce6aB8827279cffFb92266, 1000000 * 10 ^ 18), (0x1000, 10 ^ 18),
     (0x2000, 10 ^ 18), (0x3000, 10 ^ 18), (0xfc77dd2e36da5546258f6c25cf0f71d1460aaff0, 10000 * 10 ^ 18)]"
  by (simp only: GenesisAlloc_def Let_def assms system_addresses alloc_amounts alloc_addresses) simp

subsection \<open>Properties\<close>

text \<open>The genesis of every network: the validators are distinct and have stake 100 each, so
  the initial schedule is well defined; the allocation gives each of its five accounts one
  balance, and the supply is 1010003 coins of \<open>10 ^ 18\<close> units.\<close>

theorem genesis_wellformed:
  "distinct (map v_Address (n_Validators (GetNetworkConfig network))) \<and>
   n_Validators (GetNetworkConfig network) \<noteq> [] \<and>
   list_all (\<lambda>v. v_Stake v = 100) (n_Validators (GetNetworkConfig network)) \<and>
   distinct (map fst (n_Alloc (GetNetworkConfig network))) \<and>
   sum_list (map (\<lambda>(a, b). u256_ToBig b) (n_Alloc (GetNetworkConfig network))) = 1010003 * 10 ^ 18"
proof -
  let ?cfg = "GetNetworkConfig network"
  have "distinct (map v_Address vs) \<and> vs \<noteq> [] \<and> list_all (\<lambda>v. v_Stake v = 100) vs"
    if "vs \<in> {DefaultValidators, SimulationValidators, take 1 DefaultValidators}" for vs
    using that validator_lists
    by (auto simp: DefaultValidators_def SimulationValidators_def)
  moreover have "n_Alloc ?cfg =
    [(0xf39Fd6e51aad88F6F4ce6aB8827279cffFb92266, 1000000 * 10 ^ 18), (0x1000, 10 ^ 18),
     (0x2000, 10 ^ 18), (0x3000, 10 ^ 18), (0xfc77dd2e36da5546258f6c25cf0f71d1460aaff0, 10000 * 10 ^ 18)]"
    by (simp add: GetNetworkConfig_def Let_def GenesisAlloc_eq network_base_def)
  ultimately show ?thesis
    using GetNetworkConfig_validators [of network] by (simp add: u256_ToBig_def)
qed

text \<open>The engine looks stakes up in the wrong place: the address it reads them from is the
  reward contract of every network and never the staking contract, whereas its registry
  address is the configured one.\<close>

theorem sync_reads_reward_contract:
  "sync_stakingAddr = RewardAddr (n_Params (GetNetworkConfig network)) \<and>
   sync_stakingAddr \<noteq> StakingAddr (n_Params (GetNetworkConfig network)) \<and>
   sync_validatorAddr = ValidatorAddr (n_Params (GetNetworkConfig network))"
  by (simp add: sync_addresses system_addresses)

end
