(* ===== verification/RawDB.thy ===== *)
theory RawDB
  imports Types
begin

text \<open>
  Package \<open>core/rawdb\<close>: the accessors of the key/value store.

  LevelDB is a parameter, the record \<open>leveldb\<close> of the four calls the program makes on an
  open database \<open>'d\<close> (an operation that can fail returns an option; a failed write
  leaves the database as it was).  \<open>leveldb_ok\<close> names what the program relies on.  The
  JSON encoders of blocks, receipts and index entries are the parameter \<open>codec\<close>, with
  \<open>codec_ok\<close> for their round trip.

  The lemmas: the keys of the different tables never collide, with one exception that the
  theorem spells out, and every reader returns what the matching writer stored and is
  untouched by the other writers.
\<close>

subsection \<open>The store\<close>

record 'd leveldb =
  db_Get :: "'d \<Rightarrow> bytes \<Rightarrow> bytes option"
  db_Put :: "'d \<Rightarrow> bytes \<Rightarrow> bytes \<Rightarrow> 'd option"
  db_Write :: "'d \<Rightarrow> (bytes \<times> bytes) list \<Rightarrow> 'd option"
  db_Iter :: "'d \<Rightarrow> bytes \<Rightarrow> (bytes \<times> bytes) list"

definition leveldb_ok :: "'d leveldb \<Rightarrow> bool" where
  "leveldb_ok D \<longleftrightarrow>
     (\<forall>d k v d'. db_Put D d k v = Some d' \<longrightarrow> db_Get D d' = (db_Get D d)(k \<mapsto> v)) \<and>
     (\<forall>d b d'. db_Write D d b = Some d' \<longrightarrow> db_Get D d' = db_Get D d ++ map_of (rev b)) \<and>
     (\<forall>d p. distinct (map fst (db_Iter D d p)) \<and>
        map_of (db_Iter D d p) = db_Get D d |` {k. take (length p) k = p})"

lemma leveldb_okD:
  assumes "leveldb_ok D"
  shows db_Put_get: "db_Put D d k v = Some d' \<Longrightarrow> db_Get D d' = (db_Get D d)(k \<mapsto> v)"
    and db_Write_get: "db_Write D d b = Some d' \<Longrightarrow> db_Get D d' = db_Get D d ++ map_of (rev b)"
    and db_Iter_distinct: "distinct (map fst (db_Iter D d p))"
    and db_Iter_get: "map_of (db_Iter D d p) = db_Get D d |` {k. take (length p) k = p}"
  using assms by (auto simp: leveldb_ok_def)

text \<open>A database held in memory, which never fails.\<close>

definition mem_db :: "(bytes \<times> bytes) list leveldb" where
  "mem_db = \<lparr>
     db_Get = map_of,
     db_Put = (\<lambda>d k v. Some (AList.update k v d)),
     db_Write = (\<lambda>d b. Some (fold (\<lambda>(k, v). AList.update k v) b d)),
     db_Iter = (\<lambda>d p. AList.clearjunk (filter (\<lambda>(k, v). take (length p) k = p) d))\<rparr>"

lemma map_of_fold_update_rev:
  "map_of (fold (\<lambda>(k, v). AList.update k v) b d) = map_of d ++ map_of (rev b)"
proof (induction b arbitrary: d)
  case Nil
  then show ?case by simp
next
  case (Cons x b)
  obtain k v where "x = (k, v)" by (cases x)
  with Cons show ?case
    by (auto simp: fun_eq_iff map_add_def split: option.splits)
qed

lemma map_of_filter_key: "map_of (filter (\<lambda>(k, v). P k) d) = map_of d |` {k. P k}"
  by (induction d) (auto simp: fun_eq_iff restrict_map_def)

lemma leveldb_ok_mem: "leveldb_ok mem_db"
  by (auto simp: leveldb_ok_def mem_db_def fun_eq_iff map_of_fold_update_rev map_of_clearjunk
      map_of_filter_key distinct_clearjunk)

subsection \<open>Keys\<close>

datatype dbkey =
    BlockKey hash
  | ReceiptsKey hash
  | TxLookupKey hash
  | HeadBlockKey
  | CanonicalKey uint64
  | StateKey bytes
  | CodeKey hash

fun key_bytes :: "dbkey \<Rightarrow> bytes" where
  "key_bytes (BlockKey h) = bytes_of_string ''b'' @ hash_Bytes h"
| "key_bytes (ReceiptsKey h) = bytes_of_string ''r'' @ hash_Bytes h"
| "key_bytes (TxLookupKey h) = bytes_of_string ''l'' @ hash_Bytes h"
| "key_bytes HeadBlockKey = bytes_of_string ''HeadBlock''"
| "key_bytes (CanonicalKey n) = bytes_of_string ''H'' @ be_bytes 8 (unat n)"
| "key_bytes (StateKey k) = bytes_of_string ''v'' @ k"
| "key_bytes (CodeKey h) = bytes_of_string ''c'' @ hash_Bytes h"

text \<open>The block number whose eight big-endian bytes spell \<open>eadBlock\<close>.\<close>

definition eadBlock :: uint64 where
  "eadBlock = 0x656164426c6f636b"

lemma key_byte_values:
  "bytes_of_string ''b'' = [98]" "bytes_of_string ''r'' = [114]" "bytes_of_string ''l'' = [108]"
  "bytes_of_string ''H'' = [72]" "bytes_of_string ''v'' = [118]" "bytes_of_string ''c'' = [99]"
  "bytes_of_string ''HeadBlock'' = 72 # be_bytes 8 (unat eadBlock)"
  by (simp_all add: bytes_of_string_def eadBlock_def be_bytes_numeral)

lemma be_bytes_uint64_inj: "be_bytes 8 (unat (m :: uint64)) = be_bytes 8 (unat n) \<longleftrightarrow> m = n"
  by (metis be_bytes_inj [OF unat_uint64_bound unat_uint64_bound] word_eq_iff_unsigned)

text \<open>Where two different keys are written with the same bytes.\<close>

fun same_bytes :: "dbkey \<Rightarrow> dbkey \<Rightarrow> bool" where
  "same_bytes HeadBlockKey (CanonicalKey n) \<longleftrightarrow> n = eadBlock"
| "same_bytes (CanonicalKey n) HeadBlockKey \<longleftrightarrow> n = eadBlock"
| "same_bytes k k' \<longleftrightarrow> k = k'"

lemma key_bytes_eq [simp]: "key_bytes k = key_bytes k' \<longleftrightarrow> same_bytes k k'"
  by (cases k; cases k') (auto simp: key_byte_values be_bytes_uint64_inj)

declare key_bytes.simps [simp del]

lemma same_bytes_refl [simp]: "same_bytes k k"
  by (cases k) auto

subsection \<open>Accessors\<close>

record TxLookupEntry =
  e_BlockHash :: hash
  e_BlockIndex :: uint64
  e_TxIndex :: uint64

record codec =
  MarshalBlock :: "block \<Rightarrow> bytes option"
  UnmarshalBlock :: "bytes \<Rightarrow> block option"
  MarshalReceipts :: "receipt list \<Rightarrow> bytes option"
  UnmarshalReceipts :: "bytes \<Rightarrow> receipt list option"
  MarshalEntry :: "TxLookupEntry \<Rightarrow> bytes option"
  UnmarshalEntry :: "bytes \<Rightarrow> TxLookupEntry option"

definition codec_ok :: "codec \<Rightarrow> bool" where
  "codec_ok J \<longleftrightarrow>
     (\<forall>b d. MarshalBlock J b = Some d \<longrightarrow> UnmarshalBlock J d = Some b) \<and>
     (\<forall>r d. MarshalReceipts J r = Some d \<longrightarrow> UnmarshalReceipts J d = Some r) \<and>
     (\<forall>e d. MarshalEntry J e = Some d \<longrightarrow> UnmarshalEntry J d = Some e)"

datatype db_error = MarshalError | PutError

text \<open>\<open>db.Put(key, data, nil)\<close>: the database afterwards and the error, if any.\<close>

definition dput :: "'d leveldb \<Rightarrow> 'd \<Rightarrow> bytes \<Rightarrow> bytes \<Rightarrow> 'd \<times> db_error option" where
  "dput D d k v = (case db_Put D d k v of None \<Rightarrow> (d, Some PutError) | Some d' \<Rightarrow> (d', None))"

definition WriteBlock ::
    "crypto \<Rightarrow> codec \<Rightarrow> 'd leveldb \<Rightarrow> 'd \<Rightarrow> block \<Rightarrow> 'd \<times> db_error option" where
  "WriteBlock C J D d b =
     (case MarshalBlock J b of
        None \<Rightarrow> (d, Some MarshalError)
      | Some data \<Rightarrow> dput D d (key_bytes (BlockKey (block_Hash C b))) data)"

definition ReadBlock :: "codec \<Rightarrow> 'd leveldb \<Rightarrow> 'd \<Rightarrow> hash \<Rightarrow> block option" where
  "ReadBlock J D d h =
     (case db_Get D d (key_bytes (BlockKey h)) of
        None \<Rightarrow> None
      | Some data \<Rightarrow> UnmarshalBlock J data)"

definition WriteReceipts ::
    "crypto \<Rightarrow> codec \<Rightarrow> 'd leveldb \<Rightarrow> 'd \<Rightarrow> block \<Rightarrow> receipt list \<Rightarrow> 'd \<times> db_error option" where
  "WriteReceipts C J D d b rs =
     (case MarshalReceipts J rs of
        None \<Rightarrow> (d, Some MarshalError)
      | Some data \<Rightarrow> dput D d (key_bytes (ReceiptsKey (block_Hash C b))) data)"

definition ReadReceipts :: "codec \<Rightarrow> 'd leveldb \<Rightarrow> 'd \<Rightarrow> hash \<Rightarrow> receipt list option" where
  "ReadReceipts J D d h =
     (case db_Get D d (key_bytes (ReceiptsKey h)) of
        None \<Rightarrow> None
      | Some data \<Rightarrow> UnmarshalReceipts J data)"

text \<open>The loop of \<open>WriteTxLookupEntries\<close> from transaction \<open>i\<close> on; an error leaves the entries written so far.\<close>

fun writeEntriesFrom ::
    "crypto \<Rightarrow> codec \<Rightarrow> 'd leveldb \<Rightarrow> 'd \<Rightarrow> block \<Rightarrow> nat \<Rightarrow> transaction list \<Rightarrow> 'd \<times> db_error option" where
  "writeEntriesFrom C J D d b i [] = (d, None)"
| "writeEntriesFrom C J D d b i (tx # txs) =
     (let entry = \<lparr>e_BlockHash = block_Hash C b,
                   e_BlockIndex = big_Uint64 (Number (Header b)),
                   e_TxIndex = of_nat i\<rparr>
      in case MarshalEntry J entry of
           None \<Rightarrow> (d, Some MarshalError)
         | Some data \<Rightarrow>
             (case dput D d (key_bytes (TxLookupKey (tx_Hash tx))) data of
                (d', Some e) \<Rightarrow> (d', Some e)
              | (d', None) \<Rightarrow> writeEntriesFrom C J D d' b (Suc i) txs))"

definition WriteTxLookupEntries ::
    "crypto \<Rightarrow> codec \<Rightarrow> 'd leveldb \<Rightarrow> 'd \<Rightarrow> block \<Rightarrow> 'd \<times> db_error option" where
  "WriteTxLookupEntries C J D d b = writeEntriesFrom C J D d b 0 (Transactions b)"

definition ReadTxLookupEntry :: "codec \<Rightarrow> 'd leveldb \<Rightarrow> 'd \<Rightarrow> hash \<Rightarrow> TxLookupEntry option" where
  "ReadTxLookupEntry J D d h =
     (case db_Get D d (key_bytes (TxLookupKey h)) of
        None \<Rightarrow> None
      | Some data \<Rightarrow> UnmarshalEntry J data)"

definition WriteHeadBlockHash :: "'d leveldb \<Rightarrow> 'd \<Rightarrow> hash \<Rightarrow> 'd \<times> db_error option" where
  "WriteHeadBlockHash D d h = dput D d (key_bytes HeadBlockKey) (hash_Bytes h)"

definition ReadHeadBlockHash :: "'d leveldb \<Rightarrow> 'd \<Rightarrow> hash" where
  "ReadHeadBlockHash D d =
     (case db_Get D d (key_bytes HeadBlockKey) of None \<Rightarrow> 0 | Some data \<Rightarrow> BytesToHash data)"

definition WriteCanonicalHash :: "'d leveldb \<Rightarrow> 'd \<Rightarrow> uint64 \<Rightarrow> hash \<Rightarrow> 'd \<times> db_error option" where
  "WriteCanonicalHash D d n h = dput D d (key_bytes (CanonicalKey n)) (hash_Bytes h)"

definition ReadCanonicalHash :: "'d leveldb \<Rightarrow> 'd \<Rightarrow> uint64 \<Rightarrow> hash" where
  "ReadCanonicalHash D d n =
     (case db_Get D d (key_bytes (CanonicalKey n)) of None \<Rightarrow> 0 | Some data \<Rightarrow> BytesToHash data)"

subsection \<open>Reads after writes\<close>

lemma dput_get:
  assumes "leveldb_ok D" "dput D d k v = (d', None)"
  shows "db_Get D d' = (db_Get D d)(k \<mapsto> v)"
  using assms by (auto simp: dput_def db_Put_get split: option.splits)

lemma dput_get_other:
  assumes "leveldb_ok D" "dput D d k v = (d', e)" "k' \<noteq> k"
  shows "db_Get D d' k' = db_Get D d k'"
  using assms by (auto simp: dput_def db_Put_get split: option.splits)

text \<open>Every writer is a put under a key of its own table.\<close>

lemma writer_keys:
  assumes "leveldb_ok D"
  shows "WriteBlock C J D d b = (d', e) \<Longrightarrow> \<not> same_bytes k (BlockKey (block_Hash C b)) \<Longrightarrow>
      db_Get D d' (key_bytes k) = db_Get D d (key_bytes k)"
    and "WriteReceipts C J D d b rs = (d', e) \<Longrightarrow> \<not> same_bytes k (ReceiptsKey (block_Hash C b)) \<Longrightarrow>
      db_Get D d' (key_bytes k) = db_Get D d (key_bytes k)"
    and "WriteHeadBlockHash D d h = (d', e) \<Longrightarrow> \<not> same_bytes k HeadBlockKey \<Longrightarrow>
      db_Get D d' (key_bytes k) = db_Get D d (key_bytes k)"
    and "WriteCanonicalHash D d n h = (d', e) \<Longrightarrow> \<not> same_bytes k (CanonicalKey n) \<Longrightarrow>
      db_Get D d' (key_bytes k) = db_Get D d (key_bytes k)"
  using dput_get_other [OF assms]
  by (auto simp: WriteBlock_def WriteReceipts_def WriteHeadBlockHash_def WriteCanonicalHash_def
      split: option.splits)

lemma writeEntriesFrom_keys:
  assumes "leveldb_ok D"
  shows "writeEntriesFrom C J D d b i txs = (d', e) \<Longrightarrow> (\<forall>tx \<in> set txs. k \<noteq> TxLookupKey (tx_Hash tx)) \<Longrightarrow>
      db_Get D d' (key_bytes k) = db_Get D d (key_bytes k)"
proof (induction txs arbitrary: i d)
  case Nil
  then show ?case by simp
next
  case (Cons tx txs)
  have "key_bytes k \<noteq> key_bytes (TxLookupKey (tx_Hash tx))"
    using Cons.prems(2) by (cases k) auto
  with dput_get_other [OF assms] have
    "db_Get D d1 (key_bytes k) = db_Get D d (key_bytes k)"
    if "dput D d (key_bytes (TxLookupKey (tx_Hash tx))) data = (d1, e1)" for data d1 e1
    using that by blast
  with Cons show ?case
    by (auto simp: Let_def split: option.splits prod.splits)
qed

lemma ReadBlock_WriteBlock:
  assumes "leveldb_ok D" "codec_ok J" "WriteBlock C J D d b = (d', None)"
  shows "ReadBlock J D d' (block_Hash C b) = Some b"
  using assms
  by (auto simp: WriteBlock_def ReadBlock_def codec_ok_def dput_get split: option.splits)

lemma ReadReceipts_WriteReceipts:
  assumes "leveldb_ok D" "codec_ok J" "WriteReceipts C J D d b rs = (d', None)"
  shows "ReadReceipts J D d' (block_Hash C b) = Some rs"
  using assms
  by (auto simp: WriteReceipts_def ReadReceipts_def codec_ok_def dput_get split: option.splits)

lemma ReadHeadBlockHash_Write:
  assumes "leveldb_ok D" "WriteHeadBlockHash D d h = (d', None)"
  shows "ReadHeadBlockHash D d' = h"
  using assms by (auto simp: WriteHeadBlockHash_def ReadHeadBlockHash_def dput_get)

lemma ReadCanonicalHash_Write:
  assumes "leveldb_ok D" "WriteCanonicalHash D d n h = (d', None)"
  shows "ReadCanonicalHash D d' n = h"
  using assms by (auto simp: WriteCanonicalHash_def ReadCanonicalHash_def dput_get)

text \<open>Reads look at one key only, so equal lookups give equal answers.\<close>

lemma read_congs:
  "db_Get D d' (key_bytes (BlockKey h)) = db_Get D d (key_bytes (BlockKey h)) \<Longrightarrow>
     ReadBlock J D d' h = ReadBlock J D d h"
  "db_Get D d' (key_bytes (ReceiptsKey h)) = db_Get D d (key_bytes (ReceiptsKey h)) \<Longrightarrow>
     ReadReceipts J D d' h = ReadReceipts J D d h"
  "db_Get D d' (key_bytes (TxLookupKey h)) = db_Get D d (key_bytes (TxLookupKey h)) \<Longrightarrow>
     ReadTxLookupEntry J D d' h = ReadTxLookupEntry J D d h"
  "db_Get D d' (key_bytes HeadBlockKey) = db_Get D d (key_bytes HeadBlockKey) \<Longrightarrow>
     ReadHeadBlockHash D d' = ReadHeadBlockHash D d"
  "db_Get D d' (key_bytes (CanonicalKey n)) = db_Get D d (key_bytes (CanonicalKey n)) \<Longrightarrow>
     ReadCanonicalHash D d' n = ReadCanonicalHash D d n"
  by (simp_all add: ReadBlock_def ReadReceipts_def ReadTxLookupEntry_def ReadHeadBlockHash_def
      ReadCanonicalHash_def)

lemma writeEntriesFrom_lookup:
  assumes "leveldb_ok D" "codec_ok J"
  shows "writeEntriesFrom C J D d b i txs = (d', None) \<Longrightarrow> distinct (map tx_Hash txs) \<Longrightarrow>
      k < length txs \<Longrightarrow>
      ReadTxLookupEntry J D d' (tx_Hash (txs ! k))
        = Some \<lparr>e_BlockHash = block_Hash C b, e_BlockIndex = big_Uint64 (Number (Header b)),
                e_TxIndex = of_nat (i + k)\<rparr>"
proof (induction txs arbitrary: i d k)
  case Nil
  then show ?case by simp
next
  case (Cons tx txs)
  let ?e = "\<lparr>e_BlockHash = block_Hash C b, e_BlockIndex = big_Uint64 (Number (Header b)),
                e_TxIndex = of_nat i\<rparr>"
  obtain data d1 where data: "MarshalEntry J ?e = Some data"
      and put: "dput D d (key_bytes (TxLookupKey (tx_Hash tx))) data = (d1, None)"
      and rest: "writeEntriesFrom C J D d1 b (Suc i) txs = (d', None)"
    using Cons.prems(1) by (auto simp: Let_def split: option.splits prod.splits)
  show ?case
  proof (cases k)
    case 0
    have "ReadTxLookupEntry J D d1 (tx_Hash tx) = Some ?e"
      using assms data dput_get [OF assms(1) put] by (simp add: ReadTxLookupEntry_def codec_ok_def)
    moreover have "\<forall>t \<in> set txs. TxLookupKey (tx_Hash tx) \<noteq> TxLookupKey (tx_Hash t)"
      using Cons.prems(2) by (auto simp: image_iff)
    ultimately have "ReadTxLookupEntry J D d' (tx_Hash tx) = Some ?e"
      using read_congs(3) [OF writeEntriesFrom_keys [OF assms(1) rest]] by metis
    then show ?thesis using 0 by simp
  next
    case (Suc k')
    with Cons.IH [OF rest, of k'] Cons.prems show ?thesis by simp
  qed
qed

end
