(* ===== verification/Verkle.thy ===== *)
theory Verkle
  imports Prelude
begin

text \<open>
  The key/value behaviour of the Verkle tree of the vendored go-verkle package, as the state
  database drives it (\<open>New\<close>, \<open>Insert\<close>, \<open>Get\<close>).

  An internal node is its 256 children (a function of the next key byte); the root is an
  internal node of depth 0, the depth of a node is an argument of the operations.  A leaf
  carries its 31-byte stem and 256 values; \<open>nil\<close> and the empty slice are both \<open>[]\<close>,
  which every reader in the program treats alike.  \<open>Insert\<close> builds an array of 256 values
  whose only non-nil entry is the given suffix; the model passes that entry.  Hashed and
  stateless nodes do not occur: the program never flushes or deserialises a tree, so the
  resolver is never called.  The commitments are not modelled; the root hash is a parameter
  of the state database.

  The theorems give the contract the state database relies on (locale \<open>byte_trie\<close>): a tree
  answers with the last non-empty value inserted under a key, and inserting an empty
  value changes nothing that can be read.
\<close>

datatype vnode =
    VEmpty
  | VLeaf bytes "byte \<Rightarrow> bytes"
  | VInternal "byte \<Rightarrow> vnode"

type_synonym vtree = "byte \<Rightarrow> vnode"

datatype verr = InvalidLeafLength nat | IndexOutOfRange

definition NewVerkle :: vtree where
  "NewVerkle = (\<lambda>_. VEmpty)"

definition NewLeafNode :: "bytes \<Rightarrow> byte \<Rightarrow> bytes \<Rightarrow> verr + vnode" where
  "NewLeafNode st i v =
     (if 32 < length v then Inl (InvalidLeafLength (length v))
      else Inr (VLeaf st ((\<lambda>_. [])(i := v))))"

definition updateMultipleLeaves :: "(byte \<Rightarrow> bytes) \<Rightarrow> byte \<Rightarrow> bytes \<Rightarrow> verr + (byte \<Rightarrow> bytes)" where
  "updateMultipleLeaves vals i v =
     (if v \<noteq> [] \<and> v \<noteq> vals i
      then (if 32 < length v then Inl (InvalidLeafLength (length v)) else Inr (vals(i := v)))
      else Inr vals)"

text \<open>A fresh internal node whose only child is the displaced leaf.\<close>

definition newBranch :: "byte \<Rightarrow> vnode \<Rightarrow> vtree" where
  "newBranch nextWordInExistingKey child = NewVerkle(nextWordInExistingKey := child)"

function InsertValuesAtStem ::
    "nat \<Rightarrow> vtree \<Rightarrow> bytes \<Rightarrow> byte \<Rightarrow> bytes \<Rightarrow> verr + vtree" where
  "InsertValuesAtStem d ch st i v =
     (if length st \<le> d then Inl IndexOutOfRange
      else let b = st ! d in
      case ch b of
        VEmpty \<Rightarrow>
          (case NewLeafNode st i v of Inl e \<Rightarrow> Inl e | Inr leaf \<Rightarrow> Inr (ch(b := leaf)))
      | VLeaf st' vals \<Rightarrow>
          (if st' = st
           then (case updateMultipleLeaves vals i v of
                   Inl e \<Rightarrow> Inl e
                 | Inr vals' \<Rightarrow> Inr (ch(b := VLeaf st' vals')))
           else if length st' \<le> Suc d \<or> length st \<le> Suc d then Inl IndexOutOfRange
           else if st ! Suc d = st' ! Suc d
           then (case InsertValuesAtStem (Suc d) (newBranch (st' ! Suc d) (VLeaf st' vals)) st i v of
                   Inl e \<Rightarrow> Inl e
                 | Inr nb \<Rightarrow> Inr (ch(b := VInternal nb)))
           else (case NewLeafNode st i v of
                   Inl e \<Rightarrow> Inl e
                 | Inr leaf \<Rightarrow>
                     Inr (ch(b := VInternal ((newBranch (st' ! Suc d) (VLeaf st' vals))
                                               (st ! Suc d := leaf))))))
      | VInternal c \<Rightarrow>
          (case InsertValuesAtStem (Suc d) c st i v of
             Inl e \<Rightarrow> Inl e
           | Inr c' \<Rightarrow> Inr (ch(b := VInternal c'))))"
  by pat_completeness auto
termination
  by (relation "measure (\<lambda>(d, ch, st, i, v). length st - d)") auto

declare InsertValuesAtStem.simps [simp del]

function GetValuesAtStem :: "nat \<Rightarrow> vtree \<Rightarrow> bytes \<Rightarrow> (byte \<Rightarrow> bytes) option" where
  "GetValuesAtStem d ch st =
     (if length st \<le> d then None
      else case ch (st ! d) of
        VEmpty \<Rightarrow> None
      | VLeaf st' vals \<Rightarrow> (if st' = st then Some vals else None)
      | VInternal c \<Rightarrow> GetValuesAtStem (Suc d) c st)"
  by pat_completeness auto
termination
  by (relation "measure (\<lambda>(d, ch, st). length st - d)") auto

declare GetValuesAtStem.simps [simp del]

definition VInsert :: "vtree \<Rightarrow> bytes \<Rightarrow> bytes \<Rightarrow> verr + vtree" where
  "VInsert t key v =
     (if length key \<le> 31 then Inl IndexOutOfRange
      else InsertValuesAtStem 0 t (take 31 key) (key ! 31) v)"

text \<open>\<open>Get\<close> returns an error for a key that is not 32 bytes long, which the only caller turns into nil.\<close>

definition VGet :: "vtree \<Rightarrow> bytes \<Rightarrow> bytes" where
  "VGet t key =
     (if length key \<noteq> 32 then []
      else case GetValuesAtStem 0 t (take 31 key) of
             None \<Rightarrow> []
           | Some vals \<Rightarrow> vals (key ! 31))"

subsection \<open>Well-formed trees\<close>

text \<open>A leaf sits on the path its stem spells, and no internal node is deeper than a stem.\<close>

primrec vwf :: "vnode \<Rightarrow> bytes \<Rightarrow> bool" where
  "vwf VEmpty p = True"
| "vwf (VLeaf st vals) p = (length st = 31 \<and> take (length p) st = p)"
| "vwf (VInternal ch) p = (length p < 31 \<and> (\<forall>b. vwf (ch b) (p @ [b])))"

definition vtree_wf :: "vtree \<Rightarrow> bool" where
  "vtree_wf t \<longleftrightarrow> vwf (VInternal t) []"

text \<open>What can be read below an internal node of depth \<open>d\<close>, and below one of its children.\<close>

definition vread :: "nat \<Rightarrow> vtree \<Rightarrow> bytes \<Rightarrow> byte \<Rightarrow> bytes" where
  "vread d ch st j = (case GetValuesAtStem d ch st of None \<Rightarrow> [] | Some vals \<Rightarrow> vals j)"

lemma vtree_wf_New [simp]: "vtree_wf NewVerkle"
  by (simp add: vtree_wf_def NewVerkle_def)

definition nread :: "nat \<Rightarrow> vnode \<Rightarrow> bytes \<Rightarrow> byte \<Rightarrow> bytes" where
  "nread d c st j = (case c of
        VEmpty \<Rightarrow> []
      | VLeaf st' vals \<Rightarrow> (if st' = st then vals j else [])
      | VInternal ch \<Rightarrow> vread (Suc d) ch st j)"

lemma nread_simps [simp]:
  "nread d VEmpty st j = []"
  "nread d (VLeaf st' vals) st j = (if st' = st then vals j else [])"
  "nread d (VInternal ch) st j = vread (Suc d) ch st j"
  by (simp_all add: nread_def)

lemma vread_step: "d < length st \<Longrightarrow> vread d ch st j = nread d (ch (st ! d)) st j"
  by (simp add: vread_def nread_def GetValuesAtStem.simps [of d] split: vnode.splits)

text \<open>A node \<open>c'\<close> answers like \<open>c\<close> with the value \<open>v\<close> stored under \<open>st\<close> and \<open>i\<close>.\<close>

definition stored :: "(bytes \<Rightarrow> byte \<Rightarrow> bytes) \<Rightarrow> (bytes \<Rightarrow> byte \<Rightarrow> bytes) \<Rightarrow>
    bytes \<Rightarrow> bytes \<Rightarrow> byte \<Rightarrow> bytes \<Rightarrow> bool" where
  "stored old new p st i v \<longleftrightarrow>
     (\<forall>st' j. length st' = 31 \<longrightarrow> take (length p) st' = p \<longrightarrow>
        new st' j = (if st' = st \<and> j = i \<and> v \<noteq> [] then v else old st' j))"

lemma storedI:
  "(\<And>st' j. length st' = 31 \<Longrightarrow> take (length p) st' = p \<Longrightarrow>
      new st' j = (if st' = st \<and> j = i \<and> v \<noteq> [] then v else old st' j)) \<Longrightarrow>
   stored old new p st i v"
  by (simp add: stored_def)

lemma take_Suc_eq_nth:
  "length p < length st \<Longrightarrow> take (Suc (length p)) st = p @ [b] \<Longrightarrow>
     take (length p) st = p \<and> st ! length p = b"
  by (simp add: take_Suc_conv_app_nth)

lemma distinct_stems_differ_below:
  assumes "length st = 31" "length st' = 31" "st \<noteq> st'"
    and "take d st = take d st'" "d < 31" "st ! d = st' ! d"
  shows "Suc d < 31"
proof (rule ccontr)
  assume "\<not> Suc d < 31"
  with assms(5) have "d = 30" by simp
  then have "take (Suc 30) st = take (Suc 30) st'"
    using assms by (simp only: take_Suc_conv_app_nth)
  with assms(1-3) show False by simp
qed

text \<open>Replacing the child on the path of \<open>st\<close> lifts the contract of the child to the node.\<close>

lemma stored_child:
  assumes wf: "vwf (VInternal ch) p" and st: "length st = 31" "take (length p) st = p"
    and c: "vwf c (p @ [st ! length p])"
    and ok: "stored (nread (length p) (ch (st ! length p))) (nread (length p) c)
               (p @ [st ! length p]) st i v"
  shows "vwf (VInternal (ch(st ! length p := c))) p"
    and "stored (vread (length p) ch) (vread (length p) (ch(st ! length p := c))) p st i v"
proof -
  let ?d = "length p"
  have d: "?d < 31" using wf by simp
  show "vwf (VInternal (ch(st ! ?d := c))) p"
    using wf c by simp
  show "stored (vread ?d ch) (vread ?d (ch(st ! ?d := c))) p st i v"
  proof (rule storedI)
    fix st' j assume st': "length st' = 31" "take ?d st' = p"
    show "vread ?d (ch(st ! ?d := c)) st' j
        = (if st' = st \<and> j = i \<and> v \<noteq> [] then v else vread ?d ch st' j)"
    proof (cases "st' ! ?d = st ! ?d")
      case True
      then have "take (Suc ?d) st' = p @ [st ! ?d]"
        using d st' by (simp add: take_Suc_conv_app_nth)
      with ok st' True d show ?thesis
        by (simp add: stored_def vread_step)
    next
      case False
      with d st' show ?thesis by (auto simp: vread_step)
    qed
  qed
qed

lemma vwf_newBranch:
  assumes "length st' = 31" "take (length p) st' = p" "length p < 31"
  shows "vwf (VInternal (newBranch (st' ! length p) (VLeaf st' vals))) p"
  using assms by (auto simp: newBranch_def NewVerkle_def take_Suc_conv_app_nth)

lemma vread_newBranch:
  assumes "length st = 31" "length p < 31" "length st' = 31"
  shows "vread (length p) (newBranch (st' ! length p) (VLeaf st' vals)) st j
       = (if st' = st then vals j else [])"
  using assms by (auto simp: vread_step newBranch_def NewVerkle_def)


text \<open>
  One insertion: it never fails on a value of at most 32 bytes, keeps the tree well-formed,
  and changes exactly the value read under the given stem and suffix, unless that value is
  empty.
\<close>

definition ins_ok :: "vtree \<Rightarrow> vtree \<Rightarrow> bytes \<Rightarrow> bytes \<Rightarrow> byte \<Rightarrow> bytes \<Rightarrow> bool" where
  "ins_ok ch ch' p st i v \<longleftrightarrow>
     vwf (VInternal ch') p \<and> stored (vread (length p) ch) (vread (length p) ch') p st i v"

lemma ins_ok_child:
  assumes "vwf (VInternal ch) p" "length st = 31" "take (length p) st = p"
    and "vwf c (p @ [st ! length p])"
    and "stored (nread (length p) (ch (st ! length p))) (nread (length p) c)
               (p @ [st ! length p]) st i v"
  shows "ins_ok ch (ch(st ! length p := c)) p st i v"
  unfolding ins_ok_def using stored_child [OF assms] by blast

lemma updateMultipleLeaves_ok:
  "length v \<le> 32 \<Longrightarrow>
     updateMultipleLeaves vals i v = Inr (if v = [] then vals else vals(i := v))"
  by (auto simp: updateMultipleLeaves_def)

lemma NewLeafNode_ok: "length v \<le> 32 \<Longrightarrow> NewLeafNode st i v = Inr (VLeaf st ((\<lambda>_. [])(i := v)))"
  by (simp add: NewLeafNode_def)

lemma ins_split_leaf:
  assumes st: "length st = 31" "take (length p) st = p"
    and st': "length st' = 31" "take (length p) st' = p" "st \<noteq> st'"
    and p: "length p < 31" and ne: "st ! length p \<noteq> st' ! length p"
  shows "ins_ok (newBranch (st' ! length p) (VLeaf st' vals))
           ((newBranch (st' ! length p) (VLeaf st' vals))
              (st ! length p := VLeaf st ((\<lambda>_. [])(i := v)))) p st i v"
proof (rule ins_ok_child)
  show "vwf (VInternal (newBranch (st' ! length p) (VLeaf st' vals))) p"
    using st' p by (intro vwf_newBranch)
  show "stored (nread (length p) (newBranch (st' ! length p) (VLeaf st' vals) (st ! length p)))
          (nread (length p) (VLeaf st ((\<lambda>_. [])(i := v)))) (p @ [st ! length p]) st i v"
    using ne by (auto intro!: storedI simp: newBranch_def NewVerkle_def)
qed (use st p in \<open>simp_all add: take_Suc_conv_app_nth\<close>)

text \<open>The four situations an insertion meets at the child on its path, one lemma each.\<close>

lemma insert_at_empty:
  assumes "vwf (VInternal ch) p" "length st = 31" "take (length p) st = p" "length v \<le> 32"
    and c: "ch (st ! length p) = VEmpty"
  shows "\<exists>ch'. InsertValuesAtStem (length p) ch st i v = Inr ch' \<and> ins_ok ch ch' p st i v"
proof -
  have "ins_ok ch (ch(st ! length p := VLeaf st ((\<lambda>_. [])(i := v)))) p st i v"
    by (rule ins_ok_child) (use assms in \<open>auto intro!: storedI simp: take_Suc_conv_app_nth\<close>)
  then show ?thesis
    using assms by (simp add: InsertValuesAtStem.simps [of "length p"] NewLeafNode_ok)
qed

lemma insert_at_same_leaf:
  assumes "vwf (VInternal ch) p" "length st = 31" "take (length p) st = p" "length v \<le> 32"
    and c: "ch (st ! length p) = VLeaf st vals"
  shows "\<exists>ch'. InsertValuesAtStem (length p) ch st i v = Inr ch' \<and> ins_ok ch ch' p st i v"
proof -
  have "ins_ok ch (ch(st ! length p := VLeaf st (if v = [] then vals else vals(i := v)))) p st i v"
    by (rule ins_ok_child) (use assms in \<open>auto intro!: storedI simp: take_Suc_conv_app_nth\<close>)
  then show ?thesis
    using assms by (simp add: InsertValuesAtStem.simps [of "length p"] updateMultipleLeaves_ok)
qed

lemma insert_at_internal:
  assumes "vwf (VInternal ch) p" "length st = 31" "take (length p) st = p"
    and c: "ch (st ! length p) = VInternal cc"
    and IH: "InsertValuesAtStem (Suc (length p)) cc st i v = Inr cc'"
      "ins_ok cc cc' (p @ [st ! length p]) st i v"
  shows "\<exists>ch'. InsertValuesAtStem (length p) ch st i v = Inr ch' \<and> ins_ok ch ch' p st i v"
proof -
  have "ins_ok ch (ch(st ! length p := VInternal cc')) p st i v"
    by (rule ins_ok_child) (use assms in \<open>auto simp: ins_ok_def nread_def [abs_def]\<close>)
  then show ?thesis
    using assms by (simp add: InsertValuesAtStem.simps [of "length p"])
qed

text \<open>Where another leaf is in the way, the branch that replaces it answers like that leaf.\<close>

lemma branch_over_leaf:
  assumes wf: "vwf (VInternal ch) p" and st: "length st = 31" "take (length p) st = p"
    and c: "ch (st ! length p) = VLeaf st' vals" and ne: "st' \<noteq> st"
  shows "Suc (length p) < 31"
    and "length st' = 31" and "take (Suc (length p)) st' = p @ [st ! length p]"
    and "vwf (VInternal (newBranch (st' ! Suc (length p)) (VLeaf st' vals))) (p @ [st ! length p])"
    and "ins_ok (newBranch (st' ! Suc (length p)) (VLeaf st' vals)) nb (p @ [st ! length p]) st i v
      \<Longrightarrow> ins_ok ch (ch(st ! length p := VInternal nb)) p st i v"
proof -
  let ?b = "st ! length p"
  have "vwf (VLeaf st' vals) (p @ [?b])" using wf c by (metis vwf.simps(3))
  then show st': "length st' = 31" "take (Suc (length p)) st' = p @ [?b]" by simp_all
  then have tk: "take (length p) st' = p" "st' ! length p = ?b"
    using wf by (simp_all add: take_Suc_conv_app_nth)
  show sd: "Suc (length p) < 31"
    by (rule distinct_stems_differ_below [of st st']) (use st st' ne tk wf in auto)
  show "vwf (VInternal (newBranch (st' ! Suc (length p)) (VLeaf st' vals))) (p @ [?b])"
    using vwf_newBranch [of st' "p @ [?b]" vals] st' sd by simp
  assume nb: "ins_ok (newBranch (st' ! Suc (length p)) (VLeaf st' vals)) nb (p @ [?b]) st i v"
  have "vread (Suc (length p)) (newBranch (st' ! Suc (length p)) (VLeaf st' vals)) s j
      = nread (length p) (ch ?b) s j" if "length s = 31" for s j
    using vread_newBranch [of s "p @ [?b]" st' vals j] that st' sd c by simp
  with nb have "stored (nread (length p) (ch ?b)) (nread (length p) (VInternal nb)) (p @ [?b]) st i v"
    by (auto simp: ins_ok_def stored_def)
  with nb show "ins_ok ch (ch(?b := VInternal nb)) p st i v"
    by (intro ins_ok_child [OF wf st]) (auto simp: ins_ok_def)
qed

lemma InsertValuesAtStem_ok:
  assumes "vwf (VInternal ch) p" "length p = d" "length st = 31" "take d st = p" "length v \<le> 32"
  shows "\<exists>ch'. InsertValuesAtStem d ch st i v = Inr ch' \<and> ins_ok ch ch' p st i v"
  using assms
proof (induction d ch st i v arbitrary: p rule: InsertValuesAtStem.induct)
  case (1 d ch st i v)
  have p: "d = length p" and st: "length st = 31" "take (length p) st = p"
    and v: "length v \<le> 32" and wf: "vwf (VInternal ch) p"
    using "1.prems" by auto
  let ?b = "st ! d"
  have unf: "\<not> length st \<le> d" and pb: "take (Suc d) st = p @ [?b]" "length (p @ [?b]) = Suc d"
    using wf st p by (simp_all add: take_Suc_conv_app_nth)
  show ?case
  proof (cases "ch ?b")
    case VEmpty
    with insert_at_empty [OF wf st v] p show ?thesis by simp
  next
    case (VInternal c)
    then have "vwf (VInternal c) (p @ [?b])" using wf p by (metis vwf.simps(3))
    from "1.IH"(2) [OF unf refl VInternal this pb(2) st(1) pb(1) v]
    show ?thesis using insert_at_internal [OF wf st] VInternal p by blast
  next
    case (VLeaf st' vals)
    show ?thesis
    proof (cases "st' = st")
      case True
      with insert_at_same_leaf [OF wf st v] VLeaf p show ?thesis by simp
    next
      case False
      note br = branch_over_leaf [OF wf st VLeaf [unfolded p] False, folded p]
      show ?thesis
      proof (cases "st ! Suc d = st' ! Suc d")
        case True
        from "1.IH"(1) [OF unf refl VLeaf False _ True br(4) pb(2) st(1) pb(1) v] br st
        obtain nb where nb:
          "InsertValuesAtStem (Suc d) (newBranch (st' ! Suc d) (VLeaf st' vals)) st i v = Inr nb"
          "ins_ok (newBranch (st' ! Suc d) (VLeaf st' vals)) nb (p @ [?b]) st i v" by auto
        with br True VLeaf False unf st show ?thesis
          by (simp add: InsertValuesAtStem.simps [of d] Let_def)
      next
        case ne: False
        with ins_split_leaf [of st "p @ [?b]" st' vals i v] br st False pb
        have "ins_ok (newBranch (st' ! Suc d) (VLeaf st' vals))
            ((newBranch (st' ! Suc d) (VLeaf st' vals)) (st ! Suc d := VLeaf st ((\<lambda>_. [])(i := v))))
            (p @ [?b]) st i v" by auto
        with br ne VLeaf False unf v st show ?thesis
          by (simp add: InsertValuesAtStem.simps [of d] NewLeafNode_ok Let_def)
      qed
    qed
  qed
qed

subsection \<open>The contract of the tree\<close>

text \<open>
  What a client may assume of a tree of 32-byte keys: insertion of at most 32 bytes
  succeeds, and a lookup returns the last non-empty value inserted under the key.
\<close>

locale byte_trie =
  fixes new :: 't and ins :: "'t \<Rightarrow> bytes \<Rightarrow> bytes \<Rightarrow> 'e + 't"
    and get :: "'t \<Rightarrow> bytes \<Rightarrow> bytes" and inv :: "'t \<Rightarrow> bool"
  assumes inv_new: "inv new" and get_new: "get new k = []"
    and ins_total: "inv t \<Longrightarrow> length k = 32 \<Longrightarrow> length v \<le> 32 \<Longrightarrow>
      \<exists>t'. ins t k v = Inr t' \<and> inv t' \<and>
        (\<forall>k'. get t' k' = (if k' = k \<and> v \<noteq> [] then v else get t k'))"
begin

lemma get_ins:
  assumes "inv t" "length k = 32" "length v \<le> 32" "ins t k v = Inr t'"
  shows "inv t'" "get t' k' = (if k' = k \<and> v \<noteq> [] then v else get t k')"
  using ins_total [OF assms(1-3)] assms(4) by auto

text \<open>Replaying a list of bindings, as a program that rebuilds the tree from disk does.\<close>

lemma get_replay:
  assumes "inv t" "distinct (map fst kvs)" "\<forall>(k, v) \<in> set kvs. length k = 32 \<and> length v \<le> 32"
  defines "put \<equiv> \<lambda>(k, v) u. case ins u k v of Inl _ \<Rightarrow> u | Inr u' \<Rightarrow> u'"
  shows "inv (fold put kvs t) \<and>
    get (fold put kvs t) k = (case map_of kvs k of None \<Rightarrow> get t k | Some v \<Rightarrow> if v = [] then get t k else v)"
  using assms(1-3)
proof (induction kvs arbitrary: t)
  case Nil
  then show ?case by simp
next
  case (Cons b kvs)
  obtain k0 v0 where b: "b = (k0, v0)" by (cases b)
  obtain t' where t': "ins t k0 v0 = Inr t'" "inv t'"
      "\<forall>k'. get t' k' = (if k' = k0 \<and> v0 \<noteq> [] then v0 else get t k')"
    using ins_total [of t k0 v0] Cons.prems b by auto
  have put: "put b t = t'" using t' b by (simp add: put_def)
  have "k0 \<notin> dom (map_of kvs)"
    using Cons.prems(2) b by (force simp: dom_map_of_conv_image_fst)
  then show ?case
    using Cons.IH [of t'] Cons.prems t' put b by (auto split: option.splits)
qed

end

lemma take_nth_31_eq: "length k = 32 \<Longrightarrow> length k' = 32 \<Longrightarrow>
    take 31 k = take 31 k' \<and> k ! 31 = k' ! 31 \<longleftrightarrow> k = k'"
  using take_Suc_conv_app_nth [of 31 k] take_Suc_conv_app_nth [of 31 k'] by auto

lemma VInsert_ok:
  assumes "vtree_wf t" "length k = 32" "length v \<le> 32"
  shows "\<exists>t'. VInsert t k v = Inr t' \<and> vtree_wf t' \<and>
    (\<forall>k'. VGet t' k' = (if k' = k \<and> v \<noteq> [] then v else VGet t k'))"
proof -
  obtain t' where ins: "InsertValuesAtStem 0 t (take 31 k) (k ! 31) v = Inr t'"
      "ins_ok t t' [] (take 31 k) (k ! 31) v"
    using InsertValuesAtStem_ok [of t "[]" 0 "take 31 k" v] assms by (auto simp: vtree_wf_def)
  have rd: "VGet u k' = vread 0 u (take 31 k') (k' ! 31)" if "length k' = 32" for u k'
    using that by (simp add: VGet_def vread_def)
  have "VGet t' k' = (if k' = k \<and> v \<noteq> [] then v else VGet t k')" for k'
  proof (cases "length k' = 32")
    case True
    with ins(2) assms(2) take_nth_31_eq [OF True assms(2)] show ?thesis
      by (auto simp: ins_ok_def stored_def rd)
  next
    case False
    with assms(2) show ?thesis by (auto simp: VGet_def)
  qed
  with ins assms show ?thesis by (auto simp: VInsert_def ins_ok_def vtree_wf_def)
qed

interpretation vt: byte_trie NewVerkle VInsert VGet vtree_wf
proof
  show "VGet NewVerkle k = []" for k
    by (simp add: VGet_def NewVerkle_def GetValuesAtStem.simps)
qed (simp, rule VInsert_ok)

end
