(* ===== verification/StateDB.thy ===== *)
theory StateDB
  imports RawDB Verkle
begin

text \<open>
  Package \<open>state\<close>: the account state over the Verkle tree.

  A \<open>StateDB\<close> is the record of its own fields (\<open>sdb_fields\<close>) and an optional parent.  The
  state at the bottom owns a tree; an overlay has no tree, buffers its writes in \<open>dirty\<close> and
  reads through to its parent.  The database handle is shared by the whole node, so the
  state only records whether it has one, and the operations that read the database take it
  as an argument.  Keccak-256 (\<open>K\<close>) and the root commitment of a tree (\<open>R\<close>) are parameters.

  Groups of lemmas: the key/value contract of \<open>getVerkleValue\<close> and \<open>setVerkleValue\<close>
  (locale \<open>kv_store\<close>, interpreted on them); overlays and \<open>Merge\<close>; \<open>Commit\<close> and
  the reconstruction of a state from disk by \<open>New\<close>; the accounts (balances, nonces, code,
  storage) as slots of one key space.
\<close>

record sdb_fields =
  tree :: "vtree option"
  has_db :: bool
  code :: "(hash \<times> bytes) list"
  logs :: "(hash \<times> log list) list"
  preimages :: "(hash \<times> bytes) list"
  transientStorage :: "(address \<times> (hash \<times> hash) list) list"
  dirty :: "(bytes \<times> bytes) list"

datatype statedb = SDB (fields: sdb_fields) (parent: "statedb option")

definition empty_fields :: "bool \<Rightarrow> sdb_fields" where
  "empty_fields hasdb = \<lparr>tree = None, has_db = hasdb, code = [], logs = [], preimages = [],
     transientStorage = [], dirty = []\<rparr>"

subsection \<open>Low-level access\<close>

text \<open>\<open>s.tree.Insert(key, value, s.resolver)\<close> with the error dropped, as the callers do.\<close>

definition tree_put :: "bytes \<times> bytes \<Rightarrow> vtree \<Rightarrow> vtree" where
  "tree_put = (\<lambda>(k, v) t. case VInsert t k v of Inl _ \<Rightarrow> t | Inr t' \<Rightarrow> t')"

fun getVerkleValue :: "statedb \<Rightarrow> bytes \<Rightarrow> bytes" where
  "getVerkleValue (SDB f p) key =
     (case map_of (dirty f) key of
        Some val \<Rightarrow> val
      | None \<Rightarrow>
          (case p of
             Some q \<Rightarrow> getVerkleValue q key
           | None \<Rightarrow> (case tree f of None \<Rightarrow> [] | Some t \<Rightarrow> VGet t key)))"

definition setVerkleValue :: "statedb \<Rightarrow> bytes \<Rightarrow> bytes \<Rightarrow> statedb" where
  "setVerkleValue s key val =
     (let f = (fields s)\<lparr>dirty := AList.update key val (dirty (fields s))\<rparr>
      in case parent s of
           Some q \<Rightarrow> SDB f (Some q)
         | None \<Rightarrow> SDB (f\<lparr>tree := map_option (tree_put (key, val)) (tree f)\<rparr>) None)"

subsection \<open>Construction, overlays, merging, committing\<close>

definition NewState :: "'d leveldb \<Rightarrow> hash \<Rightarrow> 'd option \<Rightarrow> statedb" where
  "NewState D root db =
     (case db of
        None \<Rightarrow> SDB ((empty_fields False)\<lparr>tree := Some NewVerkle\<rparr>) None
      | Some d \<Rightarrow>
          (let entries = filter (\<lambda>(k, v). \<not> length k < 1) (db_Iter D d (bytes_of_string ''v''));
               t = fold (\<lambda>(k, v). tree_put (tl k, v)) entries NewVerkle
           in SDB ((empty_fields True)\<lparr>tree := Some t\<rparr>) None))"

definition NewOverlay :: "statedb \<Rightarrow> statedb" where
  "NewOverlay s = SDB (empty_fields (has_db (fields s))) (Some s)"

text \<open>\<open>map[k] = append(map[k], v...)\<close>\<close>

definition append_logs :: "hash \<times> log list \<Rightarrow> (hash \<times> log list) list \<Rightarrow> (hash \<times> log list) list" where
  "append_logs = (\<lambda>(k, v) al.
     AList.update k ((case map_of al k of None \<Rightarrow> [] | Some ls \<Rightarrow> ls) @ v) al)"

text \<open>The effect of \<open>Merge\<close> on the parent object, whose fields may have changed since the overlay was made.\<close>

definition merge_into :: "statedb \<Rightarrow> statedb \<Rightarrow> statedb" where
  "merge_into par s =
     (let p1 = fold (\<lambda>(k, v) q. setVerkleValue q k v) (dirty (fields s)) par;
          f1 = fields p1;
          f2 = f1\<lparr>code := fold (\<lambda>(k, v). AList.update k v) (code (fields s)) (code f1),
                  logs := fold append_logs (logs (fields s)) (logs f1),
                  preimages := fold (\<lambda>(k, v). AList.update k v) (preimages (fields s)) (preimages f1)\<rparr>
      in SDB f2 (parent p1))"

definition Merge :: "statedb \<Rightarrow> statedb option" where
  "Merge s = (case parent s of None \<Rightarrow> None | Some par \<Rightarrow> Some (merge_into par s))"

fun IntermediateRoot :: "(vtree \<Rightarrow> hash) \<Rightarrow> statedb \<Rightarrow> hash" where
  "IntermediateRoot R (SDB f p) =
     (case p of
        Some q \<Rightarrow> IntermediateRoot R q
      | None \<Rightarrow> (case tree f of None \<Rightarrow> 0 | Some t \<Rightarrow> R t))"

text \<open>The puts of \<open>Commit\<close>, the root it returns (its error is always nil), and the state afterwards.\<close>

definition commit_batch :: "statedb \<Rightarrow> (bytes \<times> bytes) list" where
  "commit_batch s =
     map (\<lambda>(k, v). (key_bytes (StateKey k), v)) (dirty (fields s))
     @ map (\<lambda>(h, c). (key_bytes (CodeKey h), c)) (code (fields s))"

definition clear_dirty :: "statedb \<Rightarrow> statedb" where
  "clear_dirty s = SDB ((fields s)\<lparr>dirty := []\<rparr>) (parent s)"

definition CommitState ::
    "(vtree \<Rightarrow> hash) \<Rightarrow> statedb \<Rightarrow> (bytes \<times> bytes) list \<Rightarrow> statedb \<times> (bytes \<times> bytes) list \<times> hash" where
  "CommitState R s batch =
     (let s' = clear_dirty s in (s', batch @ commit_batch s, IntermediateRoot R s'))"

subsection \<open>Account keys\<close>

definition accountStem :: "(bytes \<Rightarrow> hash) \<Rightarrow> address \<Rightarrow> bytes" where
  "accountStem K addr = take 31 (hash_Bytes (K (address_Bytes addr)))"

definition nonceKey :: "(bytes \<Rightarrow> hash) \<Rightarrow> address \<Rightarrow> bytes" where
  "nonceKey K addr = accountStem K addr @ [0]"

definition balanceKey :: "(bytes \<Rightarrow> hash) \<Rightarrow> address \<Rightarrow> bytes" where
  "balanceKey K addr = accountStem K addr @ [1]"

definition codeHashKey :: "(bytes \<Rightarrow> hash) \<Rightarrow> address \<Rightarrow> bytes" where
  "codeHashKey K addr = accountStem K addr @ [2]"

definition storageKey :: "(bytes \<Rightarrow> hash) \<Rightarrow> address \<Rightarrow> hash \<Rightarrow> bytes" where
  "storageKey K addr key = hash_Bytes (K (address_Bytes addr @ hash_Bytes key))"

subsection \<open>Accounts\<close>

definition GetBalance :: "(bytes \<Rightarrow> hash) \<Rightarrow> statedb \<Rightarrow> address \<Rightarrow> uint256" where
  "GetBalance K s addr =
     (let val = getVerkleValue s (balanceKey K addr)
      in if length val = 0 then 0 else u256_SetBytes val)"

definition SetBalance :: "(bytes \<Rightarrow> hash) \<Rightarrow> statedb \<Rightarrow> address \<Rightarrow> uint256 \<Rightarrow> statedb" where
  "SetBalance K s addr amount = setVerkleValue s (balanceKey K addr) (u256_Bytes amount)"

definition addBalance_h :: "(bytes \<Rightarrow> hash) \<Rightarrow> statedb \<Rightarrow> address \<Rightarrow> uint256 \<Rightarrow> statedb \<times> uint256" where
  "addBalance_h K s addr amount =
     (let newBal = GetBalance K s addr + amount in (SetBalance K s addr newBal, newBal))"

definition AddBalance :: "(bytes \<Rightarrow> hash) \<Rightarrow> statedb \<Rightarrow> address \<Rightarrow> uint256 \<Rightarrow> statedb \<times> uint256" where
  "AddBalance K s addr amount = addBalance_h K s addr amount"

definition AddBalanceReward :: "(bytes \<Rightarrow> hash) \<Rightarrow> statedb \<Rightarrow> address \<Rightarrow> uint256 \<Rightarrow> statedb" where
  "AddBalanceReward K s addr amount = fst (AddBalance K s addr amount)"

definition SubBalance :: "(bytes \<Rightarrow> hash) \<Rightarrow> statedb \<Rightarrow> address \<Rightarrow> uint256 \<Rightarrow> statedb \<times> uint256" where
  "SubBalance K s addr amount = addBalance_h K s addr (- amount)"

definition GetNonce :: "(bytes \<Rightarrow> hash) \<Rightarrow> statedb \<Rightarrow> address \<Rightarrow> uint64" where
  "GetNonce K s addr =
     (let val = getVerkleValue s (nonceKey K addr)
      in if length val = 0 then 0 else of_nat (nat_of_bytes val))"

text \<open>\<open>big.NewInt(int64(nonce)).Bytes()\<close>: the conversion to \<open>int64\<close> is the signed reading of the word.\<close>

definition SetNonce :: "(bytes \<Rightarrow> hash) \<Rightarrow> statedb \<Rightarrow> address \<Rightarrow> uint64 \<Rightarrow> statedb" where
  "SetNonce K s addr nonce = setVerkleValue s (nonceKey K addr) (bytes_of_nat (nat \<bar>sint nonce\<bar>))"

definition GetCodeHash :: "(bytes \<Rightarrow> hash) \<Rightarrow> statedb \<Rightarrow> address \<Rightarrow> hash" where
  "GetCodeHash K s addr =
     (let val = getVerkleValue s (codeHashKey K addr)
      in if length val = 0 then 0 else BytesToHash val)"

definition cache_code :: "statedb \<Rightarrow> hash \<Rightarrow> bytes \<Rightarrow> statedb" where
  "cache_code s h c = SDB ((fields s)\<lparr>code := AList.update h c (code (fields s))\<rparr>) (parent s)"

text \<open>\<open>types.EmptyCodeHash\<close> is the Keccak hash of the empty slice.\<close>

definition GetCode ::
    "(bytes \<Rightarrow> hash) \<Rightarrow> 'd leveldb \<Rightarrow> 'd \<Rightarrow> statedb \<Rightarrow> address \<Rightarrow> bytes \<times> statedb" where
  "GetCode K D d s addr =
     (let h = GetCodeHash K s addr in
      if h = K [] then ([], s)
      else case map_of (code (fields s)) h of
             Some c \<Rightarrow> (c, s)
           | None \<Rightarrow>
               (if has_db (fields s)
                then (case db_Get D d (key_bytes (CodeKey h)) of
                        Some c \<Rightarrow> (c, cache_code s h c)
                      | None \<Rightarrow> ([], s))
                else ([], s)))"

definition SetCode :: "(bytes \<Rightarrow> hash) \<Rightarrow> statedb \<Rightarrow> address \<Rightarrow> bytes \<Rightarrow> statedb \<times> bytes" where
  "SetCode K s addr c =
     (let h = K c in (cache_code (setVerkleValue s (codeHashKey K addr) (hash_Bytes h)) h c, c))"

definition GetCodeSize ::
    "(bytes \<Rightarrow> hash) \<Rightarrow> 'd leveldb \<Rightarrow> 'd \<Rightarrow> statedb \<Rightarrow> address \<Rightarrow> nat \<times> statedb" where
  "GetCodeSize K D d s addr = (let (c, s') = GetCode K D d s addr in (length c, s'))"

definition GetLogs :: "statedb \<Rightarrow> hash \<Rightarrow> log list" where
  "GetLogs s txHash = (case map_of (logs (fields s)) txHash of None \<Rightarrow> [] | Some ls \<Rightarrow> ls)"

definition GetState :: "(bytes \<Rightarrow> hash) \<Rightarrow> statedb \<Rightarrow> address \<Rightarrow> hash \<Rightarrow> hash" where
  "GetState K s addr key =
     (let val = getVerkleValue s (storageKey K addr key)
      in if length val = 0 then 0 else BytesToHash val)"

definition SetState ::
    "(bytes \<Rightarrow> hash) \<Rightarrow> statedb \<Rightarrow> address \<Rightarrow> hash \<Rightarrow> hash \<Rightarrow> statedb \<times> hash" where
  "SetState K s addr key val =
     (setVerkleValue s (storageKey K addr key) (hash_Bytes val), GetState K s addr key)"

definition SelfDestruct :: "(bytes \<Rightarrow> hash) \<Rightarrow> statedb \<Rightarrow> address \<Rightarrow> statedb \<times> uint256" where
  "SelfDestruct K s addr = (SetBalance K s addr 0, GetBalance K s addr)"

definition SelfDestruct6780 :: "(bytes \<Rightarrow> hash) \<Rightarrow> statedb \<Rightarrow> address \<Rightarrow> statedb \<times> uint256 \<times> bool" where
  "SelfDestruct6780 K s addr = (let (s', b) = SelfDestruct K s addr in (s', b, True))"

definition EmptyAccount ::
    "(bytes \<Rightarrow> hash) \<Rightarrow> 'd leveldb \<Rightarrow> 'd \<Rightarrow> statedb \<Rightarrow> address \<Rightarrow> bool" where
  "EmptyAccount K D d s addr \<longleftrightarrow>
     GetBalance K s addr = 0 \<and> GetNonce K s addr = 0 \<and> length (fst (GetCode K D d s addr)) = 0"

definition GetTransientState :: "statedb \<Rightarrow> address \<Rightarrow> hash \<Rightarrow> hash" where
  "GetTransientState s addr key =
     (case map_of (transientStorage (fields s)) addr of
        None \<Rightarrow> 0
      | Some m \<Rightarrow> (case map_of m key of None \<Rightarrow> 0 | Some v \<Rightarrow> v))"

definition SetTransientState :: "statedb \<Rightarrow> address \<Rightarrow> hash \<Rightarrow> hash \<Rightarrow> statedb" where
  "SetTransientState s addr key val =
     (let ts = transientStorage (fields s);
          m = (case map_of ts addr of None \<Rightarrow> [] | Some m \<Rightarrow> m)
      in SDB ((fields s)\<lparr>transientStorage := AList.update addr (AList.update key val m) ts\<rparr>) (parent s))"

definition GetCommittedState :: "(bytes \<Rightarrow> hash) \<Rightarrow> statedb \<Rightarrow> address \<Rightarrow> hash \<Rightarrow> hash" where
  "GetCommittedState K s addr key = GetState K s addr key"

definition GetStateAndCommittedState ::
    "(bytes \<Rightarrow> hash) \<Rightarrow> statedb \<Rightarrow> address \<Rightarrow> hash \<Rightarrow> hash \<times> hash" where
  "GetStateAndCommittedState K s addr key =
     (let val = GetState K s addr key in (val, val))"

text \<open>
  The methods of the EVM's \<open>StateDB\<close> interface that the program leaves empty or constant:
  accounts always exist, snapshots, logs, access lists and refunds are not kept.
\<close>

definition CreateAccount :: "statedb \<Rightarrow> address \<Rightarrow> statedb" where
  "CreateAccount s addr = s"

definition CreateContract :: "statedb \<Rightarrow> address \<Rightarrow> statedb" where
  "CreateContract s addr = s"

definition HasSelfDestructed :: "statedb \<Rightarrow> address \<Rightarrow> bool" where
  "HasSelfDestructed s addr = False"

definition Exist :: "statedb \<Rightarrow> address \<Rightarrow> bool" where
  "Exist s addr = True"

definition AddressInAccessList :: "statedb \<Rightarrow> address \<Rightarrow> bool" where
  "AddressInAccessList s addr = True"

definition SlotInAccessList :: "statedb \<Rightarrow> address \<Rightarrow> hash \<Rightarrow> bool \<times> bool" where
  "SlotInAccessList s addr slot = (True, True)"

definition Snapshot :: "statedb \<Rightarrow> int" where
  "Snapshot s = 0"

definition RevertToSnapshot :: "statedb \<Rightarrow> int \<Rightarrow> statedb" where
  "RevertToSnapshot s revid = s"

definition AddLog :: "statedb \<Rightarrow> log \<Rightarrow> statedb" where
  "AddLog s l = s"

definition GetRefund :: "statedb \<Rightarrow> uint64" where
  "GetRefund s = 0"

definition AddRefund :: "statedb \<Rightarrow> uint64 \<Rightarrow> statedb" where
  "AddRefund s gas = s"

text \<open>The values \<open>Prefetch\<close> looks up and discards.\<close>

definition PrefetchState :: "(bytes \<Rightarrow> hash) \<Rightarrow> statedb \<Rightarrow> address list \<Rightarrow> bytes list" where
  "PrefetchState K s addrs =
     concat (map (\<lambda>addr. map (getVerkleValue s) [nonceKey K addr, balanceKey K addr, codeHashKey K addr]) addrs)"

subsection \<open>The invariant and the key/value contract\<close>

text \<open>
  Keys are 32 bytes and values at most 32; no key is buffered twice; the state at the bottom
  owns a well-formed tree that already holds every non-empty buffered value.
\<close>

definition entries_ok :: "(bytes \<times> bytes) list \<Rightarrow> bool" where
  "entries_ok kvs \<longleftrightarrow> distinct (map fst kvs) \<and> (\<forall>(k, v) \<in> set kvs. length k = 32 \<and> length v \<le> 32)"

definition base_ok :: "sdb_fields \<Rightarrow> bool" where
  "base_ok f \<longleftrightarrow> (case tree f of None \<Rightarrow> False | Some t \<Rightarrow>
     vtree_wf t \<and> (\<forall>k v. map_of (dirty f) k = Some v \<longrightarrow> v \<noteq> [] \<longrightarrow> VGet t k = v))"

fun statedb_ok :: "statedb \<Rightarrow> bool" where
  "statedb_ok (SDB f p) \<longleftrightarrow>
     entries_ok (dirty f) \<and> distinct (map fst (code f)) \<and>
     (case p of Some q \<Rightarrow> tree f = None \<and> statedb_ok q | None \<Rightarrow> base_ok f)"

lemma entries_ok_update:
  assumes "entries_ok kvs" "length k = 32" "length v \<le> 32"
  shows "entries_ok (AList.update k v kvs)"
proof -
  have "(k', v') \<in> set kvs \<or> (k', v') = (k, v)" if "(k', v') \<in> set (AList.update k v kvs)" for k' v'
    using that by (induction kvs) (auto split: if_splits)
  with assms show ?thesis by (fastforce simp: entries_ok_def intro!: distinct_update)
qed

lemma entries_ok_map_of:
  "entries_ok kvs \<Longrightarrow> map_of kvs k = Some v \<Longrightarrow> length k = 32 \<and> length v \<le> 32"
  by (auto simp: entries_ok_def dest!: map_of_SomeD)

lemma tree_put_ok:
  assumes "vtree_wf t" "length k = 32" "length v \<le> 32"
  shows "vtree_wf (tree_put (k, v) t)"
    and "VGet (tree_put (k, v) t) k' = (if k' = k \<and> v \<noteq> [] then v else VGet t k')"
  using vt.ins_total [OF assms] by (auto simp: tree_put_def)

lemma base_ok_put:
  assumes "base_ok f" "length k = 32" "length v \<le> 32"
  shows "base_ok (f\<lparr>dirty := AList.update k v (dirty f), tree := map_option (tree_put (k, v)) (tree f)\<rparr>)"
  using assms tree_put_ok by (auto simp: base_ok_def split: option.splits if_splits)

lemma statedb_ok_set:
  assumes "statedb_ok s" "length k = 32" "length v \<le> 32"
  shows "statedb_ok (setVerkleValue s k v)"
proof (cases s)
  case (SDB f p)
  have "base_ok (f\<lparr>dirty := AList.update k v (dirty f), tree := map_option (tree_put (k, v)) (tree f)\<rparr>)"
    if "p = None" using base_ok_put [OF _ assms(2,3)] assms(1) SDB that by simp
  with assms SDB show ?thesis
    by (auto simp: setVerkleValue_def Let_def entries_ok_update split: option.splits)
qed

lemma get_setVerkleValue:
  assumes "statedb_ok s" "length k = 32" "length v \<le> 32"
  shows "getVerkleValue (setVerkleValue s k v) k' = (if k' = k then v else getVerkleValue s k')"
proof (cases s)
  case (SDB f p)
  with assms tree_put_ok show ?thesis
    by (auto simp: setVerkleValue_def Let_def base_ok_def split: option.splits)
qed

lemma setVerkleValue_sel [simp]:
  "parent (setVerkleValue s k v) = parent s"
  "code (fields (setVerkleValue s k v)) = code (fields s)"
  "logs (fields (setVerkleValue s k v)) = logs (fields s)"
  "preimages (fields (setVerkleValue s k v)) = preimages (fields s)"
  "transientStorage (fields (setVerkleValue s k v)) = transientStorage (fields s)"
  "has_db (fields (setVerkleValue s k v)) = has_db (fields s)"
  "dirty (fields (setVerkleValue s k v)) = AList.update k v (dirty (fields s))"
  by (simp_all add: setVerkleValue_def Let_def split: option.splits)

text \<open>
  A store of byte strings under 32-byte keys, and the facts its clients use: writing a list
  of bindings, and reading and writing through an injective naming of the keys.
\<close>

locale kv_store =
  fixes get :: "'s \<Rightarrow> bytes \<Rightarrow> bytes" and put :: "'s \<Rightarrow> bytes \<Rightarrow> bytes \<Rightarrow> 's"
    and inv :: "'s \<Rightarrow> bool"
  assumes inv_put: "inv s \<Longrightarrow> length k = 32 \<Longrightarrow> length v \<le> 32 \<Longrightarrow> inv (put s k v)"
    and get_put: "inv s \<Longrightarrow> length k = 32 \<Longrightarrow> length v \<le> 32 \<Longrightarrow>
      get (put s k v) k' = (if k' = k then v else get s k')"
begin

lemma put_all:
  assumes "inv s" "entries_ok kvs"
  shows "inv (fold (\<lambda>(k, v) q. put q k v) kvs s) \<and>
    get (fold (\<lambda>(k, v) q. put q k v) kvs s) k
      = (case map_of kvs k of None \<Rightarrow> get s k | Some v \<Rightarrow> v)"
  using assms
proof (induction kvs arbitrary: s)
  case Nil
  then show ?case by simp
next
  case (Cons b kvs)
  obtain k0 v0 where b: "b = (k0, v0)" by (cases b)
  have "length k0 = 32" "length v0 \<le> 32" "entries_ok kvs" "k0 \<notin> dom (map_of kvs)"
    using Cons.prems(2) b by (force simp: entries_ok_def dom_map_of_conv_image_fst)+
  then show ?case
    using Cons.IH [of "put s k0 v0"] Cons.prems(1) b
    by (auto simp: inv_put get_put split: option.splits)
qed

lemma get_put_named:
  assumes "inv s" "inj_on name S" "x \<in> S" "y \<in> S" "length (name x) = 32" "length v \<le> 32"
  shows "get (put s (name x) v) (name y) = (if y = x then v else get s (name y))"
  using assms by (auto simp: get_put dest: inj_onD)

end

interpretation sdb: kv_store getVerkleValue setVerkleValue statedb_ok
  by unfold_locales (auto simp: statedb_ok_set get_setVerkleValue)

subsection \<open>Overlays and merging\<close>

lemma NewOverlay_reads [simp]: "getVerkleValue (NewOverlay s) = getVerkleValue s"
  by (simp add: fun_eq_iff NewOverlay_def empty_fields_def)

lemma NewOverlay_ok [simp]: "statedb_ok (NewOverlay s) \<longleftrightarrow> statedb_ok s"
  by (simp add: NewOverlay_def empty_fields_def entries_ok_def)

lemma merge_into_dirty_only:
  "getVerkleValue (merge_into par s) = getVerkleValue (fold (\<lambda>(k, v) q. setVerkleValue q k v) (dirty (fields s)) par)"
proof -
  have "getVerkleValue (SDB ((fields q)\<lparr>code := c, logs := l, preimages := pr\<rparr>) (parent q)) = getVerkleValue q"
    for q c l pr by (cases q) (simp add: fun_eq_iff split: option.split)
  then show ?thesis by (simp add: merge_into_def Let_def)
qed

lemma distinct_fold_update:
  "distinct (map fst al) \<Longrightarrow> distinct (map fst (fold (\<lambda>(k, v). AList.update k v) kvs al))"
  by (induction kvs arbitrary: al) auto

lemma merge_into_ok:
  assumes "statedb_ok par" "statedb_ok s"
  shows "statedb_ok (merge_into par s)"
    and "getVerkleValue (merge_into par s) k
      = (case map_of (dirty (fields s)) k of None \<Rightarrow> getVerkleValue par k | Some v \<Rightarrow> v)"
proof -
  let ?q = "fold (\<lambda>(k, v) q. setVerkleValue q k v) (dirty (fields s)) par"
  have e: "entries_ok (dirty (fields s))" using assms(2) by (cases s) simp
  note q = sdb.put_all [OF assms(1) e]
  show "getVerkleValue (merge_into par s) k
      = (case map_of (dirty (fields s)) k of None \<Rightarrow> getVerkleValue par k | Some v \<Rightarrow> v)"
    using q [of k] by (simp add: merge_into_dirty_only)
  have "base_ok (f\<lparr>code := c, logs := l, preimages := pr\<rparr>) = base_ok f" for f c l pr
    by (simp add: base_ok_def split: option.split)
  then show "statedb_ok (merge_into par s)"
    using q [of k] by (cases ?q) (auto simp: merge_into_def Let_def distinct_fold_update split: option.splits)
qed

text \<open>A parent that did not change since the overlay was made reads like the overlay after the merge.\<close>

lemma Merge_reads:
  assumes "statedb_ok s" "Merge s = Some par'"
  shows "statedb_ok par' \<and> getVerkleValue par' = getVerkleValue s"
proof (cases s)
  case (SDB f p)
  then obtain par where "p = Some par" "par' = merge_into par s"
    using assms(2) by (auto simp: Merge_def split: option.splits)
  with SDB assms(1) show ?thesis
    using merge_into_ok [of par s] by (auto simp: fun_eq_iff split: option.splits)
qed

lemma merge_into_commute:
  assumes "statedb_ok par" "statedb_ok s" "statedb_ok s'"
    and "dom (map_of (dirty (fields s))) \<inter> dom (map_of (dirty (fields s'))) = {}"
  shows "getVerkleValue (merge_into (merge_into par s) s') = getVerkleValue (merge_into (merge_into par s') s)"
  using assms merge_into_ok by (fastforce simp: fun_eq_iff split: option.splits)

subsection \<open>Commit and restart\<close>

text \<open>What a restart would read under a state key.\<close>

definition persisted :: "'d leveldb \<Rightarrow> 'd \<Rightarrow> bytes \<Rightarrow> bytes" where
  "persisted D d k = (case db_Get D d (key_bytes (StateKey k)) of None \<Rightarrow> [] | Some v \<Rightarrow> v)"

text \<open>Only \<open>Commit\<close> writes under the prefix \<open>v\<close>, with keys of 32 bytes and values of at most 32.\<close>

definition state_table_ok :: "'d leveldb \<Rightarrow> 'd \<Rightarrow> bool" where
  "state_table_ok D d \<longleftrightarrow>
     (\<forall>k v. db_Get D d (key_bytes (StateKey k)) = Some v \<longrightarrow> length k = 32 \<and> length v \<le> 32)"

text \<open>Outside the uncommitted writes, memory and disk agree.\<close>

definition in_sync :: "'d leveldb \<Rightarrow> 'd \<Rightarrow> statedb \<Rightarrow> bool" where
  "in_sync D d s \<longleftrightarrow>
     (\<forall>k. k \<notin> dom (map_of (dirty (fields s))) \<longrightarrow> getVerkleValue s k = persisted D d k)"

lemma StateKey_prefix: "key_bytes (StateKey k) = 118 # k"
  by (simp add: key_bytes.simps key_byte_values)

lemma map_of_map_tl:
  assumes "\<forall>(k, v) \<in> set kvs. take 1 k = [c]"
  shows "map_of (map (\<lambda>(k, v). (tl k, v)) kvs) k = map_of kvs (c # k)"
  using assms
proof (induction kvs)
  case (Cons b kvs)
  obtain k' v where "b = (c # k', v)" using Cons.prems by (cases b; cases "fst b") auto
  with Cons show ?case by simp
qed simp

lemma distinct_map_tl:
  assumes "\<forall>(k, v) \<in> set kvs. take 1 k = [c]" "distinct (map fst kvs)"
  shows "distinct (map fst (map (\<lambda>(k, v). (tl k, v)) kvs))"
  using assms
proof (induction kvs)
  case (Cons b kvs)
  obtain k' v where b: "b = (c # k', v)" using Cons.prems by (cases b; cases "fst b") auto
  have "k' \<notin> fst ` set (map (\<lambda>(k, v). (tl k, v)) kvs)"
  proof
    assume "k' \<in> fst ` set (map (\<lambda>(k, v). (tl k, v)) kvs)"
    then obtain k v' where "(k, v') \<in> set kvs" "tl k = k'" by auto
    moreover from this Cons.prems(1) have "k = c # k'" by (cases k) auto
    ultimately show False using Cons.prems(2) b by force
  qed
  with Cons b show ?case by auto
qed simp

text \<open>The entries \<open>New\<close> iterates over, without their prefix.\<close>

lemma state_entries:
  assumes "leveldb_ok D" "state_table_ok D d"
  defines "es \<equiv> filter (\<lambda>(k, v). \<not> length k < 1) (db_Iter D d (bytes_of_string ''v''))"
  shows "entries_ok (map (\<lambda>(k, v). (tl k, v)) es)"
    and "map_of (map (\<lambda>(k, v). (tl k, v)) es) k = db_Get D d (key_bytes (StateKey k))"
proof -
  let ?it = "db_Iter D d (bytes_of_string ''v'')"
  have m: "map_of ?it = db_Get D d |` {k. take 1 k = [118]}" and dist: "distinct (map fst ?it)"
    using db_Iter_get [OF assms(1), of d "bytes_of_string ''v''"] db_Iter_distinct [OF assms(1)]
    by (simp_all add: key_byte_values)
  have mem: "take 1 k = [118] \<and> db_Get D d k = Some v" if "(k, v) \<in> set ?it" for k v
    using map_of_is_SomeI [OF dist that] m by (auto simp: restrict_map_def split: if_splits)
  then have es: "es = ?it" by (force simp: es_def filter_id_conv)
  have hd: "\<forall>(k, v) \<in> set ?it. take 1 k = [118]" using mem by auto
  show "map_of (map (\<lambda>(k, v). (tl k, v)) es) k = db_Get D d (key_bytes (StateKey k))"
    by (simp add: es map_of_map_tl [OF hd] m StateKey_prefix)
  have "length k = 33 \<and> length v \<le> 32" if kv: "(k, v) \<in> set ?it" for k v
  proof -
    obtain k' where "k = 118 # k'" using mem [OF kv] by (cases k) auto
    with mem [OF kv] assms(2) show ?thesis by (auto simp: state_table_ok_def StateKey_prefix)
  qed
  then show "entries_ok (map (\<lambda>(k, v). (tl k, v)) es)"
    using distinct_map_tl [OF hd dist] by (fastforce simp: entries_ok_def es)
qed

lemma replay_entries:
  assumes "entries_ok kvs"
  shows "vtree_wf (fold tree_put kvs NewVerkle) \<and>
    VGet (fold tree_put kvs NewVerkle) k = (case map_of kvs k of None \<Rightarrow> [] | Some v \<Rightarrow> v)"
  using vt.get_replay [OF vt.inv_new, of kvs k] assms
  unfolding entries_ok_def tree_put_def vt.get_new by (simp split: option.splits if_splits)

lemma NewState_reads:
  assumes "leveldb_ok D" "state_table_ok D d"
  shows "statedb_ok (NewState D root (Some d))"
    and "getVerkleValue (NewState D root (Some d)) k = persisted D d k"
proof -
  let ?es = "filter (\<lambda>(k, v). \<not> length k < 1) (db_Iter D d (bytes_of_string ''v''))"
  let ?kvs = "map (\<lambda>(k, v). (tl k, v)) ?es"
  have f: "fold (\<lambda>(k, v). tree_put (tl k, v)) ?es t = fold tree_put ?kvs t" for t
    by (simp add: fold_map comp_def case_prod_unfold)
  have es: "entries_ok ?kvs" "map_of ?kvs k = db_Get D d (key_bytes (StateKey k))" for k
    using state_entries [OF assms] by simp_all
  have "vtree_wf (fold tree_put ?kvs NewVerkle) \<and>
    VGet (fold tree_put ?kvs NewVerkle) k = persisted D d k" for k
    using replay_entries [OF es(1), of k] unfolding es(2) persisted_def .
  then show "statedb_ok (NewState D root (Some d))"
    and "getVerkleValue (NewState D root (Some d)) k = persisted D d k"
    unfolding NewState_def Let_def option.case f
    by (simp_all add: empty_fields_def entries_ok_def base_ok_def)
qed

lemma map_of_rev_distinct: "distinct (map fst kvs) \<Longrightarrow> map_of (rev kvs) = map_of kvs"
  by (metis map_of_distinct_mset mset_rev rev_map distinct_rev)

lemma map_of_map_inj: "inj f \<Longrightarrow> map_of (map (\<lambda>(k, v). (f k, v)) kvs) (f k) = map_of kvs k"
  by (induction kvs) (auto simp: inj_eq)

text \<open>The state table after the batch of a commit was written.\<close>

lemma commit_batch_persisted:
  assumes "leveldb_ok D" "statedb_ok s" "db_Write D d (commit_batch s) = Some d'"
  shows "persisted D d' k = (case map_of (dirty (fields s)) k of None \<Rightarrow> persisted D d k | Some v \<Rightarrow> v)"
    and "state_table_ok D d \<Longrightarrow> state_table_ok D d'"
proof -
  let ?vs = "map (\<lambda>(k, v). (key_bytes (StateKey k), v)) (dirty (fields s))"
  let ?cs = "map (\<lambda>(h, c). (key_bytes (CodeKey h), c)) (code (fields s))"
  have e: "entries_ok (dirty (fields s))" using assms(2) by (cases s) simp
  have "map_of (rev ?cs) (key_bytes (StateKey k)) = None" for k
    by (auto simp: map_of_eq_None_iff)
  moreover have "map_of (rev ?vs) (key_bytes (StateKey k)) = map_of (dirty (fields s)) k" for k
    using map_of_map_inj [of "\<lambda>k. key_bytes (StateKey k)" "rev (dirty (fields s))" k] e
    by (simp add: rev_map inj_def entries_ok_def map_of_rev_distinct)
  ultimately have g: "db_Get D d' (key_bytes (StateKey k))
      = (case map_of (dirty (fields s)) k of None \<Rightarrow> db_Get D d (key_bytes (StateKey k)) | Some v \<Rightarrow> Some v)" for k
    using db_Write_get [OF assms(1,3)] by (auto simp: commit_batch_def map_add_def split: option.splits)
  show "persisted D d' k = (case map_of (dirty (fields s)) k of None \<Rightarrow> persisted D d k | Some v \<Rightarrow> v)"
    by (simp add: persisted_def g split: option.splits)
  show "state_table_ok D d'" if "state_table_ok D d"
    using that entries_ok_map_of [OF e] by (fastforce simp: state_table_ok_def g split: option.splits)
qed

lemma getVerkleValue_dirty: "map_of (dirty (fields s)) k = Some v \<Longrightarrow> getVerkleValue s k = v"
  by (cases s) simp

lemma in_sync_set:
  "statedb_ok s \<Longrightarrow> in_sync D d s \<Longrightarrow> length k = 32 \<Longrightarrow> length v \<le> 32 \<Longrightarrow>
   in_sync D d (setVerkleValue s k v)"
  by (simp add: in_sync_def get_setVerkleValue domIff)

lemma in_sync_NewState:
  "leveldb_ok D \<Longrightarrow> state_table_ok D d \<Longrightarrow> in_sync D d (NewState D root (Some d))"
  unfolding in_sync_def by (blast intro: NewState_reads(2))

lemma commit_persisted_reads:
  assumes "leveldb_ok D" "statedb_ok s" "in_sync D d s" "db_Write D d (commit_batch s) = Some d'"
  shows "persisted D d' = getVerkleValue s"
proof
  fix k
  show "persisted D d' k = getVerkleValue s k"
    using commit_batch_persisted(1) [OF assms(1,2,4), of k] assms(3) getVerkleValue_dirty [of s k]
    by (cases "map_of (dirty (fields s)) k") (auto simp: domIff in_sync_def)
qed

lemma clear_dirty_reads:
  assumes "statedb_ok s" "parent s = None" "tree (fields s) = Some t"
  shows "statedb_ok (clear_dirty s)"
    and "getVerkleValue (clear_dirty s) k
      = (if map_of (dirty (fields s)) k = Some [] then VGet t k else getVerkleValue s k)"
  using assms by (cases s; auto simp: clear_dirty_def entries_ok_def base_ok_def split: option.splits)+

subsection \<open>Slots\<close>

text \<open>
  Every value of the account state lives in one slot, and a slot is found under the key
  \<open>slotKey\<close>.  The keys are hashes, so that two slots have different keys is an assumption on
  the slots in use, \<open>collision_free\<close>, and never a fact.
\<close>

datatype slot = NonceOf address | BalanceOf address | CodeHashOf address | StorageOf address hash

fun slotKey :: "(bytes \<Rightarrow> hash) \<Rightarrow> slot \<Rightarrow> bytes" where
  "slotKey K (NonceOf a) = nonceKey K a"
| "slotKey K (BalanceOf a) = balanceKey K a"
| "slotKey K (CodeHashOf a) = codeHashKey K a"
| "slotKey K (StorageOf a k) = storageKey K a k"

definition collision_free :: "(bytes \<Rightarrow> hash) \<Rightarrow> slot set \<Rightarrow> bool" where
  "collision_free K S \<longleftrightarrow> inj_on (slotKey K) S"

definition read_slot :: "(bytes \<Rightarrow> hash) \<Rightarrow> statedb \<Rightarrow> slot \<Rightarrow> bytes" where
  "read_slot K s x = getVerkleValue s (slotKey K x)"

lemma length_slotKey [simp]: "length (slotKey K x) = 32"
  by (cases x) (simp_all add: nonceKey_def balanceKey_def codeHashKey_def storageKey_def accountStem_def)

lemma accountStem_keys [simp]:
  "nonceKey K a \<noteq> balanceKey K b" "nonceKey K a \<noteq> codeHashKey K b" "balanceKey K a \<noteq> codeHashKey K b"
  "balanceKey K a \<noteq> nonceKey K b" "codeHashKey K a \<noteq> nonceKey K b" "codeHashKey K a \<noteq> balanceKey K b"
  by (simp_all add: nonceKey_def balanceKey_def codeHashKey_def)

named_theorems slot_simps

lemma read_slot_reads [slot_simps]:
  "getVerkleValue s (nonceKey K a) = read_slot K s (NonceOf a)"
  "getVerkleValue s (balanceKey K a) = read_slot K s (BalanceOf a)"
  "getVerkleValue s (codeHashKey K a) = read_slot K s (CodeHashOf a)"
  "getVerkleValue s (storageKey K a k) = read_slot K s (StorageOf a k)"
  by (simp_all add: read_slot_def)

text \<open>What each write does to the slots.\<close>

lemma write_slot:
  assumes "statedb_ok s" "length v \<le> 32"
  shows "statedb_ok (setVerkleValue s (slotKey K x) v)"
    and "read_slot K (setVerkleValue s (slotKey K x) v) x = v"
    and "collision_free K S \<Longrightarrow> x \<in> S \<Longrightarrow> y \<in> S \<Longrightarrow> y \<noteq> x \<Longrightarrow>
      read_slot K (setVerkleValue s (slotKey K x) v) y = read_slot K s y"
  using assms sdb.get_put_named [of s "slotKey K" S x y v]
  by (simp_all add: read_slot_def statedb_ok_set get_setVerkleValue collision_free_def)

lemma length_nonce_bytes: "length (bytes_of_nat (nat \<bar>sint (n :: uint64)\<bar>)) \<le> 32"
proof -
  have "\<bar>sint n\<bar> \<le> 2 ^ 63" using sint_greater_eq [of n] sint_less [of n] by simp
  then have "nat \<bar>sint n\<bar> < 256 ^ 32" by simp
  then show ?thesis by (rule length_bytes_of_nat_le)
qed

lemma setters_as_slots:
  "SetBalance K s a v = setVerkleValue s (slotKey K (BalanceOf a)) (u256_Bytes v)"
  "SetNonce K s a n = setVerkleValue s (slotKey K (NonceOf a)) (bytes_of_nat (nat \<bar>sint n\<bar>))"
  "fst (SetState K s a k h) = setVerkleValue s (slotKey K (StorageOf a k)) (hash_Bytes h)"
  by (simp_all add: SetBalance_def SetNonce_def SetState_def)

lemma getters_as_slots:
  "GetBalance K s a = u256_SetBytes (read_slot K s (BalanceOf a))"
  "GetNonce K s a = of_nat (nat_of_bytes (read_slot K s (NonceOf a)))"
  "GetCodeHash K s a = BytesToHash (read_slot K s (CodeHashOf a))"
  "GetState K s a k = BytesToHash (read_slot K s (StorageOf a k))"
  by (simp_all add: GetBalance_def GetNonce_def GetCodeHash_def GetState_def slot_simps Let_def
      u256_SetBytes_def BytesToHash_nat)

declare slotKey.simps [simp del]

lemma SetBalance_slots:
  assumes "statedb_ok s"
  shows "statedb_ok (SetBalance K s a v)" and "GetBalance K (SetBalance K s a v) a = v"
    and "collision_free K S \<Longrightarrow> BalanceOf a \<in> S \<Longrightarrow> y \<in> S \<Longrightarrow> y \<noteq> BalanceOf a \<Longrightarrow>
      read_slot K (SetBalance K s a v) y = read_slot K s y"
  using write_slot [OF assms length_u256_Bytes [of v]]
  by (simp_all add: setters_as_slots getters_as_slots)

lemma SetState_slots:
  assumes "statedb_ok s"
  shows "statedb_ok (fst (SetState K s a k h))" and "GetState K (fst (SetState K s a k h)) a k = h"
    and "collision_free K S \<Longrightarrow> StorageOf a k \<in> S \<Longrightarrow> y \<in> S \<Longrightarrow> y \<noteq> StorageOf a k \<Longrightarrow>
      read_slot K (fst (SetState K s a k h)) y = read_slot K s y"
  using write_slot [OF assms, of "hash_Bytes h"]
  by (simp_all add: setters_as_slots getters_as_slots)

lemma SetNonce_slots:
  assumes "statedb_ok s"
  shows "statedb_ok (SetNonce K s a n)"
    and "GetNonce K (SetNonce K s a n) a = of_int \<bar>sint n\<bar>"
    and "collision_free K S \<Longrightarrow> NonceOf a \<in> S \<Longrightarrow> y \<in> S \<Longrightarrow> y \<noteq> NonceOf a \<Longrightarrow>
      read_slot K (SetNonce K s a n) y = read_slot K s y"
  using write_slot [OF assms length_nonce_bytes [of n]]
  by (simp_all add: setters_as_slots getters_as_slots)

lemma SetCode_slots:
  assumes "statedb_ok s"
  shows "statedb_ok (fst (SetCode K s a c))"
    and "collision_free K S \<Longrightarrow> CodeHashOf a \<in> S \<Longrightarrow> y \<in> S \<Longrightarrow> y \<noteq> CodeHashOf a \<Longrightarrow>
      read_slot K (fst (SetCode K s a c)) y = read_slot K s y"
    and "K c \<noteq> K [] \<Longrightarrow> GetCode K D d (fst (SetCode K s a c)) a = (c, fst (SetCode K s a c))"
proof -
  have base: "base_ok (f\<lparr>code := x\<rparr>) = base_ok f" for f x by (cases "tree f") (simp_all add: base_ok_def)
  have cc: "statedb_ok q \<Longrightarrow> statedb_ok (cache_code q h c)" "getVerkleValue (cache_code q h c) = getVerkleValue q"
    for q h
    by (cases q; simp add: cache_code_def base split: option.splits)
      (cases q; simp add: cache_code_def fun_eq_iff split: option.split)
  have key: "codeHashKey K a = slotKey K (CodeHashOf a)" by (simp add: slotKey.simps)
  note w = write_slot [OF assms, where v = "hash_Bytes (K c)" and K = K and x = "CodeHashOf a"]
  show "statedb_ok (fst (SetCode K s a c))"
    using w(1) cc by (simp add: SetCode_def Let_def key)
  show "collision_free K S \<Longrightarrow> CodeHashOf a \<in> S \<Longrightarrow> y \<in> S \<Longrightarrow> y \<noteq> CodeHashOf a \<Longrightarrow>
      read_slot K (fst (SetCode K s a c)) y = read_slot K s y"
    using w(1,3) cc by (simp add: SetCode_def Let_def key read_slot_def)
  have "GetCodeHash K (fst (SetCode K s a c)) a = K c"
    using w(1,2) cc(2) by (simp add: SetCode_def Let_def key read_slot_def getters_as_slots)
  then show "K c \<noteq> K [] \<Longrightarrow> GetCode K D d (fst (SetCode K s a c)) a = (c, fst (SetCode K s a c))"
    by (simp add: GetCode_def Let_def) (simp add: SetCode_def Let_def cache_code_def)
qed

lemma GetNonce_SetNonce:
  assumes "statedb_ok s"
  shows "GetNonce K (SetNonce K s a n) a = (if unat n \<le> 2 ^ 63 then n else - n)"
proof -
  have b: "uint n < 2 ^ 64" using uint_bounded [of n] by simp
  have "odd (uint n div 2 ^ 63)" if "\<not> uint n < 2 ^ 63"
    using that b int_div_pos_eq [of "uint n" "2 ^ 63" 1 "uint n - 2 ^ 63"] by simp
  then have "sint n = (if uint n < 2 ^ 63 then uint n else uint n - 2 ^ 64)"
    using b by (simp add: sint_uint signed_take_bit_eq_take_bit_minus bit_iff_odd take_bit_eq_mod)
  then have "\<bar>sint n\<bar> = (if uint n \<le> 2 ^ 63 then uint n else 2 ^ 64 - uint n)"
    using b uint_ge_0 [of n] by (auto split: if_splits)
  moreover have "of_int (2 ^ 64 - uint n) = - n"
    using word_of_int_2p_len [where 'a = 64] by simp
  moreover have "unat n \<le> 2 ^ 63 \<longleftrightarrow> uint n \<le> 2 ^ 63" unfolding unat_eq_nat_uint nat_le_iff by simp
  ultimately show ?thesis using SetNonce_slots(2) [OF assms, of K a n] by simp
qed

subsection \<open>Properties\<close>

text \<open>C2. Merging an overlay into the parent it was made from publishes exactly its view: the
  parent afterwards is well formed and reads, under every key, what the overlay read.\<close>

theorem merge_publishes_overlay:
  assumes "statedb_ok s" "Merge s = Some par"
  shows "statedb_ok par \<and> getVerkleValue par = getVerkleValue s"
  using assms by (rule Merge_reads)

text \<open>The order in which overlays with disjoint write sets are merged into the same parent
  does not matter, which is what parallel execution of independent transactions relies on.\<close>

theorem disjoint_merges_commute:
  assumes "statedb_ok par" "statedb_ok s" "statedb_ok s'"
    and "dom (map_of (dirty (fields s))) \<inter> dom (map_of (dirty (fields s'))) = {}"
  shows "getVerkleValue (merge_into (merge_into par s) s') = getVerkleValue (merge_into (merge_into par s') s)"
  using assms by (rule merge_into_commute)

text \<open>C1. A restart restores the state: after \<open>Commit\<close> and a successful write of its batch,
  \<open>New\<close> rebuilds from disk a well-formed state that reads what the state read before the
  commit, if outside the uncommitted writes memory and disk agreed.\<close>

theorem commit_then_restart:
  assumes "leveldb_ok D" "state_table_ok D d" "statedb_ok s" "in_sync D d s"
    and "CommitState R s [] = (s', batch, root')" "db_Write D d batch = Some d'"
  shows "statedb_ok (NewState D root (Some d')) \<and>
    getVerkleValue (NewState D root (Some d')) = getVerkleValue s \<and> state_table_ok D d'"
proof -
  have w: "db_Write D d (commit_batch s) = Some d'"
    using assms(5,6) by (auto simp: CommitState_def Let_def)
  note t = commit_batch_persisted(2) [OF assms(1,3) w assms(2)]
  show ?thesis
    using NewState_reads [OF assms(1) t] commit_persisted_reads [OF assms(1,3,4) w] t by auto
qed

text \<open>C35. A balance set to zero comes back: the tree ignores the empty value that encodes zero,
  so once \<open>Commit\<close> has dropped the write buffer the running node reads the old balance again,
  while a node restarted from the committed data reads zero.\<close>

theorem zeroed_balance_returns:
  assumes "leveldb_ok D" "state_table_ok D d" "statedb_ok s" "parent s = None"
    and "tree (fields s) = Some t" "VGet t (balanceKey K a) = u256_Bytes v" "v \<noteq> 0"
    and "CommitState R (SetBalance K s a 0) [] = (s', batch, root')" "db_Write D d batch = Some d'"
  shows "GetBalance K (SetBalance K s a 0) a = 0 \<and> GetBalance K s' a = v \<and>
    GetBalance K (NewState D root (Some d')) a = 0"
proof -
  let ?k = "balanceKey K a" and ?s0 = "SetBalance K s a 0"
  have len: "length ?k = 32" by (simp add: balanceKey_def accountStem_def)
  have s0: "statedb_ok ?s0" by (rule SetBalance_slots(1) [OF assms(3)])
  have fs: "parent ?s0 = None" "tree (fields ?s0) = Some (tree_put (?k, []) t)"
      "map_of (dirty (fields ?s0)) ?k = Some []"
    using assms(4,5) by (simp_all add: SetBalance_def u256_Bytes_def setVerkleValue_def)
  have wf: "vtree_wf t" using assms(3-5) by (cases s) (simp add: base_ok_def)
  have c: "s' = clear_dirty ?s0" "db_Write D d (commit_batch ?s0) = Some d'"
    using assms(8,9) by (auto simp: CommitState_def Let_def)
  have "getVerkleValue s' ?k = u256_Bytes v"
    using clear_dirty_reads(2) [OF s0 fs(1,2)] fs(3) tree_put_ok(2) [OF wf len, of "[]"] assms(6) c(1)
    by simp
  moreover have "getVerkleValue (NewState D root (Some d')) ?k = []"
    using NewState_reads(2) [OF assms(1) commit_batch_persisted(2) [OF assms(1) s0 c(2) assms(2)]]
      commit_batch_persisted(1) [OF assms(1) s0 c(2)] fs(3) by simp
  ultimately show ?thesis
    using SetBalance_slots(2) [OF assms(3)] assms(7) by (simp add: GetBalance_def Let_def)
qed

text \<open>C39. A transfer that is covered by the sender's balance moves exactly the amount, keeps the
  sum of the two balances and touches no other slot.\<close>

theorem transfer_conserves:
  assumes "statedb_ok s" "collision_free K S" "{BalanceOf a, BalanceOf b} \<subseteq> S" "a \<noteq> b"
    and "v \<le> GetBalance K s a" "uint (GetBalance K s b) + uint v < 2 ^ 256"
    and "s' = fst (AddBalance K (fst (SubBalance K s a v)) b v)"
  shows "uint (GetBalance K s' a) = uint (GetBalance K s a) - uint v \<and>
    uint (GetBalance K s' b) = uint (GetBalance K s b) + uint v \<and>
    (\<forall>y \<in> S - {BalanceOf a, BalanceOf b}. read_slot K s' y = read_slot K s y) \<and> statedb_ok s'"
proof -
  let ?s1 = "SetBalance K s a (GetBalance K s a - v)"
  have s': "s' = SetBalance K ?s1 b (GetBalance K ?s1 b + v)"
    using assms(7) by (simp add: AddBalance_def SubBalance_def addBalance_h_def Let_def)
  note ok1 = SetBalance_slots(1) [OF assms(1), of K a "GetBalance K s a - v"]
  have fr: "BalanceOf a \<in> S" "BalanceOf b \<in> S" "BalanceOf b \<noteq> BalanceOf a" using assms(3,4) by auto
  have b1: "GetBalance K ?s1 b = GetBalance K s b"
    using SetBalance_slots(3) [OF assms(1,2) fr(1,2)] assms(4) by (simp add: getters_as_slots)
  have a': "GetBalance K s' a = GetBalance K s a - v"
    using SetBalance_slots(3) [OF ok1 assms(2) fr(2,1)] SetBalance_slots(2) [OF assms(1)] assms(4) s'
    by (simp add: getters_as_slots)
  have b': "GetBalance K s' b = GetBalance K s b + v"
    using SetBalance_slots(2) [OF ok1] b1 s' by simp
  have "read_slot K s' y = read_slot K s y" if "y \<in> S - {BalanceOf a, BalanceOf b}" for y
    using SetBalance_slots(3) [OF ok1 assms(2) fr(2), of y] SetBalance_slots(3) [OF assms(1,2) fr(1), of y]
      that s' by simp
  moreover have "uint (GetBalance K s a - v) = uint (GetBalance K s a) - uint v"
    using assms(5) by (simp add: uint_minus_simple_alt word_le_def)
  moreover have "uint (GetBalance K s b + v) = uint (GetBalance K s b) + uint v"
    using assms(6) by (simp add: uint_word_ariths)
  ultimately show ?thesis
    using a' b' SetBalance_slots(1) [OF ok1] s' by auto
qed

text \<open>A nonce reads back as written up to \<open>2 ^ 63\<close>; above it the detour through \<open>int64\<close>
  and the absolute value returns the two's complement negation instead.\<close>

theorem nonce_round_trip:
  assumes "statedb_ok s"
  shows "GetNonce K (SetNonce K s a n) a = (if unat n \<le> 2 ^ 63 then n else - n)"
  using assms by (rule GetNonce_SetNonce)

text \<open>Code set in a state is returned by that state, but an overlay made on top sees only
  code already in the database: it reads the new code hash and returns no code.\<close>

theorem code_visibility:
  assumes "statedb_ok s" "K c \<noteq> K []" "s' = fst (SetCode K s a c)"
    and "db_Get D d (key_bytes (CodeKey (K c))) = None"
  shows "GetCode K D d s' a = (c, s') \<and> GetCodeHash K (NewOverlay s') a = K c \<and>
    fst (GetCode K D d (NewOverlay s') a) = []"
proof -
  have g: "getVerkleValue (cache_code q h c) = getVerkleValue q" for q h c
    by (cases q) (simp add: cache_code_def fun_eq_iff split: option.split)
  have h: "GetCodeHash K s' a = K c"
    using write_slot(2) [OF assms(1), of "hash_Bytes (K c)" K "CodeHashOf a"] assms(3)
    by (simp add: SetCode_def Let_def getters_as_slots g slotKey.simps read_slot_def)
  then have o: "GetCodeHash K (NewOverlay s') a = K c" by (simp add: GetCodeHash_def)
  have "map_of (code (fields s')) (K c) = Some c"
    using assms(3) by (simp add: SetCode_def Let_def cache_code_def)
  moreover have "code (fields (NewOverlay s')) = []" by (simp add: NewOverlay_def empty_fields_def)
  ultimately show ?thesis using h o assms(2,4) by (simp add: GetCode_def Let_def)
qed

subsection \<open>Witnesses\<close>

text \<open>\<open>toy_hash\<close> gives different accounts different stems, and never a storage key like an account key.\<close>

lemma take_be_bytes_Suc: "take w (be_bytes (Suc w) n) = be_bytes w (n div 256)"
  by (simp add: be_bytes.simps)

lemma toy_hash_address: "unat (toy_hash (address_Bytes a)) = unat a * 65536 + 20"
proof -
  have "unat a < 2 ^ 160" using unat_address_bound [of a] by simp
  then have b: "unat a * 65536 + 20 < 2 ^ 256" "unat a < 2 ^ 221 + 1" by simp_all
  then have "toy_hash (address_Bytes a) = of_nat (unat a * 65536 + 20)"
    by (simp only: toy_hash_def nat_of_bytes_address_Bytes length_address_Bytes mod_less)
  with b(1) show ?thesis by (simp only: unsigned_of_nat take_bit_eq_mod) simp
qed

lemma accountStem_toy: "accountStem toy_hash a = be_bytes 31 (unat a * 256)"
proof -
  have "hash_Bytes h = be_bytes (Suc 31) (unat h)" for h by (simp add: hash_Bytes_def)
  moreover have "(unat a * 65536 + 20) div 256 = unat a * 256" by presburger
  ultimately show ?thesis by (simp only: accountStem_def take_be_bytes_Suc toy_hash_address)
qed

lemma accountStem_toy_inj [simp]: "accountStem toy_hash a = accountStem toy_hash b \<longleftrightarrow> a = b"
proof -
  have "unat x * 256 < 256 ^ 31" for x :: address using unat_address_bound [of x] by simp
  then show ?thesis
    by (metis accountStem_toy be_bytes_inj mult_cancel2 word_eq_iff_unsigned zero_neq_numeral)
qed

text \<open>
  A committed state in which account 7 holds 5 and account 9 holds 1 (with \<open>toy_hash\<close> for
  Keccak), the database it was committed to, and an overlay on top of it.
\<close>

definition demo_base :: statedb where
  "demo_base = clear_dirty (SetBalance toy_hash (SetBalance toy_hash (NewState mem_db 0 None) 7 5) 9 1)"

definition demo_overlay :: statedb where
  "demo_overlay = SetBalance toy_hash (NewOverlay demo_base) 7 3"

lemma NewState_None_ok: "statedb_ok (NewState D root None)"
  using vt.inv_new by (simp add: NewState_def empty_fields_def entries_ok_def base_ok_def)

lemma demo_collision_free: "collision_free toy_hash {BalanceOf 7, BalanceOf 9, NonceOf 7}"
  by (simp add: collision_free_def slotKey.simps balanceKey_def nonceKey_def)

lemma demo_parent: "parent demo_base = None" and demo_dirty: "dirty (fields demo_base) = []"
  by (simp_all add: demo_base_def clear_dirty_def SetBalance_def NewState_def)

lemma demo_tree: "\<exists>t. tree (fields demo_base) = Some t"
  by (simp add: demo_base_def clear_dirty_def SetBalance_def NewState_def setVerkleValue_def
      empty_fields_def Let_def)

lemma demo_base_ok:
  "statedb_ok demo_base"
  "getVerkleValue demo_base (balanceKey toy_hash 7) = u256_Bytes 5"
  "getVerkleValue demo_base (balanceKey toy_hash 9) = u256_Bytes 1"
proof -
  let ?s1 = "SetBalance toy_hash (NewState mem_db 0 None) 7 5" and ?K = toy_hash
  let ?s2 = "SetBalance ?K ?s1 9 1"
  note ok1 = SetBalance_slots(1) [OF NewState_None_ok, of ?K mem_db 0 7 5]
  note ok2 = SetBalance_slots(1) [OF ok1, of ?K 9 1]
  obtain t where t: "tree (fields ?s2) = Some t"
    using demo_tree by (auto simp: demo_base_def clear_dirty_def)
  have p: "parent ?s2 = None" by (simp add: SetBalance_def NewState_def)
  note cl = clear_dirty_reads [OF ok2 p t]
  show "statedb_ok demo_base" using cl(1) by (simp add: demo_base_def)
  have ne: "balanceKey ?K 7 \<noteq> balanceKey ?K 9"
    using demo_collision_free by (auto simp: collision_free_def slotKey.simps)
  have d: "map_of (dirty (fields ?s2)) (balanceKey ?K 7) = Some (u256_Bytes 5)"
      "map_of (dirty (fields ?s2)) (balanceKey ?K 9) = Some (u256_Bytes 1)"
    using ne by (simp_all add: SetBalance_def)
  show "getVerkleValue demo_base (balanceKey ?K 7) = u256_Bytes 5"
      "getVerkleValue demo_base (balanceKey ?K 9) = u256_Bytes 1"
    using cl(2) d getVerkleValue_dirty [OF d(1)] getVerkleValue_dirty [OF d(2)]
    by (simp_all add: demo_base_def)
qed

lemma demo_balances: "GetBalance toy_hash demo_base 7 = 5" "GetBalance toy_hash demo_base 9 = 1"
  by (simp_all add: GetBalance_def Let_def demo_base_ok)

lemma demo_overlay_ok: "statedb_ok demo_overlay"
  unfolding demo_overlay_def by (rule SetBalance_slots(1)) (simp add: demo_base_ok)

lemma state_table_ok_empty: "state_table_ok mem_db []"
  by (simp add: state_table_ok_def mem_db_def)

theorem merge_publishes_overlay_witness:
  "\<exists>par. Merge demo_overlay = Some par \<and> GetBalance toy_hash par 7 = 3"
proof -
  obtain par where m: "Merge demo_overlay = Some par"
    by (simp add: Merge_def demo_overlay_def SetBalance_def NewOverlay_def)
  have "GetBalance toy_hash demo_overlay 7 = 3"
    unfolding demo_overlay_def by (rule SetBalance_slots(2)) (simp add: demo_base_ok)
  with merge_publishes_overlay [OF demo_overlay_ok m] m show ?thesis by (simp add: GetBalance_def)
qed

theorem disjoint_merges_commute_witness:
  "getVerkleValue (merge_into (merge_into demo_base demo_overlay) (SetBalance toy_hash (NewOverlay demo_base) 9 4))
    = getVerkleValue (merge_into (merge_into demo_base (SetBalance toy_hash (NewOverlay demo_base) 9 4)) demo_overlay)"
proof (rule disjoint_merges_commute)
  show "statedb_ok (SetBalance toy_hash (NewOverlay demo_base) 9 4)"
    by (rule SetBalance_slots(1)) (simp add: demo_base_ok)
  show "dom (map_of (dirty (fields demo_overlay))) \<inter>
      dom (map_of (dirty (fields (SetBalance toy_hash (NewOverlay demo_base) 9 4)))) = {}"
    using demo_collision_free
    by (simp add: demo_overlay_def SetBalance_def NewOverlay_def empty_fields_def collision_free_def slotKey.simps)
qed (simp_all add: demo_base_ok demo_overlay_ok)

theorem commit_then_restart_witness:
  "\<exists>d'. GetBalance toy_hash (NewState mem_db 0 (Some d')) 7 = 8"
proof -
  let ?s = "SetBalance toy_hash (NewState mem_db 0 None) 7 8"
  have ok: "statedb_ok ?s" by (rule SetBalance_slots(1)) (rule NewState_None_ok)
  have "in_sync mem_db [] (NewState mem_db 0 None)"
    by (simp add: in_sync_def persisted_def mem_db_def NewState_def empty_fields_def vt.get_new)
  then have eq: "in_sync mem_db [] ?s"
    unfolding SetBalance_def
    by (intro in_sync_set NewState_None_ok length_u256_Bytes) (simp_all add: balanceKey_def accountStem_def)
  obtain s' batch r where c: "CommitState (\<lambda>_. 0) ?s [] = (s', batch, r)" by (metis prod_cases3)
  obtain d' where w: "db_Write mem_db [] batch = Some d'" by (simp add: mem_db_def)
  note r = commit_then_restart [OF leveldb_ok_mem state_table_ok_empty ok eq c w, of 0]
  then have "GetBalance toy_hash (NewState mem_db 0 (Some d')) 7 = GetBalance toy_hash ?s 7"
    by (simp add: GetBalance_def)
  then show ?thesis using SetBalance_slots(2) [OF NewState_None_ok] by metis
qed

theorem zeroed_balance_returns_witness:
  "\<exists>s' batch root' d'. CommitState (\<lambda>_. 0) (SetBalance toy_hash demo_base 7 0) [] = (s', batch, root') \<and>
     db_Write mem_db [] batch = Some d' \<and> GetBalance toy_hash s' 7 = 5 \<and>
     GetBalance toy_hash (NewState mem_db 0 (Some d')) 7 = 0"
proof -
  obtain t where t: "tree (fields demo_base) = Some t" using demo_tree by blast
  have v: "VGet t (balanceKey toy_hash 7) = u256_Bytes 5"
    using demo_base_ok(2) t demo_parent demo_dirty
    by (metis getVerkleValue.simps map_of.simps(1) option.case statedb.collapse)
  obtain s' batch r where c: "CommitState (\<lambda>_. 0) (SetBalance toy_hash demo_base 7 0) [] = (s', batch, r)"
    by (metis prod_cases3)
  obtain d' where w: "db_Write mem_db [] batch = Some d'" by (simp add: mem_db_def)
  show ?thesis
    using zeroed_balance_returns [OF leveldb_ok_mem state_table_ok_empty demo_base_ok(1) demo_parent t v _ c w]
      c w by auto
qed

theorem transfer_conserves_witness:
  "uint (GetBalance toy_hash (fst (AddBalance toy_hash (fst (SubBalance toy_hash demo_base 7 2)) 9 2)) 7) = 3"
  using transfer_conserves [OF demo_base_ok(1) demo_collision_free, of 7 9 2]
  by (simp add: demo_balances)

theorem nonce_round_trip_witness:
  "GetNonce toy_hash (SetNonce toy_hash demo_base 7 41) 7 = 41 \<and>
   GetNonce toy_hash (SetNonce toy_hash demo_base 7 0xFFFFFFFFFFFFFFFF) 7 = 1"
  using nonce_round_trip [OF demo_base_ok(1), of toy_hash 7 41]
    nonce_round_trip [OF demo_base_ok(1), of toy_hash 7 "0xFFFFFFFFFFFFFFFF"]
  by simp

theorem code_visibility_witness:
  "fst (GetCode toy_hash mem_db [] (fst (SetCode toy_hash demo_base 7 [96])) 7) = [96] \<and>
   fst (GetCode toy_hash mem_db [] (NewOverlay (fst (SetCode toy_hash demo_base 7 [96]))) 7) = []"
proof -
  have "toy_hash [96] \<noteq> toy_hash []" by (simp add: toy_hash_def nat_of_bytes_def)
  moreover have "db_Get mem_db [] k = None" for k by (simp add: mem_db_def)
  ultimately show ?thesis
    using code_visibility [OF demo_base_ok(1), of toy_hash "[96]" _ 7 mem_db "[]"] by simp
qed

end
