(* ===== verification/Scheduler.thy ===== *)
theory Scheduler
  imports Types
begin

text \<open>
  \<open>core/scheduler.go\<close>: transactions are grouped into waves of transactions that share
  neither sender nor recipient.

  Senders are recovered with the crypto parameter for the chain id of the configuration; a
  failed recovery gives the zero address, as the code drops the error.  The locale
  \<open>wave_scheduler\<close> is what the executor relies on: every transaction is in exactly one
  wave, and no two of a wave touch a common address.  It is interpreted on \<open>schedule\<close>.
  The order of conflicting transactions is not among the promises, and the last theorem shows why.
\<close>

definition senderOf :: "crypto \<Rightarrow> int \<Rightarrow> transaction \<Rightarrow> address" where
  "senderOf C cid tx = (case Sender C cid tx of None \<Rightarrow> 0 | Some a \<Rightarrow> a)"

text \<open>One pass over the queue: the current wave and the next queue.\<close>

fun wave_pass ::
    "crypto \<Rightarrow> int \<Rightarrow> address list \<Rightarrow> transaction list \<Rightarrow> transaction list \<times> transaction list" where
  "wave_pass C cid touched [] = ([], [])"
| "wave_pass C cid touched (tx # queue) =
     (let sender = senderOf C cid tx in
      if sender \<in> set touched \<or> (case tx_To tx of None \<Rightarrow> False | Some r \<Rightarrow> r \<in> set touched)
      then (case wave_pass C cid touched queue of (wave, nextQueue) \<Rightarrow> (wave, tx # nextQueue))
      else (case wave_pass C cid
                   ((case tx_To tx of None \<Rightarrow> [] | Some r \<Rightarrow> [r]) @ sender # touched) queue of
              (wave, nextQueue) \<Rightarrow> (tx # wave, nextQueue)))"

lemma wave_pass_length:
  "wave_pass C cid touched queue = (wave, nextQueue) \<Longrightarrow> length wave + length nextQueue = length queue"
  by (induction C cid touched queue arbitrary: wave nextQueue rule: wave_pass.induct)
    (auto simp: Let_def split: prod.splits if_splits)

text \<open>The loop; the branch for an empty wave forces one transaction through.\<close>

function schedule_loop :: "crypto \<Rightarrow> int \<Rightarrow> transaction list \<Rightarrow> transaction list list" where
  "schedule_loop C cid queue =
     (if queue = [] then []
      else case wave_pass C cid [] queue of
             (currentWave, nextQueue) \<Rightarrow>
               (if currentWave = [] then
                  (if nextQueue = [] then []
                   else [hd nextQueue] # schedule_loop C cid (tl nextQueue))
                else currentWave # schedule_loop C cid nextQueue))"
  by auto
termination
proof (relation "measure (\<lambda>(C, cid, queue). length queue)")
  show "wf (measure (\<lambda>(C :: crypto, cid :: int, queue). length queue))" by simp
qed (auto dest!: sym [of _ "wave_pass _ _ _ _"] wave_pass_length simp: length_greater_0_conv [symmetric]
    simp del: length_greater_0_conv)

definition schedule :: "crypto \<Rightarrow> int \<Rightarrow> transaction list \<Rightarrow> transaction list list" where
  "schedule C cid txs = schedule_loop C cid txs"

declare schedule_loop.simps [simp del]

subsection \<open>What the executor relies on\<close>

definition touches :: "crypto \<Rightarrow> int \<Rightarrow> transaction \<Rightarrow> address set" where
  "touches C cid tx = insert (senderOf C cid tx) (set_option (tx_To tx))"

definition independent :: "crypto \<Rightarrow> int \<Rightarrow> transaction list \<Rightarrow> bool" where
  "independent C cid wave \<longleftrightarrow>
     (\<forall>i j. i < j \<longrightarrow> j < length wave \<longrightarrow> touches C cid (wave ! i) \<inter> touches C cid (wave ! j) = {})"

locale wave_scheduler =
  fixes touch :: "'t \<Rightarrow> 'a set" and sched :: "'t list \<Rightarrow> 't list list"
  assumes each_once: "mset (concat (sched txs)) = mset txs"
    and waves_nonempty: "wave \<in> set (sched txs) \<Longrightarrow> wave \<noteq> []"
    and waves_independent: "wave \<in> set (sched txs) \<Longrightarrow> i < j \<Longrightarrow> j < length wave \<Longrightarrow>
      touch (wave ! i) \<inter> touch (wave ! j) = {}"
begin

lemma total_length: "sum_list (map length (sched txs)) = length txs"
  by (metis each_once length_concat size_mset)

lemma wave_count: "length (sched txs) \<le> length txs"
proof -
  have "length ws \<le> sum_list (map length ws)" if "\<forall>w \<in> set ws. w \<noteq> []" for ws :: "'t list list"
    using that
  proof (induction ws)
    case (Cons w ws)
    then show ?case by (cases w) auto
  qed simp
  then show ?thesis using waves_nonempty total_length by metis
qed

text \<open>Transactions of one wave that touch something are different.\<close>

lemma wave_distinct:
  assumes "wave \<in> set (sched txs)" "\<forall>t \<in> set wave. touch t \<noteq> {}"
  shows "distinct wave"
proof -
  have "wave ! i \<noteq> wave ! j" if "i < j" "j < length wave" for i j
    using waves_independent [OF assms(1) that] assms(2) that by fastforce
  then show ?thesis by (metis distinct_conv_nth linorder_neqE_nat)
qed

end

text \<open>The pass in terms of the touched addresses.\<close>

definition touch_list :: "crypto \<Rightarrow> int \<Rightarrow> transaction \<Rightarrow> address list" where
  "touch_list C cid tx = (case tx_To tx of None \<Rightarrow> [] | Some r \<Rightarrow> [r]) @ [senderOf C cid tx]"

lemma set_touch_list [simp]: "set (touch_list C cid tx) = touches C cid tx"
  by (auto simp: touch_list_def touches_def split: option.splits)

lemma wave_pass_Cons:
  "wave_pass C cid touched (tx # queue) =
     (if touches C cid tx \<inter> set touched = {}
      then apfst ((#) tx) (wave_pass C cid (touch_list C cid tx @ touched) queue)
      else apsnd ((#) tx) (wave_pass C cid touched queue))"
  by (auto simp: Let_def touches_def touch_list_def split: option.splits prod.splits)

declare wave_pass.simps(2) [simp del]

lemma wave_pass_mset:
  "wave_pass C cid touched queue = (wave, nextQueue) \<Longrightarrow> mset wave + mset nextQueue = mset queue"
  by (induction queue arbitrary: touched wave nextQueue)
    (auto simp: wave_pass_Cons apfst_def apsnd_def map_prod_def split: prod.splits if_splits)

lemma wave_pass_first: "queue \<noteq> [] \<Longrightarrow> fst (wave_pass C cid [] queue) \<noteq> []"
  by (cases queue) (auto simp: wave_pass_Cons)

lemma wave_pass_untouched:
  "tx \<in> set (fst (wave_pass C cid touched queue)) \<Longrightarrow> touches C cid tx \<inter> set touched = {}"
  by (induction queue arbitrary: touched) (fastforce simp: wave_pass_Cons split: if_splits)+

lemma independent_Cons:
  "independent C cid (tx # wave) \<longleftrightarrow>
     (\<forall>t \<in> set wave. touches C cid tx \<inter> touches C cid t = {}) \<and> independent C cid wave"
proof
  assume ind: "independent C cid (tx # wave)"
  have "touches C cid tx \<inter> touches C cid (wave ! j) = {}" if "j < length wave" for j
    using ind that unfolding independent_def by (metis nth_Cons_0 nth_Cons_Suc length_Cons Suc_less_eq zero_less_Suc)
  moreover have "independent C cid wave"
    using ind unfolding independent_def by (metis nth_Cons_Suc length_Cons Suc_less_eq)
  ultimately show "(\<forall>t \<in> set wave. touches C cid tx \<inter> touches C cid t = {}) \<and> independent C cid wave"
    by (metis in_set_conv_nth)
qed (auto simp: independent_def less_Suc_eq_0_disj nth_Cons split: nat.splits)

lemma wave_pass_independent: "independent C cid (fst (wave_pass C cid touched queue))"
proof (induction queue arbitrary: touched)
  case Nil
  then show ?case by (simp add: independent_def)
next
  case (Cons tx queue)
  then show ?case
    using wave_pass_untouched [of _ C cid "touch_list C cid tx @ touched" queue]
    by (auto simp: wave_pass_Cons independent_Cons)
qed

lemma schedule_waves:
  "mset (concat (schedule_loop C cid queue)) = mset queue \<and>
   (\<forall>wave \<in> set (schedule_loop C cid queue). wave \<noteq> [] \<and> independent C cid wave)"
proof (induction C cid queue rule: schedule_loop.induct)
  case (1 C cid queue)
  show ?case
  proof (cases "queue = []")
    case False
    obtain wave nextQueue where p: "wave_pass C cid [] queue = (wave, nextQueue)" by (metis prod.exhaust)
    have w: "wave \<noteq> []" "independent C cid wave" "mset queue = mset wave + mset nextQueue"
      using wave_pass_first [OF False, of C cid] wave_pass_independent [of C cid "[]" queue]
        wave_pass_mset [OF p] p by simp_all
    with 1(2) [OF False p [symmetric] w(1)] p False show ?thesis
      by (subst (1 2) schedule_loop.simps) simp
  qed (simp add: schedule_loop.simps)
qed

interpretation waves: wave_scheduler "touches C cid" "schedule C cid" for C cid
  using schedule_waves [of C cid]
  by unfold_locales (auto simp: schedule_def independent_def)

lemma touches_nonempty [simp]: "touches C cid tx \<noteq> {}"
  by (simp add: touches_def)

text \<open>C38. Scheduling loses and repeats nothing: the waves together hold exactly the transactions
  of the block, none is empty, so there are at most as many waves as transactions.\<close>

theorem schedule_complete:
  "mset (concat (schedule C cid txs)) = mset txs \<and> [] \<notin> set (schedule C cid txs) \<and>
   length (schedule C cid txs) \<le> length txs"
  using waves.each_once waves.waves_nonempty waves.wave_count by blast

text \<open>C27. Waves are conflict free: two transactions of one wave share neither sender nor
  recipient, so a wave holds at most one transaction of each sender.\<close>

theorem schedule_conflict_free:
  assumes "wave \<in> set (schedule C cid txs)" "i < j" "j < length wave"
  shows "touches C cid (wave ! i) \<inter> touches C cid (wave ! j) = {} \<and> wave ! i \<noteq> wave ! j"
  using waves.waves_independent [OF assms] waves.wave_distinct [OF assms(1)] assms(2,3)
  by (simp add: nth_eq_iff_index_eq)

subsection \<open>Order\<close>

text \<open>The position of the first wave that holds a transaction.\<close>

fun wave_of :: "transaction \<Rightarrow> transaction list list \<Rightarrow> nat" where
  "wave_of tx [] = 0"
| "wave_of tx (w # ws) = (if tx \<in> set w then 0 else Suc (wave_of tx ws))"

definition demo_tx :: "uint64 \<Rightarrow> int \<Rightarrow> address \<Rightarrow> transaction" where
  "demo_tx nonce sender to = \<lparr>tx_Type = 0, tx_ChainId = 99999, tx_Nonce = nonce, tx_GasPrice = 1,
     tx_GasFeeCap = 1, tx_GasTipCap = 1, tx_Gas = 21000, tx_To = Some to, tx_Value = 0, tx_Data = [],
     tx_AccessList = [], tx_Hash = of_int sender * 1000 + ucast nonce, tx_Size = 100,
     tx_V = 27, tx_R = sender, tx_S = 1, tx_BlobHashes = None, tx_BlobGasFeeCap = None\<rparr>"

text \<open>Waves may reorder conflicting transactions, even of one sender: a transaction that is
  deferred does not reserve its addresses, so with a first transfer to account 9, sender 5's
  transaction with nonce 0 (also to 9) is deferred while its transaction with nonce 1 (to 8) is
  placed in the first wave and runs before it.\<close>

theorem schedule_reorders_sender:
  "schedule toy_crypto 99999 [demo_tx 0 4 9, demo_tx 0 5 9, demo_tx 1 5 8]
     = [[demo_tx 0 4 9, demo_tx 1 5 8], [demo_tx 0 5 9]] \<and>
   wave_of (demo_tx 1 5 8) (schedule toy_crypto 99999 [demo_tx 0 4 9, demo_tx 0 5 9, demo_tx 1 5 8])
     < wave_of (demo_tx 0 5 9) (schedule toy_crypto 99999 [demo_tx 0 4 9, demo_tx 0 5 9, demo_tx 1 5 8])"
proof -
  have "schedule toy_crypto 99999 [demo_tx 0 4 9, demo_tx 0 5 9, demo_tx 1 5 8]
     = [[demo_tx 0 4 9, demo_tx 1 5 8], [demo_tx 0 5 9]]"
    by (simp add: schedule_def schedule_loop.simps wave_pass_Cons touches_def touch_list_def
        senderOf_def Sender_def toy_crypto_def demo_tx_def)
  moreover have "demo_tx 0 5 9 \<noteq> demo_tx 0 4 9" "demo_tx 0 5 9 \<noteq> demo_tx 1 5 8"
    by (simp_all add: demo_tx_def)
  ultimately show ?thesis by simp
qed

theorem schedule_conflict_free_witness:
  "touches toy_crypto 99999 (demo_tx 0 4 9) \<inter> touches toy_crypto 99999 (demo_tx 1 5 8) = {}"
proof -
  have "[demo_tx 0 4 9, demo_tx 1 5 8] \<in> set (schedule toy_crypto 99999 [demo_tx 0 4 9, demo_tx 1 5 8])"
    by (simp add: schedule_def schedule_loop.simps wave_pass_Cons touches_def touch_list_def
        senderOf_def Sender_def toy_crypto_def demo_tx_def)
  from schedule_conflict_free [OF this, of 0 1] show ?thesis by simp
qed

end
