(* ===== verification/Blockchain.thy ===== *)
theory Blockchain
  imports Genesis StateDB Scheduler
begin

text \<open>
  \<open>core/blockchain.go\<close>: the chain on top of the database, and the base fee.

  A \<open>blockchain\<close> is its configuration, its head and the database it owns.  \<open>None\<close> as the
  result of \<open>NewBlockchain\<close> and \<open>CalcBaseFee\<close> is a run-time panic.  The parameters are
  the crypto record, the JSON codec, the database and the root commitment \<open>R\<close> of a tree.

  The lemmas: what is added can be read back (\<open>chain_ok\<close> is the invariant that lets a
  restarted node find its head), the head only moves forward, the state a fresh node starts
  from holds the genesis allocation, and the step of the base fee is bounded.
\<close>

record 'd blockchain =
  bc_db :: 'd
  bc_config :: NetworkConfig
  currentBlock :: "block option"

datatype chain_error = ErrBlockKnown | ErrDB db_error

text \<open>The writes of \<open>AddBlock\<close> up to the first error.\<close>

definition writeBlockData ::
    "crypto \<Rightarrow> codec \<Rightarrow> 'd leveldb \<Rightarrow> 'd \<Rightarrow> block \<Rightarrow> receipt list option \<Rightarrow> 'd \<times> db_error option" where
  "writeBlockData C J D d b receipts =
     (case WriteBlock C J D d b of
        (d1, Some err) \<Rightarrow> (d1, Some err)
      | (d1, None) \<Rightarrow>
          (case (case receipts of None \<Rightarrow> (d1, None) | Some rs \<Rightarrow> WriteReceipts C J D d1 b rs) of
             (d2, Some err) \<Rightarrow> (d2, Some err)
           | (d2, None) \<Rightarrow> WriteTxLookupEntries C J D d2 b))"

definition AddBlock ::
    "crypto \<Rightarrow> codec \<Rightarrow> 'd leveldb \<Rightarrow> 'd blockchain \<Rightarrow> block \<Rightarrow> receipt list option
     \<Rightarrow> 'd blockchain \<times> chain_error option" where
  "AddBlock C J D bc b receipts =
     (let h = block_Hash C b in
      if ReadBlock J D (bc_db bc) h \<noteq> None then (bc, Some ErrBlockKnown)
      else case writeBlockData C J D (bc_db bc) b receipts of
             (d, Some err) \<Rightarrow> (bc\<lparr>bc_db := d\<rparr>, Some (ErrDB err))
           | (d, None) \<Rightarrow>
               (let newer = (case currentBlock bc of
                               None \<Rightarrow> True
                             | Some cur \<Rightarrow> Number (Header b) > Number (Header cur));
                    d1 = (if newer then fst (WriteHeadBlockHash D d h) else d);
                    d2 = fst (WriteCanonicalHash D d1 (big_Uint64 (Number (Header b))) h)
                in (bc\<lparr>bc_db := d2, currentBlock := (if newer then Some b else currentBlock bc)\<rparr>, None)))"

definition genesis_state :: "crypto \<Rightarrow> 'd leveldb \<Rightarrow> NetworkConfig \<Rightarrow> 'd \<Rightarrow> statedb" where
  "genesis_state C D cfg d =
     fold (\<lambda>(addr, balance) s. fst (AddBalance (Keccak C) s addr balance)) (GenesisAlloc cfg)
       (NewState D 0 (Some d))"

definition NewBlockchain ::
    "crypto \<Rightarrow> codec \<Rightarrow> 'd leveldb \<Rightarrow> (vtree \<Rightarrow> hash) \<Rightarrow> 'd \<Rightarrow> NetworkConfig \<Rightarrow> 'd blockchain option" where
  "NewBlockchain C J D R d cfg =
     (let bc = \<lparr>bc_db = d, bc_config = cfg, currentBlock = None\<rparr>;
          headHash = ReadHeadBlockHash D d in
      if headHash = 0 then
        (case CommitState R (genesis_state C D cfg d) [] of
           (s', batch, root) \<Rightarrow>
             (case db_Write D d batch of
                None \<Rightarrow> None
              | Some d1 \<Rightarrow>
                  (let genesis = NewBlock ((Header (GenerateGenesisBlock cfg))\<lparr>VerkleRoot := root\<rparr>) []
                   in case AddBlock C J D (bc\<lparr>bc_db := d1\<rparr>) genesis None of
                        (bc1, Some err) \<Rightarrow> Some (bc1\<lparr>currentBlock := Some genesis\<rparr>)
                      | (bc1, None) \<Rightarrow>
                          Some (bc1\<lparr>bc_db := fst (WriteHeadBlockHash D (bc_db bc1) (block_Hash C genesis)),
                                     currentBlock := Some genesis\<rparr>))))
      else
        (case ReadBlock J D d headHash of
           None \<Rightarrow> None
         | Some b \<Rightarrow> Some (bc\<lparr>currentBlock := Some b\<rparr>)))"

definition GetBlockByHash :: "codec \<Rightarrow> 'd leveldb \<Rightarrow> 'd blockchain \<Rightarrow> hash \<Rightarrow> block option" where
  "GetBlockByHash J D bc h = ReadBlock J D (bc_db bc) h"

definition GetBlockByNumber :: "codec \<Rightarrow> 'd leveldb \<Rightarrow> 'd blockchain \<Rightarrow> uint64 \<Rightarrow> block option" where
  "GetBlockByNumber J D bc number =
     (let h = ReadCanonicalHash D (bc_db bc) number
      in if h = 0 then None else ReadBlock J D (bc_db bc) h)"

definition GenesisBlock :: "codec \<Rightarrow> 'd leveldb \<Rightarrow> 'd blockchain \<Rightarrow> block option" where
  "GenesisBlock J D bc = GetBlockByNumber J D bc 0"

definition StateAt :: "'d leveldb \<Rightarrow> 'd blockchain \<Rightarrow> hash \<Rightarrow> statedb" where
  "StateAt D bc root = NewState D root (Some (bc_db bc))"

subsection \<open>The base fee\<close>

definition InitialBaseFee :: int where
  "InitialBaseFee = 1000000000"

text \<open>\<open>LondonBlock\<close> is set in every configuration of the program; a nil one panics, as does a gas target of 0.\<close>

definition CalcBaseFee :: "ChainConfig \<Rightarrow> header \<Rightarrow> int option" where
  "CalcBaseFee config par =
     (case LondonBlock config of
        None \<Rightarrow> None
      | Some london \<Rightarrow>
          if big_Uint64 (Number par) < big_Uint64 london then Some InitialBaseFee
          else case BaseFee par of
                 None \<Rightarrow> Some InitialBaseFee
               | Some fee \<Rightarrow>
                   (let parentGasTarget = GasLimit par div 2 in
                    if GasUsed par = parentGasTarget then Some fee
                    else if GasUsed par > parentGasTarget then
                      (let num = fee * uint (GasUsed par - parentGasTarget);
                           den = uint parentGasTarget * 8
                       in if den = 0 then None
                          else (let delta = num div den
                                in Some (fee + (if delta < 1 then 1 else delta))))
                    else
                      (let num = fee * uint (parentGasTarget - GasUsed par);
                           den = uint parentGasTarget * 8
                       in if den = 0 then None
                          else (let nextBaseFee = fee - num div den
                                in Some (if nextBaseFee < 1000000000 then 1000000000 else nextBaseFee)))))"

lemma uint_div2: "uint (x div 2 :: uint64) = uint x div 2"
  by (simp add: uint_div)

lemma fee_share:
  assumes "0 \<le> f" "0 \<le> x" "x \<le> y" "0 < (y :: int)"
  shows "0 \<le> f * x div (y * 8)" "f * x div (y * 8) \<le> f div 8"
proof -
  show "0 \<le> f * x div (y * 8)" using assms by (simp add: pos_imp_zdiv_nonneg_iff)
  have "f * x div (y * 8) \<le> f * y div (y * 8)"
    using assms by (intro zdiv_mono1 mult_left_mono) auto
  also have "f * y div (y * 8) = f div 8" using assms by (metis div_mult_mult2 less_irrefl mult.commute)
  finally show "f * x div (y * 8) \<le> f div 8" .
qed

text \<open>C40. The base fee follows the gas used, in bounded steps: from a fee at or above the floor of
  1 Gwei, it stays at the parent's fee when the parent used exactly its target, rises by at
  least 1 and at most the larger of 1 and an eighth when it used more (up to twice the
  target), and falls by at most an eighth, never under the floor, when it used less.\<close>

theorem base_fee_step:
  assumes "LondonBlock config = Some 0" "BaseFee par = Some f" "1000000000 \<le> f"
    and "target = GasLimit par div 2" "0 < target" "uint (GasUsed par) \<le> 2 * uint target"
  shows "\<exists>f'. CalcBaseFee config par = Some f' \<and> 1000000000 \<le> f' \<and>
    (GasUsed par = target \<longrightarrow> f' = f) \<and>
    (target < GasUsed par \<longrightarrow> f + 1 \<le> f' \<and> f' \<le> f + max 1 (f div 8)) \<and>
    (GasUsed par < target \<longrightarrow> f - f div 8 \<le> f' \<and> f' \<le> f)"
proof -
  have t: "0 < uint target" using assms(5) by (simp add: word_less_def)
  consider "GasUsed par = target" | "target < GasUsed par" | "GasUsed par < target" by (metis linorder_neqE)
  then show ?thesis
  proof cases
    case 1
    then show ?thesis using assms by (simp add: CalcBaseFee_def big_Uint64_def Let_def)
  next
    case 2
    then have x: "uint (GasUsed par - target) = uint (GasUsed par) - uint target"
      by (metis uint_minus_simple_alt less_imp_le)
    have "0 \<le> f * uint (GasUsed par - target) div (uint target * 8)"
        "f * uint (GasUsed par - target) div (uint target * 8) \<le> f div 8"
      using fee_share [of f "uint (GasUsed par - target)" "uint target"] assms(3,6) t x 2
      by (auto simp: word_less_def)
    then show ?thesis using 2 assms t by (auto simp: CalcBaseFee_def big_Uint64_def Let_def)
  next
    case 3
    then have x: "uint (target - GasUsed par) = uint target - uint (GasUsed par)"
      by (metis uint_minus_simple_alt less_imp_le)
    have "0 \<le> f * uint (target - GasUsed par) div (uint target * 8)"
        "f * uint (target - GasUsed par) div (uint target * 8) \<le> f div 8"
      using fee_share [of f "uint (target - GasUsed par)" "uint target"] assms(3) t x 3
      by (auto simp: word_less_def)
    then show ?thesis using 3 assms t by (auto simp: CalcBaseFee_def big_Uint64_def Let_def)
  qed
qed

subsection \<open>Adding and finding blocks\<close>

text \<open>The database accepts every write.\<close>

definition db_writable :: "'d leveldb \<Rightarrow> bool" where
  "db_writable D \<longleftrightarrow> (\<forall>d k v. db_Put D d k v \<noteq> None) \<and> (\<forall>d b. db_Write D d b \<noteq> None)"

lemma dput_writable: "db_writable D \<Longrightarrow> snd (dput D d k v) = None"
  by (auto simp: db_writable_def dput_def split: option.splits)

lemma head_write: "leveldb_ok D \<Longrightarrow> db_writable D \<Longrightarrow>
    db_Get D (fst (WriteHeadBlockHash D d h)) = (db_Get D d)(key_bytes HeadBlockKey \<mapsto> hash_Bytes h)"
  using dput_get dput_writable unfolding WriteHeadBlockHash_def by (metis prod.collapse)

lemma canonical_write: "leveldb_ok D \<Longrightarrow> db_writable D \<Longrightarrow>
    db_Get D (fst (WriteCanonicalHash D d n h)) = (db_Get D d)(key_bytes (CanonicalKey n) \<mapsto> hash_Bytes h)"
  using dput_get dput_writable unfolding WriteCanonicalHash_def by (metis prod.collapse)

lemma writeBlockData_keys:
  assumes "leveldb_ok D" "writeBlockData C J D d b receipts = (d', e)"
    and "k \<noteq> BlockKey (block_Hash C b)" "k \<noteq> ReceiptsKey (block_Hash C b)" "\<forall>h. k \<noteq> TxLookupKey h"
  shows "db_Get D d' (key_bytes k) = db_Get D d (key_bytes k)"
proof -
  have "\<not> same_bytes k (BlockKey h)" if "k \<noteq> BlockKey h" for h using that by (cases k) auto
  moreover have "\<not> same_bytes k (ReceiptsKey h)" if "k \<noteq> ReceiptsKey h" for h using that by (cases k) auto
  ultimately show ?thesis
    using assms writer_keys(1) [OF assms(1), of C J] writer_keys(2) [OF assms(1), of C J]
      writeEntriesFrom_keys [OF assms(1), of C J _ b 0 "Transactions b"]
    by (auto simp: writeBlockData_def WriteTxLookupEntries_def split: prod.splits option.splits)
qed

lemma writeBlockData_block:
  assumes "leveldb_ok D" "codec_ok J" "writeBlockData C J D d b receipts = (d', None)"
  shows "ReadBlock J D d' (block_Hash C b) = Some b"
    and "receipts = Some rs \<Longrightarrow> ReadReceipts J D d' (block_Hash C b) = Some rs"
    and "distinct (map tx_Hash (Transactions b)) \<Longrightarrow> i < length (Transactions b) \<Longrightarrow>
      ReadTxLookupEntry J D d' (tx_Hash (Transactions b ! i))
        = Some \<lparr>e_BlockHash = block_Hash C b, e_BlockIndex = big_Uint64 (Number (Header b)), e_TxIndex = of_nat i\<rparr>"
proof -
  obtain d1 d2 where w: "WriteBlock C J D d b = (d1, None)"
      "(case receipts of None \<Rightarrow> (d1, None) | Some rs \<Rightarrow> WriteReceipts C J D d1 b rs) = (d2, None)"
      "writeEntriesFrom C J D d2 b 0 (Transactions b) = (d', None)"
    using assms(3) by (auto simp: writeBlockData_def WriteTxLookupEntries_def split: prod.splits option.splits)
  have k2: "db_Get D d2 (key_bytes (BlockKey h)) = db_Get D d1 (key_bytes (BlockKey h))" for h
    using w(2) writer_keys(2) [OF assms(1)] by (auto split: option.splits)
  have k3: "db_Get D d' (key_bytes k) = db_Get D d2 (key_bytes k)" if "\<forall>h. k \<noteq> TxLookupKey h" for k
    using writeEntriesFrom_keys [OF assms(1) w(3)] that by blast
  show "ReadBlock J D d' (block_Hash C b) = Some b"
    using ReadBlock_WriteBlock [OF assms(1,2) w(1)] k2 k3 [of "BlockKey (block_Hash C b)"]
    by (simp add: ReadBlock_def)
  show "ReadReceipts J D d' (block_Hash C b) = Some rs" if "receipts = Some rs"
    using ReadReceipts_WriteReceipts [OF assms(1,2), of C d1 b rs d2] w(2) that
      k3 [of "ReceiptsKey (block_Hash C b)"] by (simp add: ReadReceipts_def)
  show "ReadTxLookupEntry J D d' (tx_Hash (Transactions b ! i))
        = Some \<lparr>e_BlockHash = block_Hash C b, e_BlockIndex = big_Uint64 (Number (Header b)), e_TxIndex = of_nat i\<rparr>"
    if "distinct (map tx_Hash (Transactions b))" "i < length (Transactions b)"
    using writeEntriesFrom_lookup [OF assms(1,2) w(3) that] by simp
qed

text \<open>An addition that succeeds, spelled out.\<close>

lemma AddBlock_None:
  assumes "AddBlock C J D bc b receipts = (bc', None)"
  obtains d newer where "ReadBlock J D (bc_db bc) (block_Hash C b) = None"
    "writeBlockData C J D (bc_db bc) b receipts = (d, None)"
    "newer = (case currentBlock bc of None \<Rightarrow> True | Some cur \<Rightarrow> Number (Header b) > Number (Header cur))"
    "bc' = bc\<lparr>bc_db := fst (WriteCanonicalHash D (if newer then fst (WriteHeadBlockHash D d (block_Hash C b)) else d)
                (big_Uint64 (Number (Header b))) (block_Hash C b)),
              currentBlock := (if newer then Some b else currentBlock bc)\<rparr>"
  using assms by (auto simp: AddBlock_def Let_def split: if_splits prod.splits option.splits)

lemma AddBlock_not_newer:
  assumes "AddBlock C J D bc b receipts = (bc', None)" "currentBlock bc = Some cur"
    and "Number (Header b) \<le> Number (Header cur)"
  shows "currentBlock bc' = Some cur"
  by (rule AddBlock_None [OF assms(1)]) (use assms(2,3) in simp)

lemma AddBlock_db:
  assumes "leveldb_ok D" "db_writable D" "AddBlock C J D bc b receipts = (bc', None)"
  obtains d where "writeBlockData C J D (bc_db bc) b receipts = (d, None)"
    "\<And>k. k \<noteq> HeadBlockKey \<Longrightarrow> \<forall>n. k \<noteq> CanonicalKey n \<Longrightarrow> db_Get D (bc_db bc') (key_bytes k) = db_Get D d (key_bytes k)"
    "db_Get D (bc_db bc') (key_bytes (CanonicalKey (big_Uint64 (Number (Header b))))) = Some (hash_Bytes (block_Hash C b))"
proof -
  obtain d newer where d: "writeBlockData C J D (bc_db bc) b receipts = (d, None)"
    "bc' = bc\<lparr>bc_db := fst (WriteCanonicalHash D (if newer then fst (WriteHeadBlockHash D d (block_Hash C b)) else d)
                (big_Uint64 (Number (Header b))) (block_Hash C b)),
              currentBlock := (if newer then Some b else currentBlock bc)\<rparr>"
    using AddBlock_None [OF assms(3)] by metis
  have "db_Get D (bc_db bc') (key_bytes k) = db_Get D d (key_bytes k)"
    if "k \<noteq> HeadBlockKey" "\<forall>n. k \<noteq> CanonicalKey n" for k
  proof -
    have "\<not> same_bytes k HeadBlockKey" "\<not> same_bytes k (CanonicalKey n)" for n
      using that by (cases k; simp)+
    then show ?thesis using d(2) by (simp add: canonical_write [OF assms(1,2)] head_write [OF assms(1,2)])
  qed
  with d show ?thesis by (intro that [of d]) (simp_all add: canonical_write [OF assms(1,2)])
qed

text \<open>What a successful addition leaves in the tables of the chain.\<close>

lemma AddBlock_reads:
  assumes "leveldb_ok D" "db_writable D" "codec_ok J" "AddBlock C J D bc b ro = (bc', None)"
  shows "ReadBlock J D (bc_db bc) (block_Hash C b) = None"
    and "ReadBlock J D (bc_db bc') h = (if h = block_Hash C b then Some b else ReadBlock J D (bc_db bc) h)"
    and "k \<noteq> eadBlock \<Longrightarrow> ReadCanonicalHash D (bc_db bc') k =
      (if k = big_Uint64 (Number (Header b)) then block_Hash C b else ReadCanonicalHash D (bc_db bc) k)"
    and "ro = Some rs \<Longrightarrow> ReadReceipts J D (bc_db bc') (block_Hash C b) = Some rs"
    and "distinct (map tx_Hash (Transactions b)) \<Longrightarrow> i < length (Transactions b) \<Longrightarrow>
      ReadTxLookupEntry J D (bc_db bc') (tx_Hash (Transactions b ! i))
        = Some \<lparr>e_BlockHash = block_Hash C b, e_BlockIndex = big_Uint64 (Number (Header b)), e_TxIndex = of_nat i\<rparr>"
proof -
  obtain d newer where d: "ReadBlock J D (bc_db bc) (block_Hash C b) = None"
    "writeBlockData C J D (bc_db bc) b ro = (d, None)"
    "bc' = bc\<lparr>bc_db := fst (WriteCanonicalHash D (if newer then fst (WriteHeadBlockHash D d (block_Hash C b)) else d)
                (big_Uint64 (Number (Header b))) (block_Hash C b)),
              currentBlock := (if newer then Some b else currentBlock bc)\<rparr>"
    using AddBlock_None [OF assms(4)] by metis
  have g: "db_Get D (bc_db bc') (key_bytes (BlockKey h)) = db_Get D d (key_bytes (BlockKey h))"
      "db_Get D (bc_db bc') (key_bytes (ReceiptsKey h)) = db_Get D d (key_bytes (ReceiptsKey h))"
      "db_Get D (bc_db bc') (key_bytes (TxLookupKey h)) = db_Get D d (key_bytes (TxLookupKey h))" for h
    using d(3) by (simp_all add: canonical_write [OF assms(1,2)] head_write [OF assms(1,2)])
  have c: "db_Get D (bc_db bc') (key_bytes (CanonicalKey k)) = (if k = big_Uint64 (Number (Header b))
      then Some (hash_Bytes (block_Hash C b)) else db_Get D d (key_bytes (CanonicalKey k)))" if "k \<noteq> eadBlock"
    using that d(3) by (simp add: canonical_write [OF assms(1,2)] head_write [OF assms(1,2)])
  note w = writeBlockData_keys [OF assms(1) d(2)]
  show "ReadBlock J D (bc_db bc) (block_Hash C b) = None" by (rule d(1))
  show "ReadBlock J D (bc_db bc') h = (if h = block_Hash C b then Some b else ReadBlock J D (bc_db bc) h)"
    using writeBlockData_block(1) [OF assms(1,3) d(2)] read_congs(1) [OF g(1), of J h] read_congs(1) [OF w [of "BlockKey h"], of J] by auto
  show "ReadCanonicalHash D (bc_db bc') k =
      (if k = big_Uint64 (Number (Header b)) then block_Hash C b else ReadCanonicalHash D (bc_db bc) k)" if "k \<noteq> eadBlock"
    using c [OF that] w [of "CanonicalKey k"] by (simp add: ReadCanonicalHash_def)
  note wd = writeBlockData_block [OF assms(1,3) d(2)]
  show "ReadReceipts J D (bc_db bc') (block_Hash C b) = Some rs" if "ro = Some rs"
    using wd(2) [OF that] read_congs(2) [OF g(2), of J "block_Hash C b"] by simp
  show "ReadTxLookupEntry J D (bc_db bc') (tx_Hash (Transactions b ! i))
        = Some \<lparr>e_BlockHash = block_Hash C b, e_BlockIndex = big_Uint64 (Number (Header b)), e_TxIndex = of_nat i\<rparr>"
    if "distinct (map tx_Hash (Transactions b))" "i < length (Transactions b)"
    using wd(3) [OF that] read_congs(3) [OF g(3), of J "tx_Hash (Transactions b ! i)"] by simp
qed

text \<open>C21. What was added can be found: after a successful \<open>AddBlock\<close> the block is returned by
  its hash and by its number, its receipts by its hash, and each of its transactions through
  the lookup index with its position; blocks stored before keep their contents.\<close>

theorem add_block_then_find:
  assumes "leveldb_ok D" "db_writable D" "codec_ok J" "AddBlock C J D bc b (Some rs) = (bc', None)"
    and "block_Hash C b \<noteq> 0" "distinct (map tx_Hash (Transactions b))"
  shows "GetBlockByHash J D bc' (block_Hash C b) = Some b \<and>
    GetBlockByNumber J D bc' (big_Uint64 (Number (Header b))) = Some b \<and>
    ReadReceipts J D (bc_db bc') (block_Hash C b) = Some rs \<and>
    (\<forall>i < length (Transactions b). ReadTxLookupEntry J D (bc_db bc') (tx_Hash (Transactions b ! i))
       = Some \<lparr>e_BlockHash = block_Hash C b, e_BlockIndex = big_Uint64 (Number (Header b)), e_TxIndex = of_nat i\<rparr>) \<and>
    (\<forall>h. h \<noteq> block_Hash C b \<longrightarrow> GetBlockByHash J D bc' h = GetBlockByHash J D bc h)"
proof -
  note r = AddBlock_reads [OF assms(1-4)]
  have db: "ReadCanonicalHash D (bc_db bc') (big_Uint64 (Number (Header b))) = block_Hash C b"
    by (rule AddBlock_db [OF assms(1,2,4)]) (simp add: ReadCanonicalHash_def)
  show ?thesis
    using r(2,4,5) assms(5,6) by (simp add: GetBlockByHash_def GetBlockByNumber_def Let_def db)
qed

text \<open>A block that is stored already is refused and nothing changes; after a successful
  addition the head is the higher of the new block and the old head, so its number never falls.\<close>

theorem head_moves_forward:
  assumes "currentBlock bc = Some cur"
  shows "(ReadBlock J D (bc_db bc) (block_Hash C b) \<noteq> None \<longrightarrow>
      AddBlock C J D bc b receipts = (bc, Some ErrBlockKnown)) \<and>
    (\<exists>h. currentBlock (fst (AddBlock C J D bc b receipts)) = Some h \<and>
      Number (Header cur) \<le> Number (Header h) \<and>
      (snd (AddBlock C J D bc b receipts) = None \<longrightarrow>
         Number (Header h) = max (Number (Header cur)) (Number (Header b))))"
  using assms by (auto simp: AddBlock_def Let_def split: prod.splits option.splits)

text \<open>The canonical index does not follow the head: a second block with the head's number is
  accepted, the head stays, but the number now leads to the new block.\<close>

theorem sibling_takes_over_number:
  assumes "leveldb_ok D" "db_writable D" "codec_ok J" "AddBlock C J D bc b (Some rs) = (bc', None)"
    and "currentBlock bc = Some cur" "Number (Header b) = Number (Header cur)" "block_Hash C b \<noteq> 0"
  shows "currentBlock bc' = Some cur \<and>
    GetBlockByNumber J D bc' (big_Uint64 (Number (Header cur))) = Some b"
proof -
  obtain d where d: "writeBlockData C J D (bc_db bc) b (Some rs) = (d, None)"
    and keys: "\<And>k. k \<noteq> HeadBlockKey \<Longrightarrow> \<forall>n. k \<noteq> CanonicalKey n \<Longrightarrow> db_Get D (bc_db bc') (key_bytes k) = db_Get D d (key_bytes k)"
    and can: "db_Get D (bc_db bc') (key_bytes (CanonicalKey (big_Uint64 (Number (Header b))))) = Some (hash_Bytes (block_Hash C b))"
    using AddBlock_db [OF assms(1,2,4)] by blast
  have "ReadBlock J D (bc_db bc') (block_Hash C b) = ReadBlock J D d (block_Hash C b)"
    by (intro read_congs keys; simp)
  moreover have "ReadCanonicalHash D (bc_db bc') (big_Uint64 (Number (Header b))) = block_Hash C b"
    using can by (simp add: ReadCanonicalHash_def)
  moreover have "currentBlock bc' = Some cur"
    by (rule AddBlock_not_newer [OF assms(4,5)]) (simp add: assms(6))
  ultimately show ?thesis
    using writeBlockData_block(1) [OF assms(1,3) d] assms(6,7) by (simp add: GetBlockByNumber_def Let_def)
qed

subsection \<open>Restarting\<close>

text \<open>The head on disk is the head in memory.\<close>

definition chain_ok :: "crypto \<Rightarrow> codec \<Rightarrow> 'd leveldb \<Rightarrow> 'd blockchain \<Rightarrow> bool" where
  "chain_ok C J D bc \<longleftrightarrow> (case currentBlock bc of None \<Rightarrow> False | Some b \<Rightarrow>
     block_Hash C b \<noteq> 0 \<and> ReadHeadBlockHash D (bc_db bc) = block_Hash C b \<and>
     ReadBlock J D (bc_db bc) (block_Hash C b) = Some b)"

lemma chain_ok_AddBlock:
  assumes "leveldb_ok D" "db_writable D" "codec_ok J" "chain_ok C J D bc"
    and "AddBlock C J D bc b receipts = (bc', None)"
    and "block_Hash C b \<noteq> 0" "big_Uint64 (Number (Header b)) \<noteq> eadBlock"
  shows "chain_ok C J D bc'"
proof -
  obtain cur where cur: "currentBlock bc = Some cur" "block_Hash C cur \<noteq> 0"
      "ReadHeadBlockHash D (bc_db bc) = block_Hash C cur"
      "ReadBlock J D (bc_db bc) (block_Hash C cur) = Some cur"
    using assms(4) by (auto simp: chain_ok_def split: option.splits)
  obtain d newer where d: "ReadBlock J D (bc_db bc) (block_Hash C b) = None"
    "writeBlockData C J D (bc_db bc) b receipts = (d, None)"
    "bc' = bc\<lparr>bc_db := fst (WriteCanonicalHash D (if newer then fst (WriteHeadBlockHash D d (block_Hash C b)) else d)
                (big_Uint64 (Number (Header b))) (block_Hash C b)),
              currentBlock := (if newer then Some b else currentBlock bc)\<rparr>"
    using AddBlock_None [OF assms(5)] by metis
  have ne: "block_Hash C cur \<noteq> block_Hash C b" using d(1) cur(4) by auto
  have g: "db_Get D (bc_db bc') (key_bytes k) = db_Get D d (key_bytes k)"
    if "k \<noteq> HeadBlockKey" "\<forall>n. k \<noteq> CanonicalKey n" for k
  proof -
    have "\<not> same_bytes k HeadBlockKey" "\<not> same_bytes k (CanonicalKey n)" for n
      using that by (cases k; simp)+
    then show ?thesis using d(3) by (simp add: canonical_write [OF assms(1,2)] head_write [OF assms(1,2)])
  qed
  have rb: "ReadBlock J D (bc_db bc') h = ReadBlock J D d h" for h by (intro read_congs g; simp)
  have old: "ReadBlock J D d (block_Hash C cur) = Some cur"
    using read_congs(1) [OF writeBlockData_keys [OF assms(1) d(2), of "BlockKey (block_Hash C cur)"]] cur(4) ne
    by simp
  have head: "ReadHeadBlockHash D d = block_Hash C cur"
    using read_congs(4) [OF writeBlockData_keys [OF assms(1) d(2), of HeadBlockKey]] cur(3) by simp
  have "ReadHeadBlockHash D (bc_db bc') = (if newer then block_Hash C b else block_Hash C cur)"
    using d(3) assms(7) head
    by (auto simp: ReadHeadBlockHash_def canonical_write [OF assms(1,2)] head_write [OF assms(1,2)])
  then show ?thesis
    using d(3) cur(1,2) assms(6) rb old writeBlockData_block(1) [OF assms(1,3) d(2)]
    by (auto simp: chain_ok_def)
qed

text \<open>A run of successful additions.\<close>

inductive grows :: "crypto \<Rightarrow> codec \<Rightarrow> 'd leveldb \<Rightarrow> 'd blockchain \<Rightarrow> 'd blockchain \<Rightarrow> bool"
  for C J D bc where
  grows_refl: "grows C J D bc bc"
| grows_add: "grows C J D bc bc1 \<Longrightarrow> AddBlock C J D bc1 b receipts = (bc2, None) \<Longrightarrow>
    block_Hash C b \<noteq> 0 \<Longrightarrow> big_Uint64 (Number (Header b)) \<noteq> eadBlock \<Longrightarrow> grows C J D bc bc2"

lemma chain_ok_grows:
  assumes "leveldb_ok D" "db_writable D" "codec_ok J" "chain_ok C J D bc"
  shows "grows C J D bc bc' \<Longrightarrow> chain_ok C J D bc'"
  by (induction rule: grows.induct) (use assms chain_ok_AddBlock in blast)+

text \<open>C20. A node that is stopped and started again continues at its head: whatever sequence of
  blocks was added since the chain was consistent, opening the database again finds the same
  current block (block numbers stay clear of the one whose index key reads \<open>HeadBlock\<close>).\<close>

theorem restart_finds_head:
  assumes "leveldb_ok D" "db_writable D" "codec_ok J" "chain_ok C J D bc" "grows C J D bc bc'"
  shows "\<exists>bc''. NewBlockchain C J D R (bc_db bc') cfg = Some bc'' \<and>
    currentBlock bc'' = currentBlock bc' \<and> bc_db bc'' = bc_db bc' \<and> chain_ok C J D bc''"
proof -
  have "chain_ok C J D bc'" using assms by (rule chain_ok_grows)
  then show ?thesis by (auto simp: chain_ok_def NewBlockchain_def Let_def split: option.splits)
qed

subsection \<open>A fresh node\<close>

lemma AddBalance_fold:
  assumes "collision_free K S" "statedb_ok s" "in_sync D d s"
    and "distinct (map fst al)" "BalanceOf ` fst ` set al \<subseteq> S"
  defines "s' \<equiv> fold (\<lambda>(addr, balance) s. fst (AddBalance K s addr balance)) al s"
  shows "statedb_ok s' \<and> in_sync D d s' \<and> (\<forall>a. BalanceOf a \<in> S \<longrightarrow>
    GetBalance K s' a = GetBalance K s a + (case map_of al a of None \<Rightarrow> 0 | Some v \<Rightarrow> v))"
  using assms(2-5) unfolding s'_def
proof (induction al arbitrary: s)
  case Nil
  then show ?case by simp
next
  case (Cons x al)
  obtain b v where x: "x = (b, v)" by (cases x)
  let ?s1 = "SetBalance K s b (GetBalance K s b + v)"
  have ok: "statedb_ok ?s1" by (rule SetBalance_slots(1) [OF Cons.prems(1)])
  have "in_sync D d ?s1"
    unfolding SetBalance_def using Cons.prems(1,2)
    by (intro in_sync_set length_u256_Bytes) (simp_all add: balanceKey_def accountStem_def)
  note IH = Cons.IH [OF ok this]
  have "GetBalance K ?s1 a = GetBalance K s a + (if a = b then v else 0)" if "BalanceOf a \<in> S" for a
    using SetBalance_slots(2) [OF Cons.prems(1)] that Cons.prems(4) x
      SetBalance_slots(3) [OF Cons.prems(1) assms(1), of b "BalanceOf a"]
    by (auto simp: getters_as_slots)
  moreover have "map_of al b = None" using Cons.prems(3) x by (simp add: map_of_eq_None_iff)
  ultimately show ?case
    using IH Cons.prems(3,4) x
    by (auto simp: AddBalance_def addBalance_h_def Let_def split: option.splits if_splits)
qed

text \<open>Blocks do not touch the state table.\<close>

lemma AddBlock_persisted:
  assumes "leveldb_ok D" "db_writable D" "AddBlock C J D bc b receipts = (bc', None)"
  shows "db_Get D (bc_db bc') (key_bytes (StateKey k)) = db_Get D (bc_db bc) (key_bytes (StateKey k))"
proof -
  obtain d where d: "writeBlockData C J D (bc_db bc) b receipts = (d, None)"
    and g: "\<And>k. k \<noteq> HeadBlockKey \<Longrightarrow> \<forall>n. k \<noteq> CanonicalKey n \<Longrightarrow> db_Get D (bc_db bc') (key_bytes k) = db_Get D d (key_bytes k)"
    using AddBlock_db [OF assms] by blast
  then show ?thesis using writeBlockData_keys [OF assms(1) d, of "StateKey k"] by simp
qed

lemma NewState_same_table:
  assumes "leveldb_ok D" "state_table_ok D d"
    and "\<And>k. db_Get D d' (key_bytes (StateKey k)) = db_Get D d (key_bytes (StateKey k))"
  shows "getVerkleValue (NewState D root (Some d')) = persisted D d"
proof
  fix k
  have "state_table_ok D d'" "persisted D d' k = persisted D d k"
    using assms(2,3) by (simp_all add: state_table_ok_def persisted_def)
  then show "getVerkleValue (NewState D root (Some d')) k = persisted D d k"
    using NewState_reads(2) [OF assms(1)] by simp
qed

lemma AddBlock_genesis:
  assumes "leveldb_ok D" "db_writable D" "MarshalBlock J b \<noteq> None" "Transactions b = []"
    and "ReadBlock J D (bc_db bc) (block_Hash C b) = None"
  shows "\<exists>bc'. AddBlock C J D bc b None = (bc', None)"
  using assms dput_writable [OF assms(2)]
  by (auto simp: AddBlock_def writeBlockData_def WriteBlock_def WriteTxLookupEntries_def Let_def
      split: option.splits prod.splits) (metis snd_conv option.distinct(1))+

lemma NewBlockchain_total:
  assumes "db_writable D" "ReadHeadBlockHash D d = 0"
  shows "\<exists>bc. NewBlockchain C J D R d cfg = Some bc \<and> currentBlock bc = Some (NewBlock
    ((Header (GenerateGenesisBlock cfg))\<lparr>VerkleRoot := IntermediateRoot R (clear_dirty (genesis_state C D cfg d))\<rparr>) [])"
proof -
  obtain d1 where "db_Write D d (commit_batch (genesis_state C D cfg d)) = Some d1"
    using assms(1) unfolding db_writable_def by blast
  with assms(2) show ?thesis
    by (auto simp: NewBlockchain_def Let_def CommitState_def split: prod.splits option.splits)
qed

text \<open>Opening an empty database, spelled out.\<close>

lemma NewBlockchain_fresh:
  assumes "leveldb_ok D" "db_writable D" "\<forall>k. db_Get D d k = None"
    and "NewBlockchain C J D R d cfg = Some bc" "currentBlock bc = Some g" "MarshalBlock J g \<noteq> None"
  obtains d1 bc1 where
    "db_Write D d (commit_batch (genesis_state C D cfg d)) = Some d1"
    "AddBlock C J D \<lparr>bc_db = d1, bc_config = cfg, currentBlock = None\<rparr> g None = (bc1, None)"
    "bc_db bc = fst (WriteHeadBlockHash D (bc_db bc1) (block_Hash C g))"
    "Number (Header g) = 0" "Transactions g = []"
proof -
  let ?s = "genesis_state C D cfg d"
  let ?g = "NewBlock ((Header (GenerateGenesisBlock cfg))\<lparr>VerkleRoot := IntermediateRoot R (clear_dirty ?s)\<rparr>) []"
  obtain d1 where d1: "db_Write D d (commit_batch ?s) = Some d1" using assms(2) unfolding db_writable_def by blast
  have "ReadHeadBlockHash D d = 0" using assms(3) by (simp add: ReadHeadBlockHash_def)
  then have nb: "(case AddBlock C J D \<lparr>bc_db = d1, bc_config = cfg, currentBlock = None\<rparr> ?g None of
      (bc1, Some err) \<Rightarrow> Some (bc1\<lparr>currentBlock := Some ?g\<rparr>)
    | (bc1, None) \<Rightarrow> Some (bc1\<lparr>bc_db := fst (WriteHeadBlockHash D (bc_db bc1) (block_Hash C ?g)),
                              currentBlock := Some ?g\<rparr>)) = Some bc"
    using assms(4) d1
    by (auto simp: NewBlockchain_def Let_def CommitState_def split: prod.splits option.splits)
  then have g: "g = ?g" using assms(5) by (auto split: prod.splits option.splits)
  have "map_of (rev (commit_batch ?s)) (key_bytes (BlockKey h)) = None" for h
    by (auto simp: map_of_eq_None_iff commit_batch_def)
  then have "ReadBlock J D d1 h = None" for h
    using db_Write_get [OF assms(1) d1] assms(3) by (simp add: ReadBlock_def map_add_def)
  then obtain bc1 where a: "AddBlock C J D \<lparr>bc_db = d1, bc_config = cfg, currentBlock = None\<rparr> ?g None = (bc1, None)"
    using AddBlock_genesis [OF assms(1,2), of J ?g] assms(6) g by (metis NewBlock_sel(2) blockchain.select_convs(1))
  then have "bc_db bc = fst (WriteHeadBlockHash D (bc_db bc1) (block_Hash C g))" using nb g by auto
  with that [OF d1] a g show ?thesis by (simp add: GenerateGenesisBlock_def)
qed

text \<open>The block made for an empty database is found as block 0 and as the head.\<close>

lemma NewBlockchain_found:
  assumes "leveldb_ok D" "db_writable D" "codec_ok J" "\<forall>k. db_Get D d k = None"
    and "NewBlockchain C J D R d cfg = Some bc" "currentBlock bc = Some g" "MarshalBlock J g \<noteq> None"
    and "block_Hash C g \<noteq> 0"
  shows "chain_ok C J D bc \<and> Number (Header g) = 0 \<and> GetBlockByNumber J D bc 0 = Some g"
proof -
  obtain d1 bc1 where a: "AddBlock C J D \<lparr>bc_db = d1, bc_config = cfg, currentBlock = None\<rparr> g None = (bc1, None)"
    and bc: "bc_db bc = fst (WriteHeadBlockHash D (bc_db bc1) (block_Hash C g))"
    and g: "Number (Header g) = 0"
    using NewBlockchain_fresh [OF assms(1,2,4-7)] .
  have keys: "db_Get D (bc_db bc) (key_bytes k) = db_Get D (bc_db bc1) (key_bytes k)" if "\<not> same_bytes k HeadBlockKey" for k
    using bc that by (simp add: head_write [OF assms(1,2)])
  obtain d2 where d2: "writeBlockData C J D d1 g None = (d2, None)"
    and keys2: "\<And>k. k \<noteq> HeadBlockKey \<Longrightarrow> \<forall>n. k \<noteq> CanonicalKey n \<Longrightarrow> db_Get D (bc_db bc1) (key_bytes k) = db_Get D d2 (key_bytes k)"
    and can: "db_Get D (bc_db bc1) (key_bytes (CanonicalKey (big_Uint64 (Number (Header g))))) = Some (hash_Bytes (block_Hash C g))"
    using AddBlock_db [OF assms(1,2) a] by (metis blockchain.select_convs(1))
  have rb: "ReadBlock J D (bc_db bc) (block_Hash C g) = Some g"
    using writeBlockData_block(1) [OF assms(1,3) d2] keys [of "BlockKey (block_Hash C g)"]
      keys2 [of "BlockKey (block_Hash C g)"] by (simp add: ReadBlock_def)
  have "ReadCanonicalHash D (bc_db bc) 0 = block_Hash C g"
    using can keys [of "CanonicalKey 0"] g by (simp add: ReadCanonicalHash_def big_Uint64_def eadBlock_def)
  moreover have "ReadHeadBlockHash D (bc_db bc) = block_Hash C g"
    using bc by (simp add: ReadHeadBlockHash_def head_write [OF assms(1,2)])
  ultimately show ?thesis
    using rb g assms(6,8) by (simp add: chain_ok_def GetBlockByNumber_def)
qed

text \<open>A fresh node: opening an empty database creates block 0, which is found as the genesis
  block and as the head after a restart, and the state of that block gives every account
  exactly its genesis allocation.\<close>

theorem fresh_node_genesis:
  assumes "leveldb_ok D" "db_writable D" "codec_ok J" "\<forall>k. db_Get D d k = None"
    and "NewBlockchain C J D R d cfg = Some bc" "currentBlock bc = Some g" "MarshalBlock J g \<noteq> None"
    and "block_Hash C g \<noteq> 0" "collision_free (Keccak C) S" "distinct (map fst (GenesisAlloc cfg))"
    and "BalanceOf ` fst ` set (GenesisAlloc cfg) \<subseteq> S"
  shows "chain_ok C J D bc \<and> Number (Header g) = 0 \<and> GenesisBlock J D bc = Some g \<and>
    (\<forall>a. BalanceOf a \<in> S \<longrightarrow> GetBalance (Keccak C) (StateAt D bc (VerkleRoot (Header g))) a
       = (case map_of (GenesisAlloc cfg) a of None \<Rightarrow> 0 | Some v \<Rightarrow> v))"
proof -
  let ?s = "genesis_state C D cfg d"
  obtain d1 bc1 where d1: "db_Write D d (commit_batch ?s) = Some d1"
    and a: "AddBlock C J D \<lparr>bc_db = d1, bc_config = cfg, currentBlock = None\<rparr> g None = (bc1, None)"
    and bc: "bc_db bc = fst (WriteHeadBlockHash D (bc_db bc1) (block_Hash C g))"
    using NewBlockchain_fresh [OF assms(1,2,4-7)] .
  have tab: "state_table_ok D d" and pers: "persisted D d k = []" for k
    using assms(4) by (simp_all add: state_table_ok_def persisted_def)
  note new = NewState_reads [OF assms(1) tab] in_sync_NewState [OF assms(1) tab]
  have s: "statedb_ok ?s" "in_sync D d ?s" "\<And>a. BalanceOf a \<in> S \<Longrightarrow>
      GetBalance (Keccak C) ?s a = (case map_of (GenesisAlloc cfg) a of None \<Rightarrow> 0 | Some v \<Rightarrow> v)"
    using AddBalance_fold [OF assms(9) new(1) new(3) assms(10,11)] new(2) pers
    by (simp_all add: genesis_state_def GetBalance_def)
  have keys: "db_Get D (bc_db bc) (key_bytes k) = db_Get D (bc_db bc1) (key_bytes k)" if "\<not> same_bytes k HeadBlockKey" for k
    using bc that by (simp add: head_write [OF assms(1,2)])
  have "getVerkleValue (StateAt D bc root) = persisted D d1" for root
    unfolding StateAt_def
    by (rule NewState_same_table [OF assms(1) commit_batch_persisted(2) [OF assms(1) s(1) d1 tab]])
      (simp add: keys AddBlock_persisted [OF assms(1,2) a])
  then have bal: "GetBalance (Keccak C) (StateAt D bc root) a = GetBalance (Keccak C) ?s a" for root a
    using commit_persisted_reads [OF assms(1) s(1,2) d1] by (simp add: GetBalance_def)
  show ?thesis
    using NewBlockchain_found [OF assms(1-8)] s(3) bal by (simp add: GenesisBlock_def)
qed

subsection \<open>Witnesses\<close>

text \<open>
  A codec that can write two given blocks, empty receipt lists and every index entry; a chain
  with one block in an in-memory database, and a second block with the same number.
\<close>

definition toy_codec :: "block \<Rightarrow> block \<Rightarrow> codec" where
  "toy_codec b0 b1 = \<lparr>
     MarshalBlock = (\<lambda>b. if b = b0 then Some [0] else if b = b1 then Some [1] else None),
     UnmarshalBlock = (\<lambda>d. if d = [0] then Some b0 else if d = [1] then Some b1 else None),
     MarshalReceipts = (\<lambda>rs. if rs = [] then Some [] else None),
     UnmarshalReceipts = (\<lambda>d. if d = [] then Some [] else None),
     MarshalEntry = (\<lambda>e. Some (hash_Bytes (e_BlockHash e) @ be_bytes 8 (unat (e_BlockIndex e))
                                 @ be_bytes 8 (unat (e_TxIndex e)))),
     UnmarshalEntry = (\<lambda>d. Some \<lparr>e_BlockHash = BytesToHash (take 32 d),
                                 e_BlockIndex = of_nat (nat_of_bytes (take 8 (drop 32 d))),
                                 e_TxIndex = of_nat (nat_of_bytes (drop 40 d))\<rparr>)\<rparr>"

lemma be8_roundtrip: "of_nat (nat_of_bytes (be_bytes 8 (unat (x :: uint64)))) = x"
  by (simp only: nat_of_be_bytes mod_less [OF unat_uint64_bound] of_nat_unat_word)

lemma codec_ok_toy: "codec_ok (toy_codec b0 b1)"
  by (auto simp: codec_ok_def toy_codec_def be8_roundtrip split: if_splits)

lemma db_writable_mem: "db_writable mem_db"
  by (simp add: db_writable_def mem_db_def)

definition demo_block0 :: block where
  "demo_block0 = NewBlock (demo_header []) []"

definition demo_block1 :: block where
  "demo_block1 = NewBlock (demo_header [7]) [demo_tx 0 4 9]"

abbreviation demo_codec :: codec where
  "demo_codec \<equiv> toy_codec demo_block0 demo_block1"

definition demo_chain0 :: "(bytes \<times> bytes) list blockchain" where
  "demo_chain0 = \<lparr>bc_db = [], bc_config = GetNetworkConfig ''devnet'', currentBlock = None\<rparr>"

definition demo_chain1 :: "(bytes \<times> bytes) list blockchain" where
  "demo_chain1 = fst (AddBlock toy_crypto demo_codec mem_db demo_chain0 demo_block0 (Some []))"

definition demo_chain2 :: "(bytes \<times> bytes) list blockchain" where
  "demo_chain2 = fst (AddBlock toy_crypto demo_codec mem_db demo_chain1 demo_block1 (Some []))"

lemma demo_blocks [simp]:
  "demo_block1 \<noteq> demo_block0" "Number (Header demo_block0) = 1" "Number (Header demo_block1) = 1"
  "Transactions demo_block0 = []" "Transactions demo_block1 = [demo_tx 0 4 9]"
  by (simp_all add: demo_block0_def demo_block1_def NewBlock_def demo_header_def)

lemma toy_hash_nonzero: "b \<noteq> [] \<Longrightarrow> length b < 65536 \<Longrightarrow> toy_hash b \<noteq> 0"
  using toy_hash_length [of b "[]"] by (auto simp: toy_hash_def)

lemma demo_hashes:
  "block_Hash toy_crypto demo_block0 \<noteq> 0" "block_Hash toy_crypto demo_block1 \<noteq> 0"
  "block_Hash toy_crypto demo_block0 \<noteq> block_Hash toy_crypto demo_block1"
proof -
  have h: "block_Hash toy_crypto demo_block0 = toy_hash (toy_encode (demo_header []))"
      "block_Hash toy_crypto demo_block1 = toy_hash (toy_encode (demo_header [7]))"
    by (simp_all add: demo_block0_def demo_block1_def header_Hash_Some toy_crypto_def)
  have l: "length (toy_encode (demo_header [])) = 49" "length (toy_encode (demo_header [7])) = 50"
    by (simp_all add: toy_encode_def demo_header_def)
  then have "toy_encode (demo_header []) \<noteq> []" "toy_encode (demo_header [7]) \<noteq> []" by auto
  with l show "block_Hash toy_crypto demo_block0 \<noteq> 0" "block_Hash toy_crypto demo_block1 \<noteq> 0"
    by (simp_all add: h toy_hash_nonzero)
  show "block_Hash toy_crypto demo_block0 \<noteq> block_Hash toy_crypto demo_block1"
    using l toy_hash_length [of "toy_encode (demo_header [])" "toy_encode (demo_header [7])"] by (auto simp: h)
qed

lemma mem_dput [simp]: "dput mem_db d k v = (AList.update k v d, None)"
  by (simp add: dput_def mem_db_def)

lemma mem_get [simp]: "db_Get mem_db d = map_of d"
  by (simp add: mem_db_def)

lemma toy_marshal [simp]:
  "MarshalBlock demo_codec demo_block0 = Some [0]" "MarshalBlock demo_codec demo_block1 = Some [1]"
  "MarshalReceipts demo_codec [] = Some []" "MarshalEntry demo_codec e \<noteq> None"
  by (simp_all add: toy_codec_def)

lemmas write_defs = AddBlock_def writeBlockData_def WriteBlock_def WriteReceipts_def
  WriteTxLookupEntries_def WriteHeadBlockHash_def WriteCanonicalHash_def ReadBlock_def Let_def

lemma demo_add0:
  "AddBlock toy_crypto demo_codec mem_db demo_chain0 demo_block0 (Some []) = (demo_chain1, None)"
  "currentBlock demo_chain1 = Some demo_block0"
  by (simp_all add: demo_chain1_def demo_chain0_def write_defs)

lemma demo_chain1_ok: "chain_ok toy_crypto demo_codec mem_db demo_chain1"
  using demo_hashes(1) demo_add0(2)
  by (auto simp: chain_ok_def demo_chain1_def demo_chain0_def write_defs ReadHeadBlockHash_def toy_codec_def
      big_Uint64_def eadBlock_def)

lemma demo_add1:
  "AddBlock toy_crypto demo_codec mem_db demo_chain1 demo_block1 (Some []) = (demo_chain2, None)"
proof -
  have "ReadBlock demo_codec mem_db (bc_db demo_chain1) (block_Hash toy_crypto demo_block1) = None"
    using demo_hashes(3) by (auto simp: demo_chain1_def demo_chain0_def write_defs)
  then have "snd (AddBlock toy_crypto demo_codec mem_db demo_chain1 demo_block1 (Some [])) = None"
    by (auto simp: AddBlock_def writeBlockData_def WriteBlock_def WriteReceipts_def WriteTxLookupEntries_def
        Let_def split: option.splits)
  then show ?thesis by (simp add: demo_chain2_def prod_eq_iff)
qed

theorem base_fee_step_witness:
  "\<exists>f'. CalcBaseFee DefaultChainConfig ((demo_header [])\<lparr>BaseFee := Some 1000000000, GasUsed := 20000000\<rparr>)
      = Some f' \<and> 1000000001 \<le> f' \<and> f' \<le> 1125000000"
  using base_fee_step [of DefaultChainConfig "(demo_header [])\<lparr>BaseFee := Some 1000000000, GasUsed := 20000000\<rparr>"
      1000000000 15000000]
  by (auto simp: DefaultChainConfig_def demo_header_def)

theorem add_block_then_find_witness:
  "GetBlockByNumber demo_codec mem_db demo_chain2 1 = Some demo_block1 \<and>
   GetBlockByHash demo_codec mem_db demo_chain2 (block_Hash toy_crypto demo_block0) = Some demo_block0"
proof -
  have "GetBlockByHash demo_codec mem_db demo_chain1 (block_Hash toy_crypto demo_block0) = Some demo_block0"
    using demo_chain1_ok demo_add0(2) by (simp add: chain_ok_def GetBlockByHash_def)
  with add_block_then_find [OF leveldb_ok_mem db_writable_mem codec_ok_toy demo_add1 demo_hashes(2)] demo_hashes(3)
  show ?thesis by (simp add: big_Uint64_def)
qed

theorem head_moves_forward_witness:
  "currentBlock (fst (AddBlock toy_crypto demo_codec mem_db demo_chain1 demo_block1 (Some []))) \<noteq> None"
  using head_moves_forward [OF demo_add0(2), of demo_codec mem_db toy_crypto demo_block1 "Some []"] by auto

theorem sibling_takes_over_number_witness:
  "currentBlock demo_chain2 = Some demo_block0 \<and>
   GetBlockByNumber demo_codec mem_db demo_chain2 1 = Some demo_block1"
  using sibling_takes_over_number [OF leveldb_ok_mem db_writable_mem codec_ok_toy demo_add1 demo_add0(2) _ demo_hashes(2)]
  by (simp add: big_Uint64_def)

theorem restart_finds_head_witness:
  "\<exists>bc. NewBlockchain toy_crypto demo_codec mem_db (\<lambda>_. 0) (bc_db demo_chain2) (bc_config demo_chain2) = Some bc \<and>
     currentBlock bc = Some demo_block0"
proof -
  have "grows toy_crypto demo_codec mem_db demo_chain1 demo_chain2"
    by (rule grows_add [OF grows_refl demo_add1 demo_hashes(2)]) (simp add: big_Uint64_def eadBlock_def)
  moreover have "currentBlock demo_chain2 = Some demo_block0"
    by (rule AddBlock_not_newer [OF demo_add1 demo_add0(2)]) simp
  ultimately show ?thesis
    using restart_finds_head [OF leveldb_ok_mem db_writable_mem codec_ok_toy demo_chain1_ok] by fastforce
qed

text \<open>The genesis of the development network under the concrete parameters.\<close>

definition demo_genesis :: block where
  "demo_genesis = GenerateGenesisBlock (GetNetworkConfig ''devnet'')"

theorem fresh_node_genesis_witness:
  "\<exists>bc. NewBlockchain toy_crypto (toy_codec demo_genesis demo_genesis) mem_db (\<lambda>_. 0) [] (GetNetworkConfig ''devnet'') = Some bc \<and>
     GetBalance toy_hash (StateAt mem_db bc 0) 0x2000 = 10 ^ 18"
proof -
  let ?cfg = "GetNetworkConfig ''devnet''" and ?J = "toy_codec demo_genesis demo_genesis"
  have gen: "NewBlock ((Header (GenerateGenesisBlock ?cfg))\<lparr>VerkleRoot := 0\<rparr>) [] = demo_genesis"
    by (simp add: demo_genesis_def GenerateGenesisBlock_def)
  have root: "IntermediateRoot (\<lambda>_. 0) s = 0" for s
    by (induction s) (auto split: option.splits)
  obtain bc where bc: "NewBlockchain toy_crypto ?J mem_db (\<lambda>_. 0) [] ?cfg = Some bc"
      "currentBlock bc = Some demo_genesis"
    using NewBlockchain_total [OF db_writable_mem, of "[]" toy_crypto ?J "\<lambda>_. 0" ?cfg]
    by (auto simp: root gen ReadHeadBlockHash_def)
  have j: "MarshalBlock ?J demo_genesis \<noteq> None" by (simp add: toy_codec_def)
  have h: "block_Hash toy_crypto demo_genesis \<noteq> 0"
    using toy_hash_nonzero [of "toy_encode (Header demo_genesis)"]
    by (simp add: block_Hash_def header_Hash_Some toy_crypto_def toy_encode_def demo_genesis_def GenerateGenesisBlock_def)
  have k: "Keccak toy_crypto = toy_hash" by (simp add: toy_crypto_def)
  have "inj_on (slotKey toy_hash) (range BalanceOf)"
    by (auto simp: inj_on_def slotKey.simps balanceKey_def)
  then have cf: "collision_free (Keccak toy_crypto) (range BalanceOf)" by (simp add: collision_free_def k)
  have alloc: "distinct (map fst (GenesisAlloc ?cfg))" "map_of (GenesisAlloc ?cfg) 0x2000 = Some (10 ^ 18)"
    by (simp_all add: GenesisAlloc_eq)
  have r: "VerkleRoot (Header demo_genesis) = 0" by (simp add: demo_genesis_def GenerateGenesisBlock_def)
  have sub: "BalanceOf ` fst ` set (GenesisAlloc ?cfg) \<subseteq> range BalanceOf" by auto
  have "\<forall>k. db_Get mem_db [] k = None" by simp
  from fresh_node_genesis [OF leveldb_ok_mem db_writable_mem codec_ok_toy this bc j h cf alloc(1) sub]
  have "GetBalance toy_hash (StateAt mem_db bc 0) 0x2000 = 10 ^ 18"
    using alloc(2) r by (metis k option.case(2) rangeI)
  with bc(1) show ?thesis by blast
qed

end
