(* ===== verification/StateTransition.thy ===== *)
theory StateTransition
  imports Genesis StateDB
begin

text \<open>
  The application of one message to the state: package \<open>vm\<close> of the program, which only
  assembles the block context, and the parts of go-ethereum it drives: the fork rules, the gas
  pool, \<open>core/state_transition.go\<close> and the outer layer of \<open>EVM.Call\<close> and \<open>EVM.Create\<close>.

  The record \<open>evm\<close> holds what stays a parameter: the interpreter loop \<open>evm_Run\<close>, the
  precompiled contracts and the derivation of contract addresses.  A panic of the Go code is the
  error value \<open>Panic\<close>.  No tracer is installed and \<open>NoBaseFee\<close> is unset, since
  \<open>vm.New\<close> passes an empty \<open>vm.Config\<close>; Prague, Osaka and Verkle are never active,
  since no network configures them, so their branches (the data floor, set-code
  authorisations, access events) do not occur.
\<close>

subsection \<open>Messages\<close>

text \<open>The fields of go-ethereum's \<open>core.Message\<close>, without the set-code authorisations of Prague.\<close>

record message =
  m_From :: address
  m_To :: "address option"
  m_Value :: int
  m_Nonce :: uint64
  m_GasLimit :: uint64
  m_GasPrice :: int
  m_GasFeeCap :: int
  m_GasTipCap :: int
  m_Data :: bytes
  m_AccessList :: "(address \<times> hash list) list"
  m_BlobHashes :: "hash list option"
  m_BlobGasFeeCap :: "int option"
  m_SkipNonceChecks :: bool
  m_SkipTransactionChecks :: bool

definition TransactionToMessage ::
    "crypto \<Rightarrow> int \<Rightarrow> transaction \<Rightarrow> int option \<Rightarrow> message option" where
  "TransactionToMessage C cid tx baseFee =
     (case Sender C cid tx of
        None \<Rightarrow> None
      | Some from \<Rightarrow> Some
          \<lparr>m_From = from, m_To = tx_To tx, m_Value = tx_Value tx, m_Nonce = tx_Nonce tx,
           m_GasLimit = tx_Gas tx,
           m_GasPrice = (case baseFee of
                           None \<Rightarrow> tx_GasPrice tx
                         | Some b \<Rightarrow>
                             (if tx_GasTipCap tx + b > tx_GasFeeCap tx then tx_GasFeeCap tx
                              else tx_GasTipCap tx + b)),
           m_GasFeeCap = tx_GasFeeCap tx, m_GasTipCap = tx_GasTipCap tx, m_Data = tx_Data tx,
           m_AccessList = tx_AccessList tx, m_BlobHashes = tx_BlobHashes tx,
           m_BlobGasFeeCap = tx_BlobGasFeeCap tx, m_SkipNonceChecks = False,
           m_SkipTransactionChecks = False\<rparr>)"

subsection \<open>Fork rules\<close>

definition isBlockForked :: "int option \<Rightarrow> int \<Rightarrow> bool" where
  "isBlockForked s head = (case s of None \<Rightarrow> False | Some b \<Rightarrow> b \<le> head)"

definition isTimestampForked :: "uint64 option \<Rightarrow> uint64 \<Rightarrow> bool" where
  "isTimestampForked s head = (case s of None \<Rightarrow> False | Some t \<Rightarrow> t \<le> head)"

definition IsLondon :: "ChainConfig \<Rightarrow> int \<Rightarrow> bool" where
  "IsLondon c num = isBlockForked (LondonBlock c) num"

definition IsShanghai :: "ChainConfig \<Rightarrow> int \<Rightarrow> uint64 \<Rightarrow> bool" where
  "IsShanghai c num time \<longleftrightarrow> IsLondon c num \<and> isTimestampForked (ShanghaiTime c) time"

definition IsCancun :: "ChainConfig \<Rightarrow> int \<Rightarrow> uint64 \<Rightarrow> bool" where
  "IsCancun c num time \<longleftrightarrow> IsLondon c num \<and> isTimestampForked (CancunTime c) time"

text \<open>The rules read below; the forks up to Berlin are configured at block 0.\<close>

record rules =
  r_IsHomestead :: bool
  r_IsEIP158 :: bool
  r_IsIstanbul :: bool
  r_IsLondon :: bool
  r_IsMerge :: bool
  r_IsShanghai :: bool
  r_IsCancun :: bool

definition Rules :: "ChainConfig \<Rightarrow> int \<Rightarrow> bool \<Rightarrow> uint64 \<Rightarrow> rules" where
  "Rules c num isMerge timestamp =
     (let merge = (isMerge \<and> IsLondon c num) in
      \<lparr>r_IsHomestead = isBlockForked (Some 0) num, r_IsEIP158 = isBlockForked (Some 0) num,
       r_IsIstanbul = isBlockForked (Some 0) num, r_IsLondon = IsLondon c num, r_IsMerge = merge,
       r_IsShanghai = (merge \<and> IsShanghai c num timestamp),
       r_IsCancun = (merge \<and> IsCancun c num timestamp)\<rparr>)"

subsection \<open>The block context of package vm\<close>

text \<open>
  \<open>vm.BlockContext\<close> as \<open>vm.New\<close> fills it: \<open>Random\<close> and \<open>BlobBaseFee\<close> are never set,
  and \<open>CanTransfer\<close> and \<open>Transfer\<close> are always go-ethereum's.
\<close>

record block_context =
  GetHash :: "uint64 \<Rightarrow> hash"
  b_Coinbase :: address
  b_BlockNumber :: int
  b_Time :: uint64
  b_Difficulty :: "int option"
  b_GasLimit :: uint64
  b_BaseFee :: "int option"
  b_Random :: "hash option"
  b_BlobBaseFee :: "int option"

record ZephyriaEVM =
  Context :: block_context
  chainConfig :: ChainConfig
  chainRules :: rules

definition NewEVM :: "header \<Rightarrow> ChainConfig \<Rightarrow> (uint64 \<Rightarrow> hash) \<Rightarrow> ZephyriaEVM" where
  "NewEVM header cfg getHash =
     (let blockCtx =
        \<lparr>GetHash = getHash, b_Coinbase = Coinbase header, b_BlockNumber = Number header,
         b_Time = Time header, b_Difficulty = Difficulty header, b_GasLimit = GasLimit header,
         b_BaseFee = BaseFee header, b_Random = None, b_BlobBaseFee = None\<rparr>
      in \<lparr>Context = blockCtx, chainConfig = cfg,
          chainRules = Rules cfg (b_BlockNumber blockCtx) (b_Random blockCtx \<noteq> None) (b_Time blockCtx)\<rparr>)"

definition CanTransfer :: "(bytes \<Rightarrow> hash) \<Rightarrow> statedb \<Rightarrow> address \<Rightarrow> uint256 \<Rightarrow> bool" where
  "CanTransfer K db addr amount \<longleftrightarrow> amount \<le> GetBalance K db addr"

definition Transfer :: "(bytes \<Rightarrow> hash) \<Rightarrow> statedb \<Rightarrow> address \<Rightarrow> address \<Rightarrow> uint256 \<Rightarrow> statedb" where
  "Transfer K db sender recipient amount =
     fst (AddBalance K (fst (SubBalance K db sender amount)) recipient amount)"

subsection \<open>Calls and contract creation\<close>

datatype vm_error = ErrExecutionReverted | ErrInsufficientBalance | ErrNonceUintOverflow
  | ErrContractAddressCollision | ErrMaxCodeSizeExceeded | ErrInvalidCode | ErrCodeStoreOutOfGas
  | OtherError string

record contract =
  ct_caller :: address
  ct_address :: address
  ct_value :: uint256
  ct_Gas :: uint64
  ct_Code :: bytes

record evm =
  evm_Run :: "ZephyriaEVM \<Rightarrow> message \<Rightarrow> statedb \<Rightarrow> contract \<Rightarrow> bytes
    \<Rightarrow> statedb \<times> bytes \<times> uint64 \<times> vm_error option"
  evm_precompile :: "rules \<Rightarrow> address \<Rightarrow> (bytes \<Rightarrow> uint64 \<Rightarrow> bytes \<times> uint64 \<times> vm_error option) option"
  CreateAddress :: "address \<Rightarrow> uint64 \<Rightarrow> address"

definition is_reverted :: "vm_error option \<Rightarrow> bool" where
  "is_reverted e = (case e of Some ErrExecutionReverted \<Rightarrow> True | _ \<Rightarrow> False)"

text \<open>
  What follows the execution of a call: an error reverts to the snapshot and, unless the code
  itself reverted, consumes the gas.
\<close>

definition call_end ::
    "int \<Rightarrow> statedb \<times> bytes \<times> uint64 \<times> vm_error option \<Rightarrow> statedb \<times> bytes \<times> uint64 \<times> vm_error option" where
  "call_end snapshot = (\<lambda>(s, ret, gas, err).
     if err = None then (s, ret, gas, err)
     else (RevertToSnapshot s snapshot, ret, if is_reverted err then gas else 0, err))"

text \<open>\<open>EVM.Call\<close> at depth 0.\<close>

definition evm_Call ::
    "evm \<Rightarrow> (bytes \<Rightarrow> hash) \<Rightarrow> 'd leveldb \<Rightarrow> 'd \<Rightarrow> ZephyriaEVM \<Rightarrow> message \<Rightarrow> statedb
      \<Rightarrow> address \<Rightarrow> address \<Rightarrow> bytes \<Rightarrow> uint64 \<Rightarrow> uint256 \<Rightarrow> statedb \<times> bytes \<times> uint64 \<times> vm_error option" where
  "evm_Call E K D d z msg s caller addr input gas value =
     (if value \<noteq> 0 \<and> \<not> CanTransfer K s caller value then (s, [], gas, Some ErrInsufficientBalance)
      else
        (let snapshot = Snapshot s;
             p = evm_precompile E (chainRules z) addr
         in if \<not> Exist s addr \<and> p = None \<and> r_IsEIP158 (chainRules z) \<and> value = 0 then (s, [], gas, None)
            else
              (let s1 = (if Exist s addr then s else CreateAccount s addr);
                   s2 = Transfer K s1 caller addr value
               in call_end snapshot
                    (case p of
                       Some pc \<Rightarrow> (s2, pc input gas)
                     | None \<Rightarrow>
                         (let (c, s3) = GetCode K D d s2 addr
                          in if length c = 0 then (s3, [], gas, None)
                             else evm_Run E z msg s3
                                    \<lparr>ct_caller = caller, ct_address = addr, ct_value = value,
                                     ct_Gas = gas, ct_Code = c\<rparr> input)))))"

definition initNewContract ::
    "evm \<Rightarrow> (bytes \<Rightarrow> hash) \<Rightarrow> ZephyriaEVM \<Rightarrow> message \<Rightarrow> statedb \<Rightarrow> contract
      \<Rightarrow> statedb \<times> bytes \<times> uint64 \<times> vm_error option" where
  "initNewContract E K z msg s ct =
     (let (s1, ret, gas, err) = evm_Run E z msg s ct [] in
      if err \<noteq> None then (s1, ret, gas, err)
      else if r_IsEIP158 (chainRules z) \<and> length ret > 131072 then (s1, ret, gas, Some ErrMaxCodeSizeExceeded)
      else if length ret \<ge> 1 \<and> hd ret = 0xEF \<and> r_IsLondon (chainRules z) then (s1, ret, gas, Some ErrInvalidCode)
      else
        (let createDataGas = of_nat (length ret) * 200
         in if gas < createDataGas then (s1, ret, gas, Some ErrCodeStoreOutOfGas)
            else (fst (SetCode K s1 (ct_address ct) ret), ret, gas - createDataGas, None)))"

text \<open>\<open>EVM.Create\<close> at depth 0; the storage root of an account is always the zero hash here.\<close>

definition evm_Create ::
    "evm \<Rightarrow> (bytes \<Rightarrow> hash) \<Rightarrow> ZephyriaEVM \<Rightarrow> message \<Rightarrow> statedb
      \<Rightarrow> address \<Rightarrow> bytes \<Rightarrow> uint64 \<Rightarrow> uint256 \<Rightarrow> statedb \<times> bytes \<times> uint64 \<times> vm_error option" where
  "evm_Create E K z msg s caller input gas value =
     (let address = CreateAddress E caller (GetNonce K s caller) in
      if \<not> CanTransfer K s caller value then (s, [], gas, Some ErrInsufficientBalance)
      else
        (let nonce = GetNonce K s caller in
         if nonce + 1 < nonce then (s, [], gas, Some ErrNonceUintOverflow)
         else
           (let s1 = SetNonce K s caller (nonce + 1);
                contractHash = GetCodeHash K s1 address
            in if GetNonce K s1 address \<noteq> 0 \<or> contractHash \<noteq> 0 \<and> contractHash \<noteq> K []
               then (s1, [], 0, Some ErrContractAddressCollision)
               else
                 (let snapshot = Snapshot s1;
                      s2 = (if Exist s1 address then s1 else CreateAccount s1 address);
                      s3 = CreateContract s2 address;
                      s4 = (if r_IsEIP158 (chainRules z) then SetNonce K s3 address 1 else s3);
                      s5 = Transfer K s4 caller address value;
                      (s6, ret, gas', err) = initNewContract E K z msg s5
                        \<lparr>ct_caller = caller, ct_address = address, ct_value = value, ct_Gas = gas, ct_Code = input\<rparr>
                  in if err \<noteq> None \<and> (r_IsHomestead (chainRules z) \<or> err \<noteq> Some ErrCodeStoreOutOfGas)
                     then (RevertToSnapshot s6 snapshot, ret, if is_reverted err then gas' else 0, err)
                     else (s6, ret, gas', err)))))"

subsection \<open>Gas\<close>

datatype core_error = ErrNonceTooHigh | ErrNonceTooLow | ErrNonceMax | ErrSenderNoEOA
  | ErrFeeCapVeryHigh | ErrTipVeryHigh | ErrTipAboveFeeCap | ErrFeeCapTooLow
  | ErrBlobTxCreate | ErrMissingBlobHashes | ErrBlobHashVersion | ErrBlobFeeCapTooLow
  | ErrInsufficientFunds | ErrGasLimitReached | ErrGasUintOverflow | ErrIntrinsicGas
  | ErrInsufficientFundsForTransfer | ErrMaxInitCodeSizeExceeded | Panic

definition toWordSize :: "uint64 \<Rightarrow> uint64" where
  "toWordSize sz = (if sz > - 1 - 31 then (- 1) div 32 + 1 else (sz + 31) div 32)"

definition StorageKeys :: "(address \<times> hash list) list \<Rightarrow> nat" where
  "StorageKeys al = sum_list (map (length \<circ> snd) al)"

definition IntrinsicGas ::
    "bytes \<Rightarrow> (address \<times> hash list) list \<Rightarrow> bool \<Rightarrow> bool \<Rightarrow> bool \<Rightarrow> bool \<Rightarrow> core_error + uint64" where
  "IntrinsicGas data accessList isContractCreation isHomestead isEIP2028 isEIP3860 =
     (let gas0 = (if isContractCreation \<and> isHomestead then 53000 else 21000 :: uint64);
          dataLen = of_nat (length data) :: uint64;
          z = of_nat (length (filter (\<lambda>b. b = 0) data)) :: uint64;
          nz = dataLen - z;
          nonZeroGas = (if isEIP2028 then 16 else 68 :: uint64);
          gas1 = gas0 + nz * nonZeroGas;
          gas2 = gas1 + z * 4;
          lenWords = toWordSize dataLen;
          access = (\<lambda>gas. Inr (gas + of_nat (length accessList) * 2400 + of_nat (StorageKeys accessList) * 1900))
      in if dataLen > 0 then
           (if (- 1 - gas0) div nonZeroGas < nz then Inl ErrGasUintOverflow
            else if (- 1 - gas1) div 4 < z then Inl ErrGasUintOverflow
            else if isContractCreation \<and> isEIP3860 then
              (if (- 1 - gas2) div 2 < lenWords then Inl ErrGasUintOverflow
               else access (gas2 + lenWords * 2))
            else access gas2)
         else access gas0)"

definition SubGas :: "uint64 \<Rightarrow> uint64 \<Rightarrow> core_error + uint64" where
  "SubGas gp amount = (if gp < amount then Inl ErrGasLimitReached else Inr (gp - amount))"

definition AddGas :: "uint64 \<Rightarrow> uint64 \<Rightarrow> core_error + uint64" where
  "AddGas gp amount = (if gp > - 1 - amount then Inl Panic else Inr (gp + amount))"

subsection \<open>The state transition\<close>

definition blobGasUsed :: "message \<Rightarrow> nat" where
  "blobGasUsed msg = (case m_BlobHashes msg of None \<Rightarrow> 0 | Some hs \<Rightarrow> length hs * 131072)"

text \<open>The amount charged and the balance required for it: gas, and blob gas where blobs are carried; the blob base fee must be present then.\<close>

definition gas_cost :: "ZephyriaEVM \<Rightarrow> message \<Rightarrow> (int \<times> int) option" where
  "gas_cost z msg =
     (let mgval = int (unat (m_GasLimit msg)) * m_GasPrice msg;
          balanceCheck = int (unat (m_GasLimit msg)) * m_GasFeeCap msg + m_Value msg;
          blobGas = int (blobGasUsed msg)
      in if IsCancun (chainConfig z) (b_BlockNumber (Context z)) (b_Time (Context z)) \<and> blobGas > 0
         then (case (m_BlobGasFeeCap msg, b_BlobBaseFee (Context z)) of
                 (Some cap, Some b) \<Rightarrow> Some (mgval + blobGas * b, balanceCheck + blobGas * cap)
               | _ \<Rightarrow> None)
         else Some (mgval, balanceCheck))"

definition buyGas ::
    "(bytes \<Rightarrow> hash) \<Rightarrow> ZephyriaEVM \<Rightarrow> message \<Rightarrow> uint64 \<Rightarrow> statedb \<Rightarrow> core_error + statedb \<times> uint64" where
  "buyGas K z msg gp s =
     (case gas_cost z msg of
        None \<Rightarrow> Inl Panic
      | Some (mgval, balanceCheck) \<Rightarrow>
          (let (want, overflow) = u256_FromBig balanceCheck
           in if overflow then Inl ErrInsufficientFunds
              else if GetBalance K s (m_From msg) < want then Inl ErrInsufficientFunds
              else case SubGas gp (m_GasLimit msg) of
                     Inl e \<Rightarrow> Inl e
                   | Inr gp' \<Rightarrow> Inr (fst (SubBalance K s (m_From msg) (fst (u256_FromBig mgval))), gp')))"

definition ParseDelegation :: "bytes \<Rightarrow> address option" where
  "ParseDelegation b = (if length b \<noteq> 23 \<or> take 3 b \<noteq> [0xEF, 0x01, 0x00] then None
     else Some (BytesToAddress (drop 3 b)))"

definition nonce_check :: "(bytes \<Rightarrow> hash) \<Rightarrow> statedb \<Rightarrow> message \<Rightarrow> core_error option" where
  "nonce_check K s msg =
     (let stNonce = GetNonce K s (m_From msg) in
      if m_SkipNonceChecks msg then None
      else if stNonce < m_Nonce msg then Some ErrNonceTooHigh
      else if stNonce > m_Nonce msg then Some ErrNonceTooLow
      else if stNonce + 1 < stNonce then Some ErrNonceMax
      else None)"

text \<open>The London checks; comparing with an absent base fee panics.\<close>

definition fee_check :: "ZephyriaEVM \<Rightarrow> message \<Rightarrow> core_error option" where
  "fee_check z msg =
     (if \<not> IsLondon (chainConfig z) (b_BlockNumber (Context z)) then None
      else if 2 ^ 256 \<le> \<bar>m_GasFeeCap msg\<bar> then Some ErrFeeCapVeryHigh
      else if 2 ^ 256 \<le> \<bar>m_GasTipCap msg\<bar> then Some ErrTipVeryHigh
      else if m_GasFeeCap msg < m_GasTipCap msg then Some ErrTipAboveFeeCap
      else case b_BaseFee (Context z) of
             None \<Rightarrow> Some Panic
           | Some b \<Rightarrow> (if m_GasFeeCap msg < b then Some ErrFeeCapTooLow else None))"

text \<open>The checks of the blob hashes and of the blob fee; comparing with the absent blob base fee panics.\<close>

definition blob_check :: "ZephyriaEVM \<Rightarrow> message \<Rightarrow> core_error option" where
  "blob_check z msg =
     (case m_BlobHashes msg of
        None \<Rightarrow> None
      | Some hs \<Rightarrow>
          (if m_To msg = None then Some ErrBlobTxCreate
           else if hs = [] then Some ErrMissingBlobHashes
           else if \<exists>h \<in> set hs. hd (hash_Bytes h) \<noteq> 1 then Some ErrBlobHashVersion
           else if IsCancun (chainConfig z) (b_BlockNumber (Context z)) (b_Time (Context z))
           then (case b_BlobBaseFee (Context z) of
                   None \<Rightarrow> Some Panic
                 | Some b \<Rightarrow> (case m_BlobGasFeeCap msg of
                                None \<Rightarrow> Some Panic
                              | Some cap \<Rightarrow> (if cap < b then Some ErrBlobFeeCapTooLow else None)))
           else None))"

definition preCheck ::
    "(bytes \<Rightarrow> hash) \<Rightarrow> 'd leveldb \<Rightarrow> 'd \<Rightarrow> ZephyriaEVM \<Rightarrow> message \<Rightarrow> uint64 \<Rightarrow> statedb
      \<Rightarrow> core_error + statedb \<times> uint64" where
  "preCheck K D d z msg gp s =
     (case nonce_check K s msg of
        Some e \<Rightarrow> Inl e
      | None \<Rightarrow>
          (let (c, s1) = (if m_SkipTransactionChecks msg then ([], s) else GetCode K D d s (m_From msg))
           in if length c > 0 \<and> ParseDelegation c = None then Inl ErrSenderNoEOA
              else case fee_check z msg of
                     Some e \<Rightarrow> Inl e
                   | None \<Rightarrow>
                       (case blob_check z msg of
                          Some e \<Rightarrow> Inl e
                        | None \<Rightarrow> buyGas K z msg gp s1)))"

record execution_result =
  UsedGas :: uint64
  MaxUsedGas :: uint64
  Err :: "vm_error option"
  ReturnData :: bytes

definition Failed :: "execution_result \<Rightarrow> bool" where
  "Failed res \<longleftrightarrow> Err res \<noteq> None"

definition calcRefund :: "ZephyriaEVM \<Rightarrow> statedb \<Rightarrow> uint64 \<Rightarrow> uint64" where
  "calcRefund z s used =
     (let refund = (if \<not> IsLondon (chainConfig z) (b_BlockNumber (Context z)) then used div 2 else used div 5)
      in if refund > GetRefund s then GetRefund s else refund)"

text \<open>The call or creation of the message, with the nonce of a caller incremented first.\<close>

definition run_message ::
    "evm \<Rightarrow> (bytes \<Rightarrow> hash) \<Rightarrow> 'd leveldb \<Rightarrow> 'd \<Rightarrow> ZephyriaEVM \<Rightarrow> message \<Rightarrow> uint64 \<Rightarrow> uint256 \<Rightarrow> statedb
      \<Rightarrow> statedb \<times> bytes \<times> uint64 \<times> vm_error option" where
  "run_message E K D d z msg gas value s =
     (case m_To msg of
        None \<Rightarrow> evm_Create E K z msg s (m_From msg) (m_Data msg) gas value
      | Some to \<Rightarrow>
          (let s1 = SetNonce K s (m_From msg) (GetNonce K s (m_From msg) + 1);
               s2 = snd (GetCode K D d s1 to)
           in evm_Call E K D d z msg s2 (m_From msg) to (m_Data msg) gas value))"

text \<open>Returning the gas that is left to the sender, and the fee to the coinbase.\<close>

definition settle_gas ::
    "(bytes \<Rightarrow> hash) \<Rightarrow> ZephyriaEVM \<Rightarrow> message \<Rightarrow> uint64 \<Rightarrow> statedb \<Rightarrow> uint64 \<Rightarrow> core_error + statedb" where
  "settle_gas K z msg gp s gasRemaining =
     (case u256_MustFromBig (m_GasPrice msg) of
        None \<Rightarrow> Inl Panic
      | Some price \<Rightarrow>
          (let s1 = fst (AddBalance K s (m_From msg) (of_nat (unat gasRemaining) * price)) in
           case AddGas gp gasRemaining of
             Inl e \<Rightarrow> Inl e
           | Inr _ \<Rightarrow>
               (let pay = (\<lambda>effectiveTip.
                      Inr (fst (AddBalance K s1 (b_Coinbase (Context z))
                        (of_nat (unat (m_GasLimit msg - gasRemaining)) * fst (u256_FromBig effectiveTip)))))
                in if r_IsLondon (chainRules z)
                   then (case b_BaseFee (Context z) of
                           None \<Rightarrow> Inl Panic
                         | Some b \<Rightarrow> pay (m_GasPrice msg - b))
                   else pay (m_GasPrice msg))))"

definition execute ::
    "evm \<Rightarrow> (bytes \<Rightarrow> hash) \<Rightarrow> 'd leveldb \<Rightarrow> 'd \<Rightarrow> ZephyriaEVM \<Rightarrow> message \<Rightarrow> uint64 \<Rightarrow> statedb
      \<Rightarrow> core_error + statedb \<times> execution_result" where
  "execute E K D d z msg gp s =
     (case preCheck K D d z msg gp s of
        Inl e \<Rightarrow> Inl e
      | Inr (s1, gp1) \<Rightarrow>
          (let rul = Rules (chainConfig z) (b_BlockNumber (Context z)) (b_Random (Context z) \<noteq> None) (b_Time (Context z));
               contractCreation = (m_To msg = None)
           in case IntrinsicGas (m_Data msg) (m_AccessList msg) contractCreation
                     (r_IsHomestead rul) (r_IsIstanbul rul) (r_IsShanghai rul) of
                Inl e \<Rightarrow> Inl e
              | Inr gas \<Rightarrow>
                  (if m_GasLimit msg < gas then Inl ErrIntrinsicGas
                   else
                     (let (value, overflow) = u256_FromBig (m_Value msg) in
                      if overflow then Inl ErrInsufficientFundsForTransfer
                      else if value \<noteq> 0 \<and> \<not> CanTransfer K s1 (m_From msg) value
                      then Inl ErrInsufficientFundsForTransfer
                      else if r_IsShanghai rul \<and> contractCreation \<and> length (m_Data msg) > 262144
                      then Inl ErrMaxInitCodeSizeExceeded
                      else
                        (let (s2, ret, left, vmerr) =
                               run_message E K D d z msg (m_GasLimit msg - gas) value s1;
                             peakGasUsed = m_GasLimit msg - left;
                             gasRemaining = left + calcRefund z s2 (m_GasLimit msg - left)
                         in case settle_gas K z msg gp1 s2 gasRemaining of
                              Inl e \<Rightarrow> Inl e
                            | Inr s3 \<Rightarrow>
                                Inr (s3, \<lparr>UsedGas = m_GasLimit msg - gasRemaining, MaxUsedGas = peakGasUsed,
                                          Err = vmerr, ReturnData = ret\<rparr>))))))"

definition ApplyMessage ::
    "evm \<Rightarrow> (bytes \<Rightarrow> hash) \<Rightarrow> 'd leveldb \<Rightarrow> 'd \<Rightarrow> ZephyriaEVM \<Rightarrow> message \<Rightarrow> uint64 \<Rightarrow> statedb
      \<Rightarrow> core_error + statedb \<times> execution_result" where
  "ApplyMessage E K D d z msg gp s = execute E K D d z msg gp s"

subsection \<open>Frames\<close>

text \<open>
  \<open>frame K S X s s'\<close>: \<open>s'\<close> is a well-formed successor of \<open>s\<close> that differs from it, among the
  slots \<open>S\<close>, at most on \<open>X\<close>, and keeps everything besides the slots.
\<close>

definition frame :: "(bytes \<Rightarrow> hash) \<Rightarrow> slot set \<Rightarrow> slot set \<Rightarrow> statedb \<Rightarrow> statedb \<Rightarrow> bool" where
  "frame K S X s s' \<longleftrightarrow> statedb_ok s' \<and> parent s' = parent s \<and> code (statedb.fields s') = code (statedb.fields s) \<and>
     has_db (statedb.fields s') = has_db (statedb.fields s) \<and> logs (statedb.fields s') = logs (statedb.fields s) \<and>
     (\<forall>y \<in> S. y \<notin> X \<longrightarrow> read_slot K s' y = read_slot K s y)"

lemma frame_trans:
  "frame K S X s s' \<Longrightarrow> frame K S Y s' s'' \<Longrightarrow> X \<union> Y \<subseteq> Z \<Longrightarrow> frame K S Z s s''"
  by (unfold frame_def, intro conjI ballI impI) (metis UnCI subsetD)+

lemma frame_ok: "frame K S X s s' \<Longrightarrow> statedb_ok s'"
  by (simp add: frame_def)

lemma frame_reads:
  assumes "frame K S X s s'"
  shows "BalanceOf a \<in> S \<Longrightarrow> BalanceOf a \<notin> X \<Longrightarrow> GetBalance K s' a = GetBalance K s a"
    and "NonceOf a \<in> S \<Longrightarrow> NonceOf a \<notin> X \<Longrightarrow> GetNonce K s' a = GetNonce K s a"
    and "CodeHashOf a \<in> S \<Longrightarrow> CodeHashOf a \<notin> X \<Longrightarrow> GetCodeHash K s' a = GetCodeHash K s a"
  using assms by (simp_all add: frame_def getters_as_slots)

lemma AddBalance_frame:
  assumes "statedb_ok s" "collision_free K S" "BalanceOf a \<in> S"
  shows "frame K S {BalanceOf a} s (fst (AddBalance K s a v))"
    and "GetBalance K (fst (AddBalance K s a v)) a = GetBalance K s a + v"
  using SetBalance_slots [OF assms(1)] assms
  by (simp_all add: frame_def AddBalance_def addBalance_h_def Let_def setters_as_slots)

lemma SubBalance_Add: "SubBalance K s a v = AddBalance K s a (- v)"
  by (simp add: SubBalance_def AddBalance_def)

lemma SetNonce_frame:
  assumes "statedb_ok s" "collision_free K S" "NonceOf a \<in> S"
  shows "frame K S {NonceOf a} s (SetNonce K s a n)"
    and "GetNonce K (SetNonce K s a n) a = of_int \<bar>sint n\<bar>"
  using SetNonce_slots [OF assms(1)] assms
  by (simp_all add: frame_def setters_as_slots)

lemma Transfer_frame:
  assumes "statedb_ok s" "collision_free K S" "BalanceOf a \<in> S" "BalanceOf b \<in> S" "a \<noteq> b"
  shows "frame K S {BalanceOf a, BalanceOf b} s (Transfer K s a b v)"
    and "GetBalance K (Transfer K s a b v) a = GetBalance K s a - v"
    and "GetBalance K (Transfer K s a b v) b = GetBalance K s b + v"
proof -
  let ?t = "fst (AddBalance K s a (- v))"
  note t = AddBalance_frame [OF assms(1-3), of "- v"]
  note u = AddBalance_frame [OF frame_ok [OF t(1)] assms(2,4), of v]
  show "frame K S {BalanceOf a, BalanceOf b} s (Transfer K s a b v)"
    using frame_trans [OF t(1) u(1)] by (simp add: Transfer_def SubBalance_Add)
  show "GetBalance K (Transfer K s a b v) a = GetBalance K s a - v"
    using frame_reads(1) [OF u(1), of a] t(2) assms by (simp add: Transfer_def SubBalance_Add)
  show "GetBalance K (Transfer K s a b v) b = GetBalance K s b + v"
    using frame_reads(1) [OF t(1), of b] u(2) assms by (simp add: Transfer_def SubBalance_Add)
qed

text \<open>An account whose code lookup finds nothing and caches nothing.\<close>

definition no_code :: "(bytes \<Rightarrow> hash) \<Rightarrow> 'd leveldb \<Rightarrow> 'd \<Rightarrow> statedb \<Rightarrow> address \<Rightarrow> bool" where
  "no_code K D d s a \<longleftrightarrow> GetCode K D d s a = ([], s)"

lemma cache_code_same: "cache_code s h c = s \<longleftrightarrow> AList.update h c (code (statedb.fields s)) = code (statedb.fields s)"
  by (cases s) (auto simp: cache_code_def dest: arg_cong [of _ _ code])

lemma no_code_frame:
  assumes "frame K S X s s'" "CodeHashOf a \<in> S" "CodeHashOf a \<notin> X"
  shows "no_code K D d s' a \<longleftrightarrow> no_code K D d s a"
  using assms(1) frame_reads(3) [OF assms]
  by (auto simp: no_code_def GetCode_def Let_def frame_def cache_code_same split: option.splits)

subsection \<open>Properties\<close>

lemma rules_of_networks:
  assumes "0 \<le> Number h"
  shows "IsLondon (ChainConfigOf net) (Number h)" "IsCancun (ChainConfigOf net) (Number h) t"
    "r_IsLondon (Rules (ChainConfigOf net) (Number h) m t)"
    "r_IsHomestead (Rules (ChainConfigOf net) (Number h) m t)"
    "r_IsIstanbul (Rules (ChainConfigOf net) (Number h) m t)"
    "r_IsEIP158 (Rules (ChainConfigOf net) (Number h) m t)"
    "r_IsShanghai (Rules (ChainConfigOf net) (Number h) m t) = m"
    "r_IsCancun (Rules (ChainConfigOf net) (Number h) m t) = m"
  using assms by (simp_all add: Rules_def Let_def IsLondon_def IsCancun_def IsShanghai_def ChainConfigOf_def
      isBlockForked_def isTimestampForked_def)

lemma NewEVM_sel [simp]:
  "chainConfig (NewEVM h cfg gh) = cfg"
  "chainRules (NewEVM h cfg gh) = Rules cfg (Number h) False (Time h)"
  "b_Coinbase (Context (NewEVM h cfg gh)) = Coinbase h"
  "b_BlockNumber (Context (NewEVM h cfg gh)) = Number h"
  "b_Time (Context (NewEVM h cfg gh)) = Time h"
  "b_BaseFee (Context (NewEVM h cfg gh)) = BaseFee h"
  "b_Random (Context (NewEVM h cfg gh)) = None"
  "b_BlobBaseFee (Context (NewEVM h cfg gh)) = None"
  by (simp_all add: NewEVM_def Let_def)

lemma IntrinsicGas_plain [simp]: "IntrinsicGas [] [] False a b c = Inr 21000"
  by (simp add: IntrinsicGas_def Let_def StorageKeys_def)


text \<open>A plain transfer: no data, no blobs, and every field within the bounds a node checks.\<close>

definition plain_message :: "message \<Rightarrow> address \<Rightarrow> address \<Rightarrow> bool" where
  "plain_message msg sender to \<longleftrightarrow> m_From msg = sender \<and> m_To msg = Some to \<and> m_Data msg = [] \<and>
     m_AccessList msg = [] \<and> m_BlobHashes msg = None \<and> \<not> m_SkipNonceChecks msg \<and>
     \<not> m_SkipTransactionChecks msg \<and> 21000 \<le> m_GasLimit msg \<and> 0 \<le> m_Value msg \<and>
     0 \<le> m_GasTipCap msg \<and> m_GasTipCap msg \<le> m_GasFeeCap msg \<and> m_GasFeeCap msg < 2 ^ 256"

definition can_pay :: "(bytes \<Rightarrow> hash) \<Rightarrow> statedb \<Rightarrow> message \<Rightarrow> bool" where
  "can_pay K s msg \<longleftrightarrow>
     int (unat (m_GasLimit msg)) * m_GasFeeCap msg + m_Value msg \<le> uint (GetBalance K s (m_From msg))"

lemma uint_GetBalance: "uint (GetBalance K s a) < 2 ^ 256"
  using uint_lt2p [of "GetBalance K s a"] by simp

lemma plain_preCheck:
  assumes msg: "plain_message msg sender to" and pay: "can_pay K s msg"
    and num: "0 \<le> Number h" and fee: "BaseFee h = Some b" "0 \<le> b" "b \<le> m_GasPrice msg" "m_GasPrice msg \<le> m_GasFeeCap msg"
    and nonce: "GetNonce K s sender = m_Nonce msg" "m_Nonce msg < 2 ^ 63 - 1"
    and code: "no_code K D d s sender" and gp: "m_GasLimit msg \<le> gp"
  shows "preCheck K D d (NewEVM h (ChainConfigOf net) gh) msg gp s
    = Inr (fst (SubBalance K s sender (of_int (int (unat (m_GasLimit msg)) * m_GasPrice msg))), gp - m_GasLimit msg)"
proof -
  define c where "c = int (unat (m_GasLimit msg)) * m_GasFeeCap msg + m_Value msg"
  have c0: "0 \<le> c" "c \<le> uint (GetBalance K s sender)"
    using msg pay by (simp_all add: c_def plain_message_def can_pay_def)
  then have c: "\<bar>c\<bar> < 2 ^ 256" "\<not> GetBalance K s sender < of_int c"
    using uint_GetBalance [of K s sender] by (simp_all add: word_less_def uint_of_int_u256)
  have nc: "nonce_check K s msg = None"
    using nonce msg by (simp add: nonce_check_def Let_def plain_message_def word_less_nat_alt unat_word_ariths)
  have "fee_check (NewEVM h (ChainConfigOf net) gh) msg = None"
    using msg fee num by (simp add: fee_check_def rules_of_networks plain_message_def)
  moreover have "buyGas K (NewEVM h (ChainConfigOf net) gh) msg gp s
     = Inr (fst (SubBalance K s sender (of_int (int (unat (m_GasLimit msg)) * m_GasPrice msg))), gp - m_GasLimit msg)"
  proof -
    have "gas_cost (NewEVM h (ChainConfigOf net) gh) msg = Some (int (unat (m_GasLimit msg)) * m_GasPrice msg, c)"
      using msg by (simp add: gas_cost_def blobGasUsed_def plain_message_def c_def)
    then show ?thesis
      using c gp msg by (simp add: buyGas_def plain_message_def u256_FromBig_def SubGas_def not_less [symmetric])
  qed
  ultimately show ?thesis
    using nc code msg by (simp add: preCheck_def plain_message_def no_code_def blob_check_def)
qed


lemma plain_run:
  assumes "plain_message msg sender to" "0 \<le> Number h"
    and "evm_precompile E (Rules (ChainConfigOf net) (Number h) False (Time h)) to = None"
    and "no_code K D d (SetNonce K s sender (GetNonce K s sender + 1)) to"
    and "no_code K D d (Transfer K (SetNonce K s sender (GetNonce K s sender + 1)) sender to value) to"
    and "value \<le> GetBalance K (SetNonce K s sender (GetNonce K s sender + 1)) sender"
  shows "run_message E K D d (NewEVM h (ChainConfigOf net) gh) msg gas value s
    = (Transfer K (SetNonce K s sender (GetNonce K s sender + 1)) sender to value, [], gas, None)"
  using assms by (simp add: run_message_def plain_message_def no_code_def evm_Call_def Let_def CanTransfer_def
      Exist_def call_end_def)

text \<open>Everything a plain transfer needs to be applied, \<open>b\<close> being the base fee.\<close>

definition transfer_ready ::
    "evm \<Rightarrow> (bytes \<Rightarrow> hash) \<Rightarrow> 'd leveldb \<Rightarrow> 'd \<Rightarrow> NetworkConfig \<Rightarrow> header \<Rightarrow> message \<Rightarrow> statedb
      \<Rightarrow> address \<Rightarrow> address \<Rightarrow> int \<Rightarrow> bool" where
  "transfer_ready E K D d net h msg s sender to b \<longleftrightarrow>
     plain_message msg sender to \<and> can_pay K s msg \<and> statedb_ok s \<and> distinct [sender, to, Coinbase h] \<and>
     0 \<le> Number h \<and> BaseFee h = Some b \<and> 0 \<le> b \<and> b \<le> m_GasPrice msg \<and> m_GasPrice msg \<le> m_GasFeeCap msg \<and>
     GetNonce K s sender = m_Nonce msg \<and> m_Nonce msg < 2 ^ 63 - 1 \<and>
     no_code K D d s sender \<and> no_code K D d s to \<and>
     evm_precompile E (Rules (ChainConfigOf net) (Number h) False (Time h)) to = None"

definition transfer_slots :: "address \<Rightarrow> address \<Rightarrow> address \<Rightarrow> slot set" where
  "transfer_slots sender to cb = {BalanceOf sender, BalanceOf to, BalanceOf cb, NonceOf sender}"

lemma gas_pool_return:
  fixes gp lim :: uint64
  assumes "21000 \<le> lim" "lim \<le> gp"
  shows "AddGas (gp - lim) (lim - 21000) = Inr (gp - 21000)"
proof -
  have "unat (gp - lim) = unat gp - unat lim" "unat (lim - 21000) = unat lim - 21000"
    "unat lim \<le> unat gp" "21000 \<le> unat lim"
    using assms by (simp_all add: unat_sub word_le_nat_alt)
  moreover have "unat (- 1 - (lim - 21000)) = 2 ^ 64 - 1 - unat (lim - 21000)"
    by (subst unat_sub) (simp_all add: unsigned_minus_1_eq_mask mask_eq_exp_minus_1)
  moreover have "unat gp < 2 ^ 64" using unsigned_less [of gp, where ?'a = nat] by simp
  ultimately have "\<not> gp - lim > - 1 - (lim - 21000)"
    by (simp add: word_less_nat_alt)
  then show ?thesis by (simp add: AddGas_def)
qed

lemma next_nonce:
  assumes "statedb_ok s" "n < 2 ^ 63 - 1"
  shows "GetNonce K (SetNonce K s a (n + 1)) a = n + 1"
proof -
  have "unat n < 2 ^ 63 - 1" using assms(2) by (simp add: word_less_nat_alt)
  then have "unat (n + 1) \<le> 2 ^ 63" by (simp add: unat_word_ariths)
  then show ?thesis using GetNonce_SetNonce [OF assms(1), of K a "n + 1"] by simp
qed


text \<open>The states a plain transfer goes through: gas bought, nonce set, value moved, gas returned, tip paid.\<close>

definition transfer_result :: "(bytes \<Rightarrow> hash) \<Rightarrow> header \<Rightarrow> message \<Rightarrow> statedb \<Rightarrow> address \<Rightarrow> address \<Rightarrow> int \<Rightarrow> statedb" where
  "transfer_result K h msg s sender to b =
     (let s1 = fst (SubBalance K s sender (of_int (int (unat (m_GasLimit msg)) * m_GasPrice msg)));
          s2 = SetNonce K s1 sender (GetNonce K s1 sender + 1);
          s3 = Transfer K s2 sender to (of_int (m_Value msg));
          s4 = fst (AddBalance K s3 sender (of_nat (unat (m_GasLimit msg - 21000)) * of_int (m_GasPrice msg)))
      in fst (AddBalance K s4 (Coinbase h) (of_nat 21000 * of_int (m_GasPrice msg - b))))"

lemma transfer_result_view:
  assumes ready: "transfer_ready E K D d net h msg s sender to b"
    and S: "collision_free K S" "transfer_slots sender to (Coinbase h) \<subseteq> S"
  shows "frame K S (transfer_slots sender to (Coinbase h)) s (transfer_result K h msg s sender to b)"
    and "GetBalance K (transfer_result K h msg s sender to b) sender
      = GetBalance K s sender - of_int (m_Value msg) - 21000 * of_int (m_GasPrice msg)"
    and "GetBalance K (transfer_result K h msg s sender to b) to = GetBalance K s to + of_int (m_Value msg)"
    and "GetBalance K (transfer_result K h msg s sender to b) (Coinbase h)
      = GetBalance K s (Coinbase h) + of_int (21000 * (m_GasPrice msg - b))"
    and "GetNonce K (transfer_result K h msg s sender to b) sender = m_Nonce msg + 1"
proof -
  define s1 where "s1 = fst (AddBalance K s sender (- of_int (int (unat (m_GasLimit msg)) * m_GasPrice msg)))"
  define s2 where "s2 = SetNonce K s1 sender (GetNonce K s1 sender + 1)"
  define s3 where "s3 = Transfer K s2 sender to (of_int (m_Value msg))"
  define s4 where "s4 = fst (AddBalance K s3 sender (of_nat (unat (m_GasLimit msg - 21000)) * of_int (m_GasPrice msg)))"
  define s5 where "s5 = fst (AddBalance K s4 (Coinbase h) (of_nat 21000 * of_int (m_GasPrice msg - b)))"
  have r: "transfer_result K h msg s sender to b = s5"
    by (simp add: transfer_result_def s1_def s2_def s3_def s4_def s5_def SubBalance_Add Let_def)
  have ok: "statedb_ok s" and ne: "sender \<noteq> to" "sender \<noteq> Coinbase h" "to \<noteq> Coinbase h"
    and nonce: "GetNonce K s sender = m_Nonce msg" "m_Nonce msg < 2 ^ 63 - 1" and lim: "21000 \<le> m_GasLimit msg"
    using ready by (auto simp: transfer_ready_def plain_message_def)
  have mem: "BalanceOf sender \<in> S" "BalanceOf to \<in> S" "BalanceOf (Coinbase h) \<in> S" "NonceOf sender \<in> S"
    using S(2) by (auto simp: transfer_slots_def)
  note f1 = AddBalance_frame [OF ok S(1) mem(1), of "- of_int (int (unat (m_GasLimit msg)) * m_GasPrice msg)", folded s1_def]
  note f2 = SetNonce_frame(1) [OF frame_ok [OF f1(1)] S(1) mem(4), of "GetNonce K s1 sender + 1", folded s2_def]
  note f3 = Transfer_frame [OF frame_ok [OF f2] S(1) mem(1,2) ne(1), of "of_int (m_Value msg)", folded s3_def]
  note f4 = AddBalance_frame [OF frame_ok [OF f3(1)] S(1) mem(1),
    of "of_nat (unat (m_GasLimit msg - 21000)) * of_int (m_GasPrice msg)", folded s4_def]
  note f5 = AddBalance_frame [OF frame_ok [OF f4(1)] S(1) mem(3), of "of_nat 21000 * of_int (m_GasPrice msg - b)", folded s5_def]
  note reads = frame_reads [OF f1(1)] frame_reads [OF f2] frame_reads [OF f3(1)] frame_reads [OF f4(1)] frame_reads [OF f5(1)]
  show "frame K S (transfer_slots sender to (Coinbase h)) s (transfer_result K h msg s sender to b)"
    unfolding r transfer_slots_def
    by (rule frame_trans [OF frame_trans [OF frame_trans [OF frame_trans [OF f1(1) f2 order_refl] f3(1) order_refl]
        f4(1) order_refl] f5(1)]) auto
  show "GetBalance K (transfer_result K h msg s sender to b) to = GetBalance K s to + of_int (m_Value msg)"
    "GetBalance K (transfer_result K h msg s sender to b) (Coinbase h)
      = GetBalance K s (Coinbase h) + of_int (21000 * (m_GasPrice msg - b))"
    using ne mem f3(3) f5(2) by (simp_all add: r reads)
  show "GetNonce K (transfer_result K h msg s sender to b) sender = m_Nonce msg + 1"
    using ne mem nonce next_nonce [OF frame_ok [OF f1(1)]] by (simp add: r reads) (simp add: s2_def reads)
  have "of_nat (unat (m_GasLimit msg - 21000)) = (of_nat (unat (m_GasLimit msg)) - 21000 :: uint256)"
    using lim by (simp add: unat_sub word_le_nat_alt)
  then have left: "ucast (m_GasLimit msg - 21000) = (ucast (m_GasLimit msg) - 21000 :: uint256)" by simp
  have "GetBalance K s5 sender = GetBalance K s sender - ucast (m_GasLimit msg) * of_int (m_GasPrice msg)
      - of_int (m_Value msg) + (ucast (m_GasLimit msg) - 21000) * of_int (m_GasPrice msg)"
    using ne mem f1(2) f3(2) f4(2) by (simp add: reads left)
  then show "GetBalance K (transfer_result K h msg s sender to b) sender
      = GetBalance K s sender - of_int (m_Value msg) - 21000 * of_int (m_GasPrice msg)"
    by (simp add: r algebra_simps)
qed


lemma apply_plain_transfer:
  assumes ready: "transfer_ready E K D d net h msg s sender to b" and gp: "m_GasLimit msg \<le> gp"
    and S: "collision_free K S" "transfer_slots sender to (Coinbase h) \<subseteq> S"
      "CodeHashOf sender \<in> S" "CodeHashOf to \<in> S"
  shows "ApplyMessage E K D d (NewEVM h (ChainConfigOf net) gh) msg gp s
    = Inr (transfer_result K h msg s sender to b,
        \<lparr>UsedGas = 21000, MaxUsedGas = 21000, Err = None, ReturnData = []\<rparr>)"
proof -
  define P where "P = int (unat (m_GasLimit msg)) * m_GasPrice msg"
  define s1 where "s1 = fst (SubBalance K s sender (of_int P))"
  define s2 where "s2 = SetNonce K s1 sender (GetNonce K s1 sender + 1)"
  define v where "v = (of_int (m_Value msg) :: uint256)"
  note rd = ready [unfolded transfer_ready_def]
  have msg: "plain_message msg sender to" and num: "0 \<le> Number h" and lim: "21000 \<le> m_GasLimit msg"
    and ok: "statedb_ok s" and ne: "sender \<noteq> to" using rd by (auto simp: plain_message_def)
  have mem: "BalanceOf sender \<in> S" "BalanceOf to \<in> S" "NonceOf sender \<in> S"
    using S(2) by (auto simp: transfer_slots_def)
  have pre: "preCheck K D d (NewEVM h (ChainConfigOf net) gh) msg gp s = Inr (s1, gp - m_GasLimit msg)"
    unfolding s1_def P_def using rd gp by (intro plain_preCheck) auto
  note f1 = AddBalance_frame [OF ok S(1) mem(1), of "- of_int P", folded SubBalance_Add, folded s1_def]
  note f2 = SetNonce_frame(1) [OF frame_ok [OF f1(1)] S(1) mem(3), of "GetNonce K s1 sender + 1", folded s2_def]
  note f3 = Transfer_frame(1) [OF frame_ok [OF f2] S(1) mem(1,2) ne, of v]
  have PV: "0 \<le> P" "0 \<le> m_Value msg" "P + m_Value msg \<le> uint (GetBalance K s sender)"
    and price: "0 \<le> m_GasPrice msg" "m_GasPrice msg < 2 ^ 256"
    using rd mult_left_mono [of "m_GasPrice msg" "m_GasFeeCap msg" "int (unat (m_GasLimit msg))"]
    by (auto simp: P_def can_pay_def plain_message_def)
  have "GetBalance K s1 sender = of_int (uint (GetBalance K s sender) - P)" using f1(2) by simp
  then have "uint (GetBalance K s1 sender) = uint (GetBalance K s sender) - P"
    using PV uint_GetBalance [of K s sender] by (subst uint_of_int_u256 [symmetric]) auto
  then have v: "\<not> 2 ^ 256 \<le> \<bar>m_Value msg\<bar>" "v \<le> GetBalance K s1 sender"
    using PV uint_GetBalance [of K s sender] by (simp_all add: v_def word_le_def uint_of_int_u256)
  have run: "run_message E K D d (NewEVM h (ChainConfigOf net) gh) msg (m_GasLimit msg - 21000) v s1
      = (Transfer K s2 sender to v, [], m_GasLimit msg - 21000, None)"
  proof (unfold s2_def, rule plain_run [OF msg num])
    show "no_code K D d (SetNonce K s1 sender (GetNonce K s1 sender + 1)) to"
      "no_code K D d (Transfer K (SetNonce K s1 sender (GetNonce K s1 sender + 1)) sender to v) to"
      using rd S(4) by (simp_all add: no_code_frame [OF f1(1)] no_code_frame [OF f2] no_code_frame [OF f3] flip: s2_def)
  qed (use rd v frame_reads(1) [OF f2] mem in \<open>simp_all flip: s2_def\<close>)
  have settle: "settle_gas K (NewEVM h (ChainConfigOf net) gh) msg (gp - m_GasLimit msg) (Transfer K s2 sender to v)
      (m_GasLimit msg - 21000) = Inr (transfer_result K h msg s sender to b)"
    using price rd gas_pool_return [OF lim gp] msg
    by (simp add: settle_gas_def u256_MustFromBig_def u256_FromBig_def rules_of_networks transfer_result_def Let_def
        plain_message_def s2_def s1_def P_def v_def)
  have "u256_FromBig (m_Value msg) = (v, False)" using v by (simp add: u256_FromBig_def v_def)
  then show ?thesis
    using msg num lim v run settle
    by (simp add: ApplyMessage_def execute_def pre plain_message_def CanTransfer_def calcRefund_def GetRefund_def
        not_less Let_def)
qed


lemma transfer_cost:
  assumes "transfer_ready E K D d net h msg s sender to b"
  shows "uint (GetBalance K s sender - of_int (m_Value msg) - 21000 * of_int (m_GasPrice msg))
    = uint (GetBalance K s sender) - m_Value msg - 21000 * m_GasPrice msg"
proof -
  define B where "B = uint (GetBalance K s sender)"
  have p: "0 \<le> m_GasPrice msg" "m_GasPrice msg \<le> m_GasFeeCap msg" "0 \<le> m_Value msg" "21000 \<le> uint (m_GasLimit msg)"
    "uint (m_GasLimit msg) * m_GasFeeCap msg + m_Value msg \<le> B"
    using assms by (auto simp: transfer_ready_def plain_message_def can_pay_def word_le_def B_def)
  moreover have "21000 * m_GasPrice msg \<le> uint (m_GasLimit msg) * m_GasFeeCap msg"
    using p by (intro mult_mono) auto
  ultimately have "0 \<le> B - m_Value msg - 21000 * m_GasPrice msg" "B - m_Value msg - 21000 * m_GasPrice msg < 2 ^ 256"
    using uint_GetBalance [of K s sender] by (auto simp: B_def)
  then have "uint (of_int (B - m_Value msg - 21000 * m_GasPrice msg) :: uint256) = B - m_Value msg - 21000 * m_GasPrice msg"
    by (rule uint_of_int_u256)
  then show ?thesis by (simp add: B_def)
qed

text \<open>The interpreter and the precompiled contracts never return more gas than they were given.\<close>

definition gas_ok :: "evm \<Rightarrow> bool" where
  "gas_ok E \<longleftrightarrow>
     (\<forall>z msg s ct input. fst (snd (snd (evm_Run E z msg s ct input))) \<le> ct_Gas ct) \<and>
     (\<forall>r a p input gas. evm_precompile E r a = Some p \<longrightarrow> fst (snd (p input gas)) \<le> gas)"

lemma evm_Call_gas:
  assumes E: "gas_ok E" and c: "evm_Call E K D d z msg s caller addr input gas value = (s', ret, left, err)"
  shows "left \<le> gas"
proof -
  have run: "fst (snd (snd (evm_Run E z msg t ct input))) \<le> ct_Gas ct" for t ct
    using E by (simp add: gas_ok_def)
  have pre: "fst (snd (p input gas)) \<le> gas" if "evm_precompile E r a = Some p" for r a p
    using E that unfolding gas_ok_def by blast
  have fin: "left \<le> gas" if "call_end sn x = (s', ret, left, err)" "fst (snd (snd x)) \<le> gas" for sn x
    using that by (auto simp: call_end_def split: if_splits prod.splits)
  show ?thesis
  proof (cases "evm_precompile E (chainRules z) addr")
    case None
    with c run [of _ "\<lparr>ct_caller = caller, ct_address = addr, ct_value = value, ct_Gas = gas, ct_Code = _\<rparr>"]
    show ?thesis
      by (auto simp: evm_Call_def Let_def Exist_def split: if_splits prod.splits elim!: fin)
  next
    case (Some p)
    with c show ?thesis
      by (auto simp: evm_Call_def Let_def Exist_def pre split: if_splits elim!: fin)
  qed
qed

lemma evm_Create_gas:
  assumes E: "gas_ok E" and c: "evm_Create E K z msg s caller input gas value = (s', ret, left, err)"
  shows "left \<le> gas"
proof -
  have run: "g \<le> ct_Gas ct" if "evm_Run E z msg t ct i = (u, r, g, e)" for t ct i u r g e
    using E that unfolding gas_ok_def by (metis fst_conv snd_conv)
  have sub: "g - k \<le> b" if "\<not> g < k" "g \<le> b" for g k b :: uint64
    using that by (metis linorder_not_less order_trans word_sub_le)
  have init: "g \<le> ct_Gas ct" if "initNewContract E K z msg t ct = (u, r, g, e)" for t ct u r g e
    using that by (auto simp: initNewContract_def Let_def split: prod.splits if_splits dest!: run intro: sub)
  show ?thesis
    using c by (auto simp: evm_Create_def Let_def split: if_splits prod.splits dest!: init)
qed

lemma run_message_gas:
  assumes "gas_ok E" "run_message E K D d z msg gas value s = (s', ret, left, err)"
  shows "left \<le> gas"
  using assms(2) evm_Call_gas [OF assms(1)] evm_Create_gas [OF assms(1)]
  by (auto simp: run_message_def Let_def split: option.splits)

lemma calcRefund_0 [simp]: "calcRefund z s used = 0"
  by (simp add: calcRefund_def GetRefund_def Let_def word_gt_0)

lemma SubGas_Inr: "SubGas gp lim = Inr gp' \<Longrightarrow> lim \<le> gp"
  by (auto simp: SubGas_def split: if_splits)

lemma preCheck_pool:
  "preCheck K D d z msg gp s = Inr (s1, gp1) \<Longrightarrow> m_GasLimit msg \<le> gp"
  by (auto simp: preCheck_def buyGas_def Let_def split: option.splits if_splits prod.splits sum.splits dest!: SubGas_Inr)

text \<open>C17. A plain transfer between accounts without code: 21000 gas are used, the sender pays the
  value and the gas at the effective price, the recipient receives the value, the coinbase the tip
  (the base fee is burnt), the nonce advances, nothing else changes, and the same message
  is refused afterwards.\<close>

theorem plain_transfer_applied:
  assumes ready: "transfer_ready E K D d net h msg s sender to b" and gp: "m_GasLimit msg \<le> gp"
    and S: "collision_free K S" "transfer_slots sender to (Coinbase h) \<subseteq> S"
      "CodeHashOf sender \<in> S" "CodeHashOf to \<in> S"
  shows "\<exists>s'. ApplyMessage E K D d (NewEVM h (ChainConfigOf net) gh) msg gp s
        = Inr (s', \<lparr>UsedGas = 21000, MaxUsedGas = 21000, Err = None, ReturnData = []\<rparr>) \<and>
      frame K S (transfer_slots sender to (Coinbase h)) s s' \<and>
      uint (GetBalance K s' sender) = uint (GetBalance K s sender) - m_Value msg - 21000 * m_GasPrice msg \<and>
      GetBalance K s' to = GetBalance K s to + of_int (m_Value msg) \<and>
      GetBalance K s' (Coinbase h) = GetBalance K s (Coinbase h) + of_int (21000 * (m_GasPrice msg - b)) \<and>
      GetNonce K s' sender = m_Nonce msg + 1 \<and>
      ApplyMessage E K D d (NewEVM h (ChainConfigOf net) gh) msg gp s' = Inl ErrNonceTooLow"
proof -
  let ?s' = "transfer_result K h msg s sender to b"
  note view = transfer_result_view [OF ready S(1,2)]
  have "uint (GetBalance K ?s' sender) = uint (GetBalance K s sender) - m_Value msg - 21000 * m_GasPrice msg"
    unfolding view(2) by (rule transfer_cost [OF ready])
  moreover have "ApplyMessage E K D d (NewEVM h (ChainConfigOf net) gh) msg gp ?s' = Inl ErrNonceTooLow"
  proof -
    have "m_Nonce msg < m_Nonce msg + 1" "\<not> m_SkipNonceChecks msg" "m_From msg = sender"
      using ready by (auto simp: transfer_ready_def plain_message_def word_less_nat_alt unat_word_ariths)
    then have "nonce_check K ?s' msg = Some ErrNonceTooLow"
      using view(5) by (simp add: nonce_check_def Let_def not_less_iff_gr_or_eq)
    then show ?thesis by (simp add: ApplyMessage_def execute_def preCheck_def)
  qed
  ultimately show ?thesis
    using apply_plain_transfer [OF ready gp S, of gh] view by blast
qed

lemma ApplyMessage_gas:
  assumes "gas_ok E" "ApplyMessage E K D d z msg gp s = Inr (s', res)"
  shows "\<exists>g. IntrinsicGas (m_Data msg) (m_AccessList msg) (m_To msg = None)
      (r_IsHomestead (Rules (chainConfig z) (b_BlockNumber (Context z)) (b_Random (Context z) \<noteq> None) (b_Time (Context z))))
      (r_IsIstanbul (Rules (chainConfig z) (b_BlockNumber (Context z)) (b_Random (Context z) \<noteq> None) (b_Time (Context z))))
      (r_IsShanghai (Rules (chainConfig z) (b_BlockNumber (Context z)) (b_Random (Context z) \<noteq> None) (b_Time (Context z))))
      = Inr g \<and> g \<le> UsedGas res \<and> UsedGas res \<le> m_GasLimit msg \<and> m_GasLimit msg \<le> gp"
proof -
  let ?rul = "Rules (chainConfig z) (b_BlockNumber (Context z)) (b_Random (Context z) \<noteq> None) (b_Time (Context z))"
  obtain s1 gp1 where pre: "preCheck K D d z msg gp s = Inr (s1, gp1)"
    using assms(2) by (auto simp: ApplyMessage_def execute_def split: sum.splits)
  obtain g where g: "IntrinsicGas (m_Data msg) (m_AccessList msg) (m_To msg = None)
      (r_IsHomestead ?rul) (r_IsIstanbul ?rul) (r_IsShanghai ?rul) = Inr g"
    using assms(2) pre by (auto simp: ApplyMessage_def execute_def Let_def split: sum.splits)
  obtain s2 ret left err where run: "run_message E K D d z msg (m_GasLimit msg - g) (fst (u256_FromBig (m_Value msg))) s1
      = (s2, ret, left, err)" by (metis prod_cases4)
  have lim: "g \<le> m_GasLimit msg" and used: "UsedGas res = m_GasLimit msg - left"
    using assms(2) pre g run by (auto simp: ApplyMessage_def execute_def Let_def u256_FromBig_def
        split: sum.splits if_splits)
  have "left \<le> m_GasLimit msg - g" by (rule run_message_gas [OF assms(1) run])
  then have "g \<le> UsedGas res" "UsedGas res \<le> m_GasLimit msg"
    using lim unfolding used by (simp_all add: word_le_nat_alt unat_sub)
  then show ?thesis using g preCheck_pool [OF pre] by blast
qed

text \<open>C18. Gas accounting of every applied message: the gas charged is at least the intrinsic gas
  and at most the limit of the message, which in turn was available in the pool.\<close>

theorem used_gas_bounds:
  assumes "gas_ok E" "ApplyMessage E K D d z msg gp s = Inr (s', res)"
  shows "\<exists>g. IntrinsicGas (m_Data msg) (m_AccessList msg) (m_To msg = None)
      (r_IsHomestead (Rules (chainConfig z) (b_BlockNumber (Context z)) (b_Random (Context z) \<noteq> None) (b_Time (Context z))))
      (r_IsIstanbul (Rules (chainConfig z) (b_BlockNumber (Context z)) (b_Random (Context z) \<noteq> None) (b_Time (Context z))))
      (r_IsShanghai (Rules (chainConfig z) (b_BlockNumber (Context z)) (b_Random (Context z) \<noteq> None) (b_Time (Context z))))
      = Inr g \<and> g \<le> UsedGas res \<and> UsedGas res \<le> m_GasLimit msg \<and> m_GasLimit msg \<le> gp"
  using assms by (rule ApplyMessage_gas)


text \<open>A transaction that carries blobs stops the node: once its nonce, sender, fee and blob
  hashes are in order, the comparison with the blob base fee, which the block context never
  sets, panics.\<close>

theorem blob_message_panics:
  assumes "0 \<le> Number h" "BaseFee h = Some b" "b \<le> m_GasFeeCap msg" "m_GasTipCap msg \<le> m_GasFeeCap msg"
    and "0 \<le> m_GasTipCap msg" "m_GasFeeCap msg < 2 ^ 256"
    and "nonce_check K s msg = None" "fst (GetCode K D d s (m_From msg)) = []" "\<not> m_SkipTransactionChecks msg"
    and "m_To msg \<noteq> None" "m_BlobHashes msg = Some hs" "hs \<noteq> []" "\<forall>x \<in> set hs. hd (hash_Bytes x) = 1"
  shows "ApplyMessage E K D d (NewEVM h (ChainConfigOf net) gh) msg gp s = Inl Panic"
  using assms
  by (simp add: ApplyMessage_def execute_def preCheck_def fee_check_def blob_check_def rules_of_networks
      split: prod.split) auto

text \<open>The machine runs older rules than the ones the executor prepares with: Shanghai and
  Cancun are configured from the start and \<open>Rules\<close> with the merge flag activates them, but the
  block context has no \<open>Random\<close>, so the rules of the machine have neither.\<close>

theorem machine_rules_lag:
  assumes "0 \<le> Number h"
  shows "r_IsShanghai (Rules (ChainConfigOf net) (Number h) True (Time h)) \<and>
    r_IsCancun (Rules (ChainConfigOf net) (Number h) True (Time h)) \<and>
    \<not> r_IsShanghai (chainRules (NewEVM h (ChainConfigOf net) gh)) \<and>
    \<not> r_IsCancun (chainRules (NewEVM h (ChainConfigOf net) gh)) \<and>
    r_IsLondon (chainRules (NewEVM h (ChainConfigOf net) gh))"
  using assms by (simp add: rules_of_networks)


subsection \<open>Witnesses\<close>

text \<open>A machine whose interpreter reverts at once, and a state in which account 7 holds a million.\<close>

definition demo_evm :: evm where
  "demo_evm = \<lparr>evm_Run = (\<lambda>z msg s ct input. (s, [], ct_Gas ct, Some ErrExecutionReverted)),
     evm_precompile = (\<lambda>r a. None), CreateAddress = (\<lambda>a n. a + ucast n + 1)\<rparr>"

definition demo_rich :: statedb where
  "demo_rich = SetBalance toy_hash (NewState mem_db 0 None) 7 1000000"

definition demo_transfer :: message where
  "demo_transfer = \<lparr>m_From = 7, m_To = Some 9, m_Value = 5, m_Nonce = 0, m_GasLimit = 30000,
     m_GasPrice = 12, m_GasFeeCap = 15, m_GasTipCap = 2, m_Data = [], m_AccessList = [],
     m_BlobHashes = None, m_BlobGasFeeCap = None, m_SkipNonceChecks = False, m_SkipTransactionChecks = False\<rparr>"

definition demo_slots :: "slot set" where
  "demo_slots = {BalanceOf 7, BalanceOf 9, BalanceOf 2, NonceOf 7, CodeHashOf 7, CodeHashOf 9}"

lemma demo_slots_free: "collision_free toy_hash demo_slots"
  by (simp add: demo_slots_def collision_free_def slotKey.simps balanceKey_def nonceKey_def codeHashKey_def)

lemma fresh_reads: "getVerkleValue (NewState D root None) k = []"
  by (simp add: NewState_def empty_fields_def vt.get_new)

lemma demo_rich_view:
  "statedb_ok demo_rich" "GetBalance toy_hash demo_rich 7 = 1000000" "GetBalance toy_hash demo_rich 9 = 0"
  "GetNonce toy_hash demo_rich 7 = 0" "no_code toy_hash mem_db [] demo_rich 7" "no_code toy_hash mem_db [] demo_rich 9"
proof -
  let ?n = "NewState mem_db 0 None"
  have fresh: "read_slot toy_hash ?n x = []" for x by (simp add: read_slot_def fresh_reads)
  note sb = SetBalance_slots [OF NewState_None_ok [of mem_db 0], where K = toy_hash and a = 7 and v = 1000000,
    folded demo_rich_def]
  have other: "read_slot toy_hash demo_rich y = []" if "y \<in> demo_slots" "y \<noteq> BalanceOf 7" for y
    using sb(3) [OF demo_slots_free _ that] fresh by (simp add: demo_slots_def)
  show "statedb_ok demo_rich" "GetBalance toy_hash demo_rich 7 = 1000000" by (rule sb(1,2))+
  show "GetBalance toy_hash demo_rich 9 = 0" "GetNonce toy_hash demo_rich 7 = 0"
    using other by (simp_all add: getters_as_slots demo_slots_def u256_SetBytes_def)
  have "toy_hash [] = 0" by (simp add: toy_hash_def)
  moreover have "GetCodeHash toy_hash demo_rich 7 = 0" "GetCodeHash toy_hash demo_rich 9 = 0"
    using other by (simp_all add: getters_as_slots demo_slots_def BytesToHash_nat)
  ultimately show "no_code toy_hash mem_db [] demo_rich 7" "no_code toy_hash mem_db [] demo_rich 9"
    by (simp_all add: no_code_def GetCode_def)
qed

lemma demo_transfer_ready:
  "transfer_ready demo_evm toy_hash mem_db [] (GetNetworkConfig ''devnet'') (demo_header []) demo_transfer demo_rich 7 9 10"
  using demo_rich_view
  by (simp add: transfer_ready_def demo_transfer_def plain_message_def can_pay_def demo_header_def demo_evm_def)

theorem plain_transfer_applied_witness:
  "\<exists>s'. ApplyMessage demo_evm toy_hash mem_db [] (NewEVM (demo_header []) (ChainConfigOf (GetNetworkConfig ''devnet'')) (\<lambda>_. 0))
        demo_transfer 30000000 demo_rich
      = Inr (s', \<lparr>UsedGas = 21000, MaxUsedGas = 21000, Err = None, ReturnData = []\<rparr>) \<and>
    uint (GetBalance toy_hash s' 7) = 1000000 - 5 - 21000 * 12 \<and> GetNonce toy_hash s' 7 = 1"
  using plain_transfer_applied [OF demo_transfer_ready _ demo_slots_free, of 30000000 "\<lambda>_. 0"] demo_rich_view
  by (auto simp: demo_transfer_def demo_slots_def transfer_slots_def demo_header_def)

theorem used_gas_bounds_witness:
  "\<exists>s' res. ApplyMessage demo_evm toy_hash mem_db [] (NewEVM (demo_header []) (ChainConfigOf (GetNetworkConfig ''devnet'')) (\<lambda>_. 0))
        demo_transfer 30000000 demo_rich = Inr (s', res) \<and> UsedGas res \<le> m_GasLimit demo_transfer"
proof -
  have "gas_ok demo_evm" by (simp add: gas_ok_def demo_evm_def)
  moreover obtain s' where s': "ApplyMessage demo_evm toy_hash mem_db []
      (NewEVM (demo_header []) (ChainConfigOf (GetNetworkConfig ''devnet'')) (\<lambda>_. 0)) demo_transfer 30000000 demo_rich
      = Inr (s', \<lparr>UsedGas = 21000, MaxUsedGas = 21000, Err = None, ReturnData = []\<rparr>)"
    using apply_plain_transfer [OF demo_transfer_ready _ demo_slots_free, of 30000000 "\<lambda>_. 0"]
    by (auto simp: demo_transfer_def demo_slots_def transfer_slots_def demo_header_def)
  ultimately show ?thesis using used_gas_bounds [OF _ s'] by blast
qed


text \<open>Account 9 holds a contract.\<close>

definition demo_coded :: statedb where
  "demo_coded = fst (SetCode toy_hash demo_rich 9 [1])"



theorem blob_message_panics_witness:
  "ApplyMessage demo_evm toy_hash mem_db [] (NewEVM (demo_header []) (ChainConfigOf (GetNetworkConfig ''devnet'')) (\<lambda>_. 0))
     (demo_transfer\<lparr>m_BlobHashes := Some [2 ^ 248]\<rparr>) 30000000 demo_rich = Inl Panic"
proof -
  have "hd (hash_Bytes (2 ^ 248)) = 1"
    unfolding hash_Bytes_def using hd_be_bytes [of 31 "unat (2 ^ 248 :: hash)"] by (simp add: unsigned_of_nat)
  moreover have "fst (GetCode toy_hash mem_db [] demo_rich 7) = []"
    using demo_rich_view(5) by (simp add: no_code_def)
  ultimately show ?thesis
    using demo_rich_view(4) by (intro blob_message_panics [where hs = "[2 ^ 248]" and b = 10])
      (simp_all add: demo_header_def demo_transfer_def nonce_check_def)
qed

theorem machine_rules_lag_witness:
  "\<not> r_IsShanghai (chainRules (NewEVM (demo_header []) (ChainConfigOf (GetNetworkConfig ''mainnet'')) (\<lambda>_. 0)))"
  using machine_rules_lag [of "demo_header []"] by (simp add: demo_header_def)

end
