(* ===== verification/SystemContracts.thy ===== *)
theory SystemContracts
  imports StateTransition Scheduler
begin

text \<open>
  \<open>core/system_contracts.go\<close>: the native staking, validator-registry and reward contracts.

  The contracts keep their data in the storage of three fixed addresses: the stake of an account
  in the staking contract, and in the registry the number of validators (key 0), their addresses
  (keys 1 to the number) and, under each address, its index.  \<open>ProcessSystemContracts\<close> is
  modelled as three functions of the state, one per kind of call.

  The abstract view is a list of distinct validator addresses.  The locale \<open>registry_store\<close>
  proves for any storage that obeys the read-after-write law that entering appends to the list
  and leaving removes by swapping with the last; it is interpreted on \<open>GetState\<close> and
  \<open>SetState\<close> of the registry's address.
\<close>

subsection \<open>Staking\<close>

definition stake_deposit ::
    "(bytes \<Rightarrow> hash) \<Rightarrow> SystemParams \<Rightarrow> statedb \<Rightarrow> address \<Rightarrow> int \<Rightarrow> statedb" where
  "stake_deposit K P s sender value =
     (let valBytes = BigToHash value;
          key = BytesToHash (address_Bytes sender);
          s1 = fst (SetState K s (StakingAddr P) key valBytes);
          existingIndex = GetState K s1 (ValidatorAddr P) key
      in if existingIndex = 0 then
           (let currentCount = hash_Big (GetState K s1 (ValidatorAddr P) 0);
                newCount = currentCount + 1;
                s2 = fst (SetState K s1 (ValidatorAddr P) 0 (BigToHash newCount));
                indexKey = BigToHash newCount;
                s3 = fst (SetState K s2 (ValidatorAddr P) indexKey key)
            in fst (SetState K s3 (ValidatorAddr P) key indexKey))
         else s1)"

text \<open>The registry updates of a withdrawal (swap with the last entry and pop), without the payout.\<close>

definition registry_remove :: "(bytes \<Rightarrow> hash) \<Rightarrow> SystemParams \<Rightarrow> statedb \<Rightarrow> hash \<Rightarrow> statedb" where
  "registry_remove K P s key =
     (let V = ValidatorAddr P;
          indexToRemove = hash_Big (GetState K s V key);
          currentCount = hash_Big (GetState K s V 0);
          s1 = (if indexToRemove < currentCount then
                  (let lastIndexKey = BigToHash currentCount;
                       lastAddrHash = GetState K s V lastIndexKey;
                       sKey = BigToHash indexToRemove;
                       t = fst (SetState K s V sKey lastAddrHash)
                   in fst (SetState K t V lastAddrHash sKey))
                else s);
          s2 = fst (SetState K s1 V (BigToHash currentCount) 0);
          newCount = currentCount - 1;
          s3 = fst (SetState K s2 V 0 (BigToHash newCount));
          s4 = fst (SetState K s3 (StakingAddr P) key 0)
      in fst (SetState K s4 V key 0))"

definition stake_withdraw :: "(bytes \<Rightarrow> hash) \<Rightarrow> SystemParams \<Rightarrow> statedb \<Rightarrow> address \<Rightarrow> statedb" where
  "stake_withdraw K P s sender =
     (let key = BytesToHash (address_Bytes sender);
          storedVal = GetState K s (StakingAddr P) key
      in if storedVal = 0 then s
         else
           (let amount = hash_Big storedVal;
                amt256 = fst (u256_FromBig amount)
            in if amt256 \<le> GetBalance K s (StakingAddr P) then
                 (let s1 = fst (SubBalance K s (StakingAddr P) amt256);
                      s2 = fst (AddBalance K s1 sender amt256)
                  in registry_remove K P s2 key)
               else s))"

definition staking_contract ::
    "(bytes \<Rightarrow> hash) \<Rightarrow> SystemParams \<Rightarrow> statedb \<Rightarrow> message \<Rightarrow> bytes \<Rightarrow> statedb" where
  "staking_contract K P s msg data =
     (let s1 = (if m_Value msg > 0 then stake_deposit K P s (m_From msg) (m_Value msg) else s)
      in if string_of_bytes data = ''UNSTAKE'' then stake_withdraw K P s1 (m_From msg) else s1)"

subsection \<open>Rewards\<close>

text \<open>\<open>strings.Split(s, ":")\<close>\<close>

fun split_colon :: "string \<Rightarrow> string list" where
  "split_colon [] = [[]]"
| "split_colon (c # s) =
     (if c = CHR '':'' then [] # split_colon s
      else case split_colon s of p # ps \<Rightarrow> (c # p) # ps | [] \<Rightarrow> [[c]])"

definition reward_pay :: "(bytes \<Rightarrow> hash) \<Rightarrow> SystemParams \<Rightarrow> statedb \<Rightarrow> string \<Rightarrow> string \<Rightarrow> statedb" where
  "reward_pay K P s addr amount_hex =
     (let targetAddr = HexToAddress addr in
      case big_SetString amount_hex 16 of
        None \<Rightarrow> s
      | Some rewardAmt \<Rightarrow>
          (let amt256 = fst (u256_FromBig rewardAmt)
           in if amt256 \<le> GetBalance K s (RewardAddr P) then
                fst (AddBalance K (fst (SubBalance K s (RewardAddr P) amt256)) targetAddr amt256)
              else s))"

definition reward_contract ::
    "(bytes \<Rightarrow> hash) \<Rightarrow> SystemParams \<Rightarrow> statedb \<Rightarrow> message \<Rightarrow> bytes \<Rightarrow> statedb" where
  "reward_contract K P s msg dat =
     (if m_Value msg = 0 \<and> length dat > 0 then
        (let data = string_of_bytes dat in
         if length data > 7 \<and> take 7 data = ''REWARD:'' then
           (case split_colon (drop 7 data) of
              [addr, amount_hex] \<Rightarrow> reward_pay K P s addr amount_hex
            | _ \<Rightarrow> s)
         else s)
      else s)"

definition ProcessSystemContracts ::
    "(bytes \<Rightarrow> hash) \<Rightarrow> SystemParams \<Rightarrow> statedb \<Rightarrow> message \<Rightarrow> transaction \<Rightarrow> statedb" where
  "ProcessSystemContracts K P s msg tx =
     (let s1 = (if m_To msg = Some (StakingAddr P) then staking_contract K P s msg (tx_Data tx) else s)
      in if m_To msg = Some (RewardAddr P) then reward_contract K P s1 msg (tx_Data tx) else s1)"

subsection \<open>The registry as a list\<close>

text \<open>Remove position \<open>i\<close> by moving the last element there.\<close>

definition swap_remove :: "'a list \<Rightarrow> nat \<Rightarrow> 'a list" where
  "swap_remove xs i = butlast (xs[i := last xs])"

lemma length_swap_remove [simp]: "length (swap_remove xs i) = length xs - 1"
  by (simp add: swap_remove_def)

lemma nth_swap_remove:
  "j < length xs - 1 \<Longrightarrow> swap_remove xs i ! j = (if j = i then last xs else xs ! j)"
  by (simp add: swap_remove_def nth_butlast nth_list_update)

lemma swap_remove_map:
  assumes "i < length xs"
  shows "swap_remove xs i = map ((!) xs) (map (\<lambda>j. if j = i then length xs - 1 else j) [0..<length xs - 1])"
proof -
  have "last xs = xs ! (length xs - 1)" using assms by (intro last_conv_nth) auto
  then show ?thesis by (intro nth_equalityI) (auto simp: nth_swap_remove)
qed

lemma swap_remove_set:
  assumes "distinct xs" "i < length xs"
  shows "distinct (swap_remove xs i)" "set (swap_remove xs i) = set xs - {xs ! i}"
proof -
  let ?f = "\<lambda>j. if j = i then length xs - 1 else j"
  have inj: "inj_on ((!) xs) {..<length xs}" using assms(1) by (simp add: inj_on_nth)
  have f: "inj_on ?f {0..<length xs - 1}" by (auto simp: inj_on_def)
  have im: "?f ` {0..<length xs - 1} = {..<length xs} - {i}"
    using assms(2) by (auto simp: image_iff)
  have "distinct (map ?f [0..<length xs - 1])" using f by (simp add: distinct_map)
  moreover have "set (map ?f [0..<length xs - 1]) \<subseteq> {..<length xs}" using im by auto
  ultimately show "distinct (swap_remove xs i)"
    unfolding swap_remove_map [OF assms(2)] using inj by (subst distinct_map) (blast intro: inj_on_subset)
  have "set (swap_remove xs i) = (!) xs ` ({..<length xs} - {i})"
    unfolding swap_remove_map [OF assms(2)] by (simp only: set_map set_upt im)
  also have "\<dots> = (!) xs ` {..<length xs} - (!) xs ` {i}"
    using inj assms(2) by (intro inj_on_image_set_diff [OF inj]) auto
  also have "(!) xs ` {..<length xs} = set xs" by (auto simp: set_conv_nth)
  finally show "set (swap_remove xs i) = set xs - {xs ! i}" by simp
qed

definition reg_keys :: "nat \<Rightarrow> address set \<Rightarrow> hash set" where
  "reg_keys N A = of_nat ` {0..N} \<union> address_key ` A"

text \<open>No account key is an index key, and the indices fit the keys.\<close>

definition separated :: "nat \<Rightarrow> address set \<Rightarrow> bool" where
  "separated N A \<longleftrightarrow> N < 2 ^ 64 \<and> (\<forall>a \<in> A. N < unat a)"

locale registry_store =
  fixes get :: "'s \<Rightarrow> hash \<Rightarrow> hash" and put :: "'s \<Rightarrow> hash \<Rightarrow> hash \<Rightarrow> 's"
    and inv :: "'s \<Rightarrow> bool" and N :: nat and A :: "address set"
  assumes inv_sep: "inv s \<Longrightarrow> separated N A"
    and inv_put: "inv s \<Longrightarrow> k \<in> reg_keys N A \<Longrightarrow> inv (put s k v)"
    and get_put: "inv s \<Longrightarrow> k \<in> reg_keys N A \<Longrightarrow> k' \<in> reg_keys N A \<Longrightarrow>
      get (put s k v) k' = (if k' = k then v else get s k')"
begin

definition holds :: "'s \<Rightarrow> address list \<Rightarrow> bool" where
  "holds s vs \<longleftrightarrow> inv s \<and> distinct vs \<and> set vs \<subseteq> A \<and> length vs \<le> N \<and>
     get s 0 = of_nat (length vs) \<and>
     (\<forall>i < length vs. get s (of_nat (Suc i)) = address_key (vs ! i) \<and>
        get s (address_key (vs ! i)) = of_nat (Suc i)) \<and>
     (\<forall>a \<in> A - set vs. get s (address_key a) = 0)"

lemma index_keys:
  assumes "inv s"
  shows "i \<le> N \<Longrightarrow> (of_nat i :: hash) \<in> reg_keys N A" "a \<in> A \<Longrightarrow> address_key a \<in> reg_keys N A"
    and "i \<le> N \<Longrightarrow> j \<le> N \<Longrightarrow> (of_nat i :: hash) = of_nat j \<longleftrightarrow> i = j"
    and "i \<le> N \<Longrightarrow> a \<in> A \<Longrightarrow> (of_nat i :: hash) \<noteq> address_key a"
proof -
  note sep = inv_sep [OF assms]
  show "i \<le> N \<Longrightarrow> (of_nat i :: hash) \<in> reg_keys N A" "a \<in> A \<Longrightarrow> address_key a \<in> reg_keys N A"
    by (auto simp: reg_keys_def)
  have u: "unat (of_nat i :: hash) = i" if "i \<le> N" for i
    using sep that by (simp add: separated_def unsigned_of_nat take_bit_eq_mod)
  show "i \<le> N \<Longrightarrow> j \<le> N \<Longrightarrow> (of_nat i :: hash) = of_nat j \<longleftrightarrow> i = j" using u by metis
  show "i \<le> N \<Longrightarrow> a \<in> A \<Longrightarrow> (of_nat i :: hash) \<noteq> address_key a"
    using u sep unat_address_key [of a] by (metis separated_def leD)
qed

lemma holds_cong:
  assumes "holds s vs" "inv s'" "\<And>k. k \<in> reg_keys N A \<Longrightarrow> get s' k = get s k"
  shows "holds s' vs"
proof -
  have i: "inv s" and vs: "set vs \<subseteq> A" "length vs \<le> N" using assms(1) by (auto simp: holds_def)
  have gi: "get s' (of_nat j) = get s (of_nat j)" if "j \<le> N" for j
    using index_keys(1) [OF i that] assms(3) by blast
  have ga: "get s' (address_key a) = get s (address_key a)" if "a \<in> A" for a
    using index_keys(2) [OF i that] assms(3) by blast
  have "get s' 0 = get s 0" using gi [of 0] by simp
  moreover have "get s' (of_nat (Suc j)) = get s (of_nat (Suc j))"
    "get s' (address_key (vs ! j)) = get s (address_key (vs ! j))" if "j < length vs" for j
    using that vs gi [of "Suc j"] ga [of "vs ! j"] subsetD [OF vs(1) nth_mem [OF that]] by auto
  ultimately show ?thesis using assms(1,2) ga by (simp add: holds_def)
qed

lemma enter:
  assumes "holds s vs" "a \<in> A - set vs" "length vs < N"
  defines "n \<equiv> of_nat (Suc (length vs)) :: hash"
  shows "holds (put (put (put s 0 n) n (address_key a)) (address_key a) n) (vs @ [a])"
proof -
  let ?s' = "put (put (put s 0 n) n (address_key a)) (address_key a) n"
  have i: "inv s" using assms(1) by (simp add: holds_def)
  note ik = index_keys [OF i]
  have k: "0 \<in> reg_keys N A" "n \<in> reg_keys N A" "address_key a \<in> reg_keys N A"
    using ik(1) [of 0] ik(1) [of "Suc (length vs)"] ik(2) [of a] assms(2,3) by (simp_all add: n_def)
  have inv': "inv ?s'" using i k by (intro inv_put)
  have g: "get ?s' x = (if x = address_key a then n else if x = n then address_key a else if x = 0 then n else get s x)"
    if "x \<in> reg_keys N A" for x
    using that k i by (simp add: get_put inv_put)
  have gi: "get ?s' (of_nat j) = (if j = Suc (length vs) then address_key a else if j = 0 then n else get s (of_nat j))"
    if "j \<le> N" for j
    using g [OF ik(1) [OF that]] ik(3) [OF that, of "Suc (length vs)"] ik(3) [OF that, of 0]
      ik(4) [OF that, of a] assms(2,3) by (auto simp: n_def)
  have ga: "get ?s' (address_key b) = (if b = a then n else get s (address_key b))" if "b \<in> A" for b
    using g [OF ik(2) [OF that]] ik(4) [of "Suc (length vs)" b] ik(4) [of 0 b] that assms(3)
    by (auto simp: n_def)
  have h: "distinct vs" "set vs \<subseteq> A" "get s 0 = of_nat (length vs)"
    "\<And>j. j < length vs \<Longrightarrow> get s (of_nat (Suc j)) = address_key (vs ! j) \<and> get s (address_key (vs ! j)) = of_nat (Suc j)"
    "\<And>b. b \<in> A - set vs \<Longrightarrow> get s (address_key b) = 0"
    using assms(1) by (auto simp: holds_def)
  have "get ?s' (of_nat (Suc j)) = address_key ((vs @ [a]) ! j) \<and> get ?s' (address_key ((vs @ [a]) ! j)) = of_nat (Suc j)"
    if "j < length (vs @ [a])" for j
  proof (cases "j = length vs")
    case True
    then show ?thesis using gi [of "Suc j"] ga [of a] assms(2,3) by (simp add: n_def)
  next
    case False
    then have "j < length vs" "vs ! j \<in> A" "vs ! j \<noteq> a" using that h(2) assms(2) by auto
    then show ?thesis using gi [of "Suc j"] ga [of "vs ! j"] h(4) [of j] assms(3) by (simp add: nth_append)
  qed
  moreover have "get ?s' 0 = n" using gi [of 0] by simp
  ultimately show ?thesis
    using inv' h assms(2,3) ga unfolding holds_def by (auto simp: n_def)
qed

lemma leave_reads:
  assumes "inv s" "n \<le> N" "i < n" "a \<in> A" "l \<in> A"
  defines "t \<equiv> (if Suc i < n then put (put s (of_nat (Suc i)) (address_key l)) (address_key l) (of_nat (Suc i)) else s)"
  defines "s' \<equiv> put (put (put t (of_nat n) 0) 0 (of_nat (n - 1))) (address_key a) 0"
  shows "inv s'"
    and "j \<le> N \<Longrightarrow> get s' (of_nat j) = (if j = 0 then of_nat (n - 1) else if j = n then 0
      else if j = Suc i then (if Suc i < n then address_key l else get s (of_nat j)) else get s (of_nat j))"
    and "b \<in> A \<Longrightarrow> get s' (address_key b) = (if b = a then 0
      else if b = l \<and> Suc i < n then of_nat (Suc i) else get s (address_key b))"
proof -
  note ik = index_keys [OF assms(1)]
  have k: "of_nat (Suc i) \<in> reg_keys N A" "of_nat n \<in> reg_keys N A" "0 \<in> reg_keys N A"
      "address_key a \<in> reg_keys N A" "address_key l \<in> reg_keys N A"
    using ik(1) [of "Suc i"] ik(1) [of n] ik(1) [of 0] ik(2) [of a] ik(2) [of l] assms(2-5) by simp_all
  have t: "inv t" using k assms(1) by (auto simp: t_def intro: inv_put)
  then show "inv s'" unfolding s'_def using k by (intro inv_put)
  have gt: "get t x = (if Suc i < n \<and> x = address_key l then of_nat (Suc i)
      else if Suc i < n \<and> x = of_nat (Suc i) then address_key l else get s x)" if "x \<in> reg_keys N A" for x
    unfolding t_def using that k assms(1) by (auto simp del: of_nat_Suc simp: get_put inv_put)
  have g: "get s' x = (if x = address_key a then 0 else if x = 0 then of_nat (n - 1)
      else if x = of_nat n then 0 else get t x)" if "x \<in> reg_keys N A" for x
    unfolding s'_def using that k t by (simp add: get_put inv_put)
  show "get s' (of_nat j) = (if j = 0 then of_nat (n - 1) else if j = n then 0
      else if j = Suc i then (if Suc i < n then address_key l else get s (of_nat j)) else get s (of_nat j))" if "j \<le> N"
    using g [OF ik(1) [OF that]] gt [OF ik(1) [OF that]] ik(3) [OF that, of 0] ik(3) [OF that, of n]
      ik(3) [OF that, of "Suc i"] ik(4) [OF that, of a] ik(4) [OF that, of l] assms(2-5)
    by (auto simp del: of_nat_Suc)
  show "get s' (address_key b) = (if b = a then 0
      else if b = l \<and> Suc i < n then of_nat (Suc i) else get s (address_key b))" if "b \<in> A"
    using g [OF ik(2) [OF that]] gt [OF ik(2) [OF that]] ik(4) [of 0 b] ik(4) [of n b]
      ik(4) [of "Suc i" b] that assms(2-5)
    by (auto simp del: of_nat_Suc)
qed

lemma leave:
  assumes "holds s vs" "i < length vs"
  defines "n \<equiv> length vs"
  defines "t \<equiv> (if Suc i < n then put (put s (of_nat (Suc i)) (address_key (last vs))) (address_key (last vs)) (of_nat (Suc i)) else s)"
  shows "holds (put (put (put t (of_nat n) 0) 0 (of_nat (n - 1))) (address_key (vs ! i)) 0) (swap_remove vs i)"
    (is "holds ?s' ?ws")
proof -
  have h: "inv s" "distinct vs" "set vs \<subseteq> A" "n \<le> N"
    "\<And>j. j < n \<Longrightarrow> get s (of_nat (Suc j)) = address_key (vs ! j) \<and> get s (address_key (vs ! j)) = of_nat (Suc j)"
    "\<And>b. b \<in> A - set vs \<Longrightarrow> get s (address_key b) = 0"
    using assms(1) by (auto simp: holds_def n_def simp del: of_nat_Suc)
  have l: "last vs = vs ! (n - 1)" unfolding n_def using assms(2) by (intro last_conv_nth) auto
  have mem: "vs ! i \<in> A" "last vs \<in> A" using h(3) assms(2) l by (auto simp: n_def)
  note r = leave_reads [OF h(1) h(4) _ mem, of i, folded t_def]
  have i: "i < n" using assms(2) by (simp add: n_def)
  have eq: "vs ! j = vs ! k \<longleftrightarrow> j = k" if "j < n" "k < n" for j k
    using h(2) that by (simp add: n_def nth_eq_iff_index_eq)
  have "get ?s' (of_nat (Suc j)) = address_key (?ws ! j) \<and> get ?s' (address_key (?ws ! j)) = of_nat (Suc j)"
    if j: "j < n - 1" for j
  proof -
    have ar: "Suc j \<le> N" "Suc j \<noteq> n" "Suc j < n" "j < n" using j h(4) by auto
    have ws: "?ws ! j = (if j = i then last vs else vs ! j)" using j by (simp add: nth_swap_remove n_def)
    show ?thesis
    proof (cases "j = i")
      case True
      have "last vs \<noteq> vs ! i" using l eq [of "n - 1" i] j True by simp
      then show ?thesis using r(2) [OF i ar(1)] r(3) [OF i mem(2)] ar ws True
        by (simp del: of_nat_Suc of_nat_diff)
    next
      case False
      have "vs ! j \<noteq> vs ! i" "vs ! j \<noteq> last vs" "vs ! j \<in> A"
        using eq [of j i] eq [of j "n - 1"] j False i l h(3) by (auto simp: n_def)
      then show ?thesis using r(2) [OF i ar(1)] r(3) [OF i, of "vs ! j"] ar ws False h(5) [of j]
        by (simp del: of_nat_Suc of_nat_diff)
    qed
  qed
  moreover have "get ?s' (address_key b) = 0" if "b \<in> A - set ?ws" for b
  proof -
    have "last vs \<in> set vs" using assms(2) by (intro last_in_set) auto
    then have "b = vs ! i \<or> (b \<notin> set vs \<and> b \<noteq> last vs)"
      using that swap_remove_set(2) [OF h(2) assms(2)] by auto
    then show ?thesis using r(3) [OF i, of b] h(6) [of b] that by auto
  qed
  moreover have "get ?s' 0 = of_nat (n - 1)" using r(2) [OF i, of 0] by simp
  ultimately show ?thesis
    using r(1) [OF i] swap_remove_set [OF h(2), of i] assms(2) h(3,4)
    unfolding holds_def by (auto simp: n_def simp del: of_nat_Suc)
qed

end

subsection \<open>The registry contract implements the list\<close>

text \<open>The slots the contracts use for the accounts \<open>A\<close> and at most \<open>N\<close> validators.\<close>

definition sys_slots :: "SystemParams \<Rightarrow> nat \<Rightarrow> address set \<Rightarrow> slot set" where
  "sys_slots P N A = StorageOf (ValidatorAddr P) ` reg_keys N A \<union> StorageOf (StakingAddr P) ` address_key ` A
     \<union> BalanceOf ` insert (StakingAddr P) A"

definition sys_inv :: "(bytes \<Rightarrow> hash) \<Rightarrow> SystemParams \<Rightarrow> nat \<Rightarrow> address set \<Rightarrow> statedb \<Rightarrow> bool" where
  "sys_inv K P N A s \<longleftrightarrow> statedb_ok s \<and> collision_free K (sys_slots P N A) \<and> separated N A \<and>
     StakingAddr P \<noteq> ValidatorAddr P \<and> StakingAddr P \<notin> A"

definition stakeOf :: "(bytes \<Rightarrow> hash) \<Rightarrow> SystemParams \<Rightarrow> statedb \<Rightarrow> address \<Rightarrow> int" where
  "stakeOf K P s a = hash_Big (GetState K s (StakingAddr P) (address_key a))"

lemma sys_slots_mem [simp]:
  "k \<in> reg_keys N A \<Longrightarrow> StorageOf (ValidatorAddr P) k \<in> sys_slots P N A"
  "a \<in> A \<Longrightarrow> StorageOf (StakingAddr P) (address_key a) \<in> sys_slots P N A"
  "a \<in> A \<Longrightarrow> BalanceOf a \<in> sys_slots P N A" "BalanceOf (StakingAddr P) \<in> sys_slots P N A"
  by (auto simp: sys_slots_def)

lemma sys_SetState:
  assumes "sys_inv K P N A s" "StorageOf c k \<in> sys_slots P N A"
  shows "sys_inv K P N A (fst (SetState K s c k v))"
    and "StorageOf c' k' \<in> sys_slots P N A \<Longrightarrow>
      GetState K (fst (SetState K s c k v)) c' k' = (if c' = c \<and> k' = k then v else GetState K s c' k')"
    and "BalanceOf b \<in> sys_slots P N A \<Longrightarrow> GetBalance K (fst (SetState K s c k v)) b = GetBalance K s b"
proof -
  have i: "statedb_ok s" "collision_free K (sys_slots P N A)" using assms(1) by (simp_all add: sys_inv_def)
  note f = SetState_slots(3) [OF i assms(2)]
  show "sys_inv K P N A (fst (SetState K s c k v))"
    using assms(1) SetState_slots(1) [OF i(1)] by (simp add: sys_inv_def)
  show "GetState K (fst (SetState K s c k v)) c' k' = (if c' = c \<and> k' = k then v else GetState K s c' k')"
    if "StorageOf c' k' \<in> sys_slots P N A"
    using f [OF that] SetState_slots(2) [OF i(1)] by (auto simp: getters_as_slots)
  show "GetBalance K (fst (SetState K s c k v)) b = GetBalance K s b" if "BalanceOf b \<in> sys_slots P N A"
    using f [OF that] by (simp add: getters_as_slots)
qed

lemma sys_SetBalance:
  assumes "sys_inv K P N A s" "BalanceOf b \<in> sys_slots P N A"
  shows "sys_inv K P N A (SetBalance K s b v)"
    and "StorageOf c k \<in> sys_slots P N A \<Longrightarrow> GetState K (SetBalance K s b v) c k = GetState K s c k"
    and "BalanceOf b' \<in> sys_slots P N A \<Longrightarrow>
      GetBalance K (SetBalance K s b v) b' = (if b' = b then v else GetBalance K s b')"
proof -
  have i: "statedb_ok s" "collision_free K (sys_slots P N A)" using assms(1) by (simp_all add: sys_inv_def)
  note f = SetBalance_slots(3) [OF i assms(2)]
  show "sys_inv K P N A (SetBalance K s b v)"
    using assms(1) SetBalance_slots(1) [OF i(1)] by (simp add: sys_inv_def)
  show "GetState K (SetBalance K s b v) c k = GetState K s c k" if "StorageOf c k \<in> sys_slots P N A"
    using f [OF that] by (simp add: getters_as_slots)
  show "GetBalance K (SetBalance K s b v) b' = (if b' = b then v else GetBalance K s b')"
    if "BalanceOf b' \<in> sys_slots P N A"
    using f [OF that] SetBalance_slots(2) [OF i(1)] by (auto simp: getters_as_slots)
qed

interpretation reg: registry_store "\<lambda>s. GetState K s (ValidatorAddr P)"
    "\<lambda>s k v. fst (SetState K s (ValidatorAddr P) k v)" "sys_inv K P N A" N A for K P N A
  by unfold_locales (simp_all add: sys_SetState, simp add: sys_inv_def)

text \<open>
  The abstraction: the registry holds the list \<open>vs\<close>, and exactly its members have a stake.
\<close>

definition registered ::
    "(bytes \<Rightarrow> hash) \<Rightarrow> SystemParams \<Rightarrow> nat \<Rightarrow> address set \<Rightarrow> statedb \<Rightarrow> address list \<Rightarrow> bool" where
  "registered K P N A s vs \<longleftrightarrow> sys_inv K P N A s \<and> distinct vs \<and> set vs \<subseteq> A \<and> length vs \<le> N \<and>
     GetState K s (ValidatorAddr P) 0 = of_nat (length vs) \<and>
     (\<forall>i < length vs. GetState K s (ValidatorAddr P) (of_nat (Suc i)) = address_key (vs ! i) \<and>
        GetState K s (ValidatorAddr P) (address_key (vs ! i)) = of_nat (Suc i)) \<and>
     (\<forall>a \<in> A - set vs. GetState K s (ValidatorAddr P) (address_key a) = 0) \<and>
     (\<forall>a \<in> A. stakeOf K P s a \<noteq> 0 \<longleftrightarrow> a \<in> set vs)"

lemma registered_holds:
  "registered K P N A s vs \<longleftrightarrow> reg.holds K P N A s vs \<and> (\<forall>a \<in> A. stakeOf K P s a \<noteq> 0 \<longleftrightarrow> a \<in> set vs)"
  unfolding registered_def reg.holds_def by blast

lemma hash_Big_of_nat: "n < 2 ^ 256 \<Longrightarrow> hash_Big (of_nat n) = int n"
  by (simp add: hash_Big_def unsigned_of_nat take_bit_eq_mod)

lemma count_hashes:
  assumes "n < 2 ^ 64"
  shows "BigToHash (hash_Big (of_nat n) + 1) = of_nat (Suc n)"
    and "0 < n \<Longrightarrow> BigToHash (hash_Big (of_nat n) - 1) = of_nat (n - 1)"
proof -
  have h: "hash_Big (of_nat n) = int n" using assms by (intro hash_Big_of_nat) simp
  show "BigToHash (hash_Big (of_nat n) + 1) = of_nat (Suc n)"
    unfolding h BigToHash_nat by (metis abs_of_nat int_Suc nat_int add.commute)
  show "BigToHash (hash_Big (of_nat n) - 1) = of_nat (n - 1)" if "0 < n"
    unfolding h BigToHash_nat using that by (metis Suc_pred abs_of_nat int_Suc nat_int add_diff_cancel_right' One_nat_def)
qed

lemma registered_pointer:
  assumes "registered K P N A s vs" "a \<in> A"
  shows "GetState K s (ValidatorAddr P) (address_key a) = 0 \<longleftrightarrow> a \<notin> set vs"
proof
  assume z: "GetState K s (ValidatorAddr P) (address_key a) = 0"
  show "a \<notin> set vs"
  proof
    assume "a \<in> set vs"
    then obtain i where i: "i < length vs" "vs ! i = a" by (metis in_set_conv_nth)
    then have "(of_nat (Suc i) :: hash) = of_nat 0"
      using assms(1) z by (auto simp: registered_def simp del: of_nat_Suc)
    moreover have "Suc i \<le> N" "sys_inv K P N A s" using assms(1) i(1) by (auto simp: registered_def)
    ultimately show False using reg.index_keys(3) [of K P N A s "Suc i" 0] by simp
  qed
qed (use assms in \<open>auto simp: registered_def\<close>)

lemma stake_deposit_registered:
  assumes "registered K P N A s vs" "a \<in> A" "0 < value" "value < 2 ^ 256" "a \<notin> set vs \<Longrightarrow> length vs < N"
  defines "s' \<equiv> stake_deposit K P s a value"
  shows "registered K P N A s' (if a \<in> set vs then vs else vs @ [a])"
    and "b \<in> A \<Longrightarrow> stakeOf K P s' b = (if b = a then value else stakeOf K P s b)"
    and "BalanceOf c \<in> sys_slots P N A \<Longrightarrow> GetBalance K s' c = GetBalance K s c"
proof -
  let ?V = "ValidatorAddr P" and ?key = "address_key a" and ?n = "of_nat (Suc (length vs)) :: hash"
  let ?s1 = "fst (SetState K s (StakingAddr P) ?key (BigToHash value))"
  let ?put = "\<lambda>s k v. fst (SetState K s ?V k v)"
  have i: "sys_inv K P N A s" using assms(1) by (simp add: registered_def)
  have ne: "StakingAddr P \<noteq> ?V" using i by (simp add: sys_inv_def)
  note w1 = sys_SetState [OF i sys_slots_mem(2) [OF assms(2)]]
  have h0: "reg.holds K P N A s vs" using assms(1) by (simp add: registered_holds)
  have h1: "reg.holds K P N A ?s1 vs"
    by (rule reg.holds_cong [OF h0 w1(1)]) (use ne in \<open>simp add: w1(2)\<close>)
  have len: "length vs < 2 ^ 64"
    using assms(1) by (auto simp: registered_def sys_inv_def separated_def)
  have c1: "GetState K ?s1 ?V 0 = of_nat (length vs)" using h1 by (simp add: reg.holds_def)
  have p1: "GetState K ?s1 ?V ?key = 0 \<longleftrightarrow> a \<notin> set vs"
    using registered_pointer [OF assms(1,2)] w1(2) [of ?V ?key] ne reg.index_keys(2) [OF i assms(2)] by simp
  have s': "s' = (if a \<in> set vs then ?s1 else ?put (?put (?put ?s1 0 ?n) ?n ?key) ?key ?n)"
    using p1 unfolding s'_def stake_deposit_def Let_def address_key_def [symmetric] c1 count_hashes(1) [OF len]
    by simp
  have h': "reg.holds K P N A s' (if a \<in> set vs then vs else vs @ [a])"
    using reg.enter [OF h1, of a] h1 assms(2,5) s' by auto
  have k: "0 \<in> reg_keys N A" "?n \<in> reg_keys N A \<or> a \<in> set vs" "?key \<in> reg_keys N A"
    using reg.index_keys(1) [OF i, of 0] reg.index_keys(1) [OF i, of "Suc (length vs)"] reg.index_keys(2) [OF i assms(2)] assms(5)
    by auto
  have fr: "GetState K s' (StakingAddr P) (address_key b) = GetState K ?s1 (StakingAddr P) (address_key b)" if "b \<in> A" for b
    using that k ne w1(1) unfolding s' by (auto simp: sys_SetState [where P = P and N = N and A = A])
  have v: "hash_Big (BigToHash value) = value" using assms(3,4) by (intro hash_Big_BigToHash) simp_all
  show st: "stakeOf K P s' b = (if b = a then value else stakeOf K P s b)" if "b \<in> A" for b
    using fr [OF that] w1(2) [OF sys_slots_mem(2) [OF that]] v by (simp add: stakeOf_def)
  show "registered K P N A s' (if a \<in> set vs then vs else vs @ [a])"
    using h' st assms(1,3) unfolding registered_holds by auto
  show "GetBalance K s' c = GetBalance K s c" if "BalanceOf c \<in> sys_slots P N A"
    using that k w1 unfolding s' by (auto simp: sys_SetState [where P = P and N = N and A = A])
qed

text \<open>The removal of entry \<open>i\<close>, with the hashes read back as numbers.\<close>

lemma registry_remove_steps:
  assumes "reg.holds K P N A s vs" "i < length vs"
  defines "put \<equiv> \<lambda>s k v. fst (SetState K s (ValidatorAddr P) k v)" and "n \<equiv> length vs"
  defines "t \<equiv> (if Suc i < n then put (put s (of_nat (Suc i)) (address_key (last vs))) (address_key (last vs)) (of_nat (Suc i)) else s)"
  shows "registry_remove K P s (address_key (vs ! i))
    = put (fst (SetState K (put (put t (of_nat n) 0) 0 (of_nat (n - 1))) (StakingAddr P) (address_key (vs ! i)) 0))
        (address_key (vs ! i)) 0"
proof -
  have h: "sys_inv K P N A s" "n \<le> N" "GetState K s (ValidatorAddr P) 0 = of_nat n"
    "\<And>j. j < n \<Longrightarrow> GetState K s (ValidatorAddr P) (of_nat (Suc j)) = address_key (vs ! j)"
    "\<And>j. j < n \<Longrightarrow> GetState K s (ValidatorAddr P) (address_key (vs ! j)) = of_nat (Suc j)"
    using assms(1) by (simp_all add: reg.holds_def n_def)
  have n: "0 < n" "n < 2 ^ 64" "i < n"
    using h(1,2) assms(2) by (auto simp: n_def sys_inv_def separated_def)
  have l: "last vs = vs ! (n - 1)" unfolding n_def using assms(2) by (intro last_conv_nth) auto
  have lastH: "GetState K s (ValidatorAddr P) (of_nat n) = address_key (last vs)"
    using h(4) [of "n - 1"] n(1) l by simp
  have cond: "hash_Big (of_nat (Suc i)) < hash_Big (of_nat n) \<longleftrightarrow> Suc i < n"
    using n by (simp add: hash_Big_of_nat del: of_nat_Suc)
  show ?thesis
    unfolding registry_remove_def Let_def h(3) h(5) [OF n(3)] cond BigToHash_hash_Big lastH
      count_hashes(2) [OF n(2,1)] t_def put_def by simp
qed

lemma registry_remove_holds:
  assumes "reg.holds K P N A s vs" "i < length vs"
  defines "a \<equiv> vs ! i" and "s' \<equiv> registry_remove K P s (address_key (vs ! i))"
  shows "reg.holds K P N A s' (swap_remove vs i)"
    and "b \<in> A \<Longrightarrow> stakeOf K P s' b = (if b = a then 0 else stakeOf K P s b)"
    and "BalanceOf c \<in> sys_slots P N A \<Longrightarrow> GetBalance K s' c = GetBalance K s c"
proof -
  let ?put = "\<lambda>s k v. fst (SetState K s (ValidatorAddr P) k v)" and ?n = "length vs"
  let ?l = "address_key (last vs)" and ?si = "of_nat (Suc i) :: hash"
  let ?t = "if Suc i < ?n then ?put (?put s ?si ?l) ?l ?si else s"
  let ?s3 = "?put (?put ?t (of_nat ?n) 0) 0 (of_nat (?n - 1))"
  have i: "sys_inv K P N A s" and vs: "set vs \<subseteq> A" "?n \<le> N" using assms(1) by (simp_all add: reg.holds_def)
  have ne: "StakingAddr P \<noteq> ValidatorAddr P" using i by (simp add: sys_inv_def)
  have mem: "a \<in> A" "last vs \<in> A" using vs(1) assms(2) by (auto simp: a_def intro!: subsetD [OF vs(1)] last_in_set)
  have k: "?si \<in> reg_keys N A" "of_nat ?n \<in> reg_keys N A" "0 \<in> reg_keys N A" "address_key a \<in> reg_keys N A" "?l \<in> reg_keys N A"
    using reg.index_keys(1) [OF i, of "Suc i"] reg.index_keys(1) [OF i, of ?n] reg.index_keys(1) [OF i, of 0]
      reg.index_keys(2) [OF i] mem vs(2) assms(2) by simp_all
  note st = sys_SetState [where P = P and N = N and A = A]
  have t: "sys_inv K P N A ?t" using i k by (simp add: st del: of_nat_Suc)
  then have i3: "sys_inv K P N A ?s3" using k by (simp add: st del: of_nat_Suc)
  have s': "s' = ?put (fst (SetState K ?s3 (StakingAddr P) (address_key a) 0)) (address_key a) 0"
    unfolding s'_def a_def by (rule registry_remove_steps [OF assms(1,2)])
  have i': "sys_inv K P N A s'" unfolding s' using i3 k mem by (simp add: st del: of_nat_Suc)
  have "GetState K s' (ValidatorAddr P) x = GetState K (?put ?s3 (address_key a) 0) (ValidatorAddr P) x"
    if "x \<in> reg_keys N A" for x
    unfolding s' using that i3 k mem ne by (simp add: st del: of_nat_Suc)
  then show "reg.holds K P N A s' (swap_remove vs i)"
    by (intro reg.holds_cong [OF reg.leave [OF assms(1,2), folded a_def] i'])
  have f3: "GetState K ?s3 (StakingAddr P) (address_key b) = GetState K s (StakingAddr P) (address_key b)"
      "BalanceOf c \<in> sys_slots P N A \<Longrightarrow> GetBalance K ?s3 c = GetBalance K s c" if "b \<in> A" for b
    using that i t k ne by (auto simp: st simp del: of_nat_Suc)
  show "stakeOf K P s' b = (if b = a then 0 else stakeOf K P s b)" if "b \<in> A"
    unfolding stakeOf_def s' using that i3 k mem ne f3(1) [OF that] by (simp add: st del: of_nat_Suc)
  show "GetBalance K s' c = GetBalance K s c" if "BalanceOf c \<in> sys_slots P N A"
    unfolding s' using that i3 k mem f3(2) [OF mem(1)] by (simp add: st del: of_nat_Suc)
qed

lemma stake_withdraw_registered:
  assumes "registered K P N A s vs" "i < length vs" "stakeOf K P s (vs ! i) \<le> uint (GetBalance K s (StakingAddr P))"
  defines "a \<equiv> vs ! i" and "s' \<equiv> stake_withdraw K P s (vs ! i)"
  shows "registered K P N A s' (swap_remove vs i)"
    and "b \<in> A \<Longrightarrow> stakeOf K P s' b = (if b = a then 0 else stakeOf K P s b)"
    and "uint (GetBalance K s' (StakingAddr P)) = uint (GetBalance K s (StakingAddr P)) - stakeOf K P s a"
    and "GetBalance K s' a = GetBalance K s a + of_int (stakeOf K P s a)"
    and "b \<in> A - {a} \<Longrightarrow> GetBalance K s' b = GetBalance K s b"
proof -
  let ?S = "StakingAddr P" and ?amt = "of_int (stakeOf K P s a) :: uint256"
  let ?s1 = "SetBalance K s ?S (GetBalance K s ?S - ?amt)"
  let ?s2 = "SetBalance K ?s1 a (GetBalance K ?s1 a + ?amt)"
  have i: "sys_inv K P N A s" and h: "reg.holds K P N A s vs" and vs: "distinct vs" "set vs \<subseteq> A"
    using assms(1) registered_holds [of K P N A s vs] by (simp_all add: registered_def)
  have av: "a \<in> set vs" using assms(2) by (simp add: a_def)
  then have a: "a \<in> A" "a \<noteq> ?S" using vs(2) i by (auto simp: sys_inv_def)
  have nz: "stakeOf K P s a \<noteq> 0" using assms(1) av a(1) by (auto simp: registered_def)
  have amt: "uint ?amt = stakeOf K P s a"
    using hash_Big_bounds by (intro uint_of_int_u256) (simp_all add: stakeOf_def)
  have le: "?amt \<le> GetBalance K s ?S" using assms(3) amt by (simp add: word_le_def a_def)
  have s': "s' = registry_remove K P ?s2 (address_key a)"
    using nz le unfolding s'_def a_def [symmetric]
    by (simp add: stake_withdraw_def Let_def address_key_def [symmetric] stakeOf_def u256_FromBig_def
        SubBalance_def AddBalance_def addBalance_h_def)
  note sb = sys_SetBalance [where P = P and N = N and A = A]
  have i2: "sys_inv K P N A ?s2" using i a by (simp add: sb)
  have g2: "GetState K ?s2 (ValidatorAddr P) x = GetState K s (ValidatorAddr P) x" if "x \<in> reg_keys N A" for x
    using that i a by (simp add: sb)
  have h2: "reg.holds K P N A ?s2 vs" by (rule reg.holds_cong [OF h i2 g2])
  have st2: "stakeOf K P ?s2 b = stakeOf K P s b" if "b \<in> A" for b using that i a by (simp add: sb stakeOf_def)
  have b2: "GetBalance K ?s2 c = (if c = a then GetBalance K s a + ?amt else if c = ?S then GetBalance K s ?S - ?amt else GetBalance K s c)"
    if "BalanceOf c \<in> sys_slots P N A" for c
    using that i a by (simp add: sb)
  note rm = registry_remove_holds [OF h2 assms(2), folded a_def, folded s']
  show st: "stakeOf K P s' b = (if b = a then 0 else stakeOf K P s b)" if "b \<in> A" for b
    using rm(2) [OF that] st2 [OF that] by simp
  show "registered K P N A s' (swap_remove vs i)"
    using rm(1) st assms(1) swap_remove_set(2) [OF vs(1) assms(2)] unfolding registered_holds
    by (auto simp: a_def)
  show "uint (GetBalance K s' ?S) = uint (GetBalance K s ?S) - stakeOf K P s a"
    using rm(3) [OF sys_slots_mem(4)] b2 [OF sys_slots_mem(4)] a(2) amt le
    by (metis uint_minus_simple_alt)
  show "GetBalance K s' a = GetBalance K s a + ?amt"
    using rm(3) [OF sys_slots_mem(3) [OF a(1)]] b2 [OF sys_slots_mem(3) [OF a(1)]] by simp
  show "GetBalance K s' b = GetBalance K s b" if "b \<in> A - {a}"
  proof -
    have "b \<in> A" "b \<noteq> a" "b \<noteq> ?S" using that i by (auto simp: sys_inv_def)
    then show ?thesis using rm(3) [OF sys_slots_mem(3), of b] b2 [OF sys_slots_mem(3), of b] by simp
  qed
qed

subsection \<open>Properties\<close>

text \<open>C10. A deposit enters the sender in the registry: a call of the staking contract with a value
  appends the sender to the validator list unless it is there already, records the value as its
  stake, and changes no other stake and no balance; the registry stays well formed.\<close>

theorem deposit_registers:
  assumes "registered K P N A s vs" "m_To msg = Some (StakingAddr P)" "StakingAddr P \<noteq> RewardAddr P"
    and "m_From msg \<in> A" "0 < m_Value msg" "m_Value msg < 2 ^ 256"
    and "string_of_bytes (tx_Data tx) \<noteq> ''UNSTAKE''" "m_From msg \<in> set vs \<or> length vs < N"
  shows "registered K P N A (ProcessSystemContracts K P s msg tx)
      (if m_From msg \<in> set vs then vs else vs @ [m_From msg]) \<and>
    (\<forall>b \<in> A. stakeOf K P (ProcessSystemContracts K P s msg tx) b
       = (if b = m_From msg then m_Value msg else stakeOf K P s b)) \<and>
    (\<forall>b \<in> insert (StakingAddr P) A. GetBalance K (ProcessSystemContracts K P s msg tx) b = GetBalance K s b)"
proof -
  have "ProcessSystemContracts K P s msg tx = stake_deposit K P s (m_From msg) (m_Value msg)"
    using assms by (simp add: ProcessSystemContracts_def staking_contract_def Let_def)
  moreover have "m_From msg \<notin> set vs \<Longrightarrow> length vs < N" using assms(8) by blast
  ultimately show ?thesis
    using stake_deposit_registered [OF assms(1,4,5,6)] by auto
qed

text \<open>C11. A withdrawal takes the sender out again: if the staking contract can pay the recorded
  stake, an \<open>UNSTAKE\<close> call moves exactly that amount to the sender, clears its stake, moves the
  last validator into its place, and leaves all other stakes and balances alone.\<close>

theorem withdraw_unregisters:
  assumes "registered K P N A s vs" "m_To msg = Some (StakingAddr P)" "StakingAddr P \<noteq> RewardAddr P"
    and "i < length vs" "m_From msg = vs ! i" "m_Value msg = 0" "string_of_bytes (tx_Data tx) = ''UNSTAKE''"
    and "stakeOf K P s (vs ! i) \<le> uint (GetBalance K s (StakingAddr P))"
    and "s' = ProcessSystemContracts K P s msg tx"
  shows "registered K P N A s' (swap_remove vs i) \<and>
    (\<forall>b \<in> A. stakeOf K P s' b = (if b = vs ! i then 0 else stakeOf K P s b)) \<and>
    uint (GetBalance K s' (StakingAddr P)) = uint (GetBalance K s (StakingAddr P)) - stakeOf K P s (vs ! i) \<and>
    GetBalance K s' (vs ! i) = GetBalance K s (vs ! i) + of_int (stakeOf K P s (vs ! i)) \<and>
    (\<forall>b \<in> A - {vs ! i}. GetBalance K s' b = GetBalance K s b)"
proof -
  have "s' = stake_withdraw K P s (vs ! i)"
    using assms by (simp add: ProcessSystemContracts_def staking_contract_def Let_def)
  then show ?thesis using stake_withdraw_registered [OF assms(1,4,8)] by blast
qed

text \<open>A second deposit forfeits the first: the new value replaces the recorded stake, so a
  validator that adds \<open>y\<close> to its stake and then withdraws is paid \<open>y\<close> alone, whatever it had
  staked before.\<close>

theorem topup_forfeits_stake:
  assumes "registered K P N A s vs" "i < length vs" "0 < y" "y < 2 ^ 256"
    and "y \<le> uint (GetBalance K s (StakingAddr P))"
    and "s' = stake_withdraw K P (stake_deposit K P s (vs ! i) y) (vs ! i)"
  shows "GetBalance K s' (vs ! i) = GetBalance K s (vs ! i) + of_int y \<and>
    stakeOf K P s' (vs ! i) = 0 \<and> registered K P N A s' (swap_remove vs i)"
proof -
  let ?s1 = "stake_deposit K P s (vs ! i) y"
  have a: "vs ! i \<in> A" "vs ! i \<in> set vs" using assms(1,2) by (auto simp: registered_def)
  have d: "registered K P N A ?s1 vs" "stakeOf K P ?s1 (vs ! i) = y"
      "GetBalance K ?s1 (StakingAddr P) = GetBalance K s (StakingAddr P)"
      "GetBalance K ?s1 (vs ! i) = GetBalance K s (vs ! i)"
    using stake_deposit_registered [OF assms(1) a(1) assms(3,4)] a by simp_all
  have "stakeOf K P ?s1 (vs ! i) \<le> uint (GetBalance K ?s1 (StakingAddr P))" using d(2,3) assms(5) by simp
  note w = stake_withdraw_registered [OF d(1) assms(2) this, folded assms(6)]
  show ?thesis using w(1,4) w(2) [OF a(1)] d(2,4) by simp
qed

lemma split_colon_no_colon: "CHR '':'' \<notin> set s \<Longrightarrow> split_colon s = [s]"
  by (induction s) auto

lemma split_colon_two:
  "CHR '':'' \<notin> set s \<Longrightarrow> CHR '':'' \<notin> set t \<Longrightarrow> split_colon (s @ CHR '':'' # t) = [s, t]"
  by (induction s) (auto simp: split_colon_no_colon)

text \<open>The reward pool pays whoever asks: any account can send \<open>REWARD:<addr>:<hex>\<close> with no
  value to the reward contract, and as long as the pool covers the amount it moves from the pool
  to the named address.  Nothing restricts the sender to the block producer.\<close>

theorem reward_pays_anyone:
  assumes "statedb_ok s" "m_To msg = Some (RewardAddr P)" "RewardAddr P \<noteq> StakingAddr P" "m_Value msg = 0"
    and "string_of_bytes (tx_Data tx) = ''REWARD:'' @ addr @ CHR '':'' # amt"
    and "CHR '':'' \<notin> set addr" "CHR '':'' \<notin> set amt"
    and "big_SetString amt 16 = Some n" "0 \<le> n" "n \<le> uint (GetBalance K s (RewardAddr P))"
    and "target = HexToAddress addr" "target \<noteq> RewardAddr P"
    and "collision_free K {BalanceOf (RewardAddr P), BalanceOf target}"
    and "s' = ProcessSystemContracts K P s msg tx"
  shows "uint (GetBalance K s' (RewardAddr P)) = uint (GetBalance K s (RewardAddr P)) - n \<and>
    GetBalance K s' target = GetBalance K s target + of_int n"
proof -
  let ?R = "RewardAddr P" and ?n = "of_int n :: uint256"
  let ?s1 = "SetBalance K s ?R (GetBalance K s ?R - ?n)"
  have n: "uint ?n = n"
    using assms(9,10) uint_bounded [of "GetBalance K s ?R"] by (intro uint_of_int_u256) simp_all
  then have le: "?n \<le> GetBalance K s ?R" using assms(10) by (simp add: word_le_def)
  have "length (tx_Data tx) = length (string_of_bytes (tx_Data tx))" by (simp add: string_of_bytes_def)
  then have "s' = reward_pay K P s addr amt"
    using assms(2-7,14)
    by (simp add: ProcessSystemContracts_def reward_contract_def Let_def split_colon_two)
  then have s': "s' = SetBalance K ?s1 target (GetBalance K ?s1 target + ?n)"
    using assms(8,11) le
    by (simp add: reward_pay_def Let_def u256_FromBig_def SubBalance_def AddBalance_def addBalance_h_def)
  have ok1: "statedb_ok ?s1" by (rule SetBalance_slots(1) [OF assms(1)])
  have "GetBalance K ?s1 target = GetBalance K s target"
    using SetBalance_slots(3) [OF assms(1,13), of ?R "BalanceOf target"] assms(12) by (simp add: getters_as_slots)
  moreover have "GetBalance K s' ?R = GetBalance K ?s1 ?R"
    using SetBalance_slots(3) [OF ok1 assms(13), of target "BalanceOf ?R"] assms(12) s' by (simp add: getters_as_slots)
  ultimately show ?thesis
    using SetBalance_slots(2) [OF ok1] SetBalance_slots(2) [OF assms(1)] s' n le
    by (metis uint_minus_simple_alt)
qed

subsection \<open>Witnesses\<close>

text \<open>\<open>toy_hash\<close> keeps the storage slots of small addresses and keys apart.\<close>

lemma nat_of_bytes_append: "nat_of_bytes (xs @ ys) = nat_of_bytes xs * 256 ^ length ys + nat_of_bytes ys"
  by (induction ys rule: rev_induct) (simp_all add: algebra_simps flip: append_assoc)

lemma unat_of_nat_hash: "n < 2 ^ 256 \<Longrightarrow> unat (of_nat n :: hash) = n"
  by (simp add: unsigned_of_nat take_bit_eq_mod)

lemma toy_residue:
  fixes a k :: nat
  shows "int ((a * 256 ^ 32 + k) mod (2 ^ 221 + 1)) = (int k - int a * 2 ^ 35) mod (2 ^ 221 + 1)"
proof -
  have "int ((a * 256 ^ 32 + k) mod (2 ^ 221 + 1)) = int (a * 256 ^ 32 + k) mod (2 ^ 221 + 1)"
    by (simp add: zmod_int)
  also have "int (a * 256 ^ 32 + k) = (int k - int a * 2 ^ 35) + (2 ^ 221 + 1) * (int a * 2 ^ 35)" by simp
  also have "\<dots> mod (2 ^ 221 + 1) = (int k - int a * 2 ^ 35) mod (2 ^ 221 + 1)" by (rule mod_mult_self2)
  finally show ?thesis .
qed

lemma toy_storage_value:
  "\<exists>q. unat (toy_hash (address_Bytes a @ hash_Bytes k)) = q * 65536 + 52 \<and>
     int q = (int (unat k) - int (unat a) * 2 ^ 35) mod (2 ^ 221 + 1)"
proof -
  let ?M = "2 ^ 221 + 1 :: nat" and ?x = "unat a * 256 ^ 32 + unat k"
  have e: "toy_hash (address_Bytes a @ hash_Bytes k) = of_nat (?x mod ?M * 65536 + 52)"
    by (simp only: toy_hash_def nat_of_bytes_append nat_of_bytes_address_Bytes nat_of_bytes_hash_Bytes
        length_append length_address_Bytes length_hash_Bytes) simp
  have "?x mod ?M < ?M" by simp
  then have "?x mod ?M * 65536 + 52 < 2 ^ 256" by simp
  then have u: "unat (toy_hash (address_Bytes a @ hash_Bytes k)) = ?x mod ?M * 65536 + 52"
    unfolding e by (rule unat_of_nat_hash)
  then show ?thesis using toy_residue [of "unat a" "unat k"] by blast
qed

lemma multiple_in_window:
  fixes d x :: int
  assumes "x = 34359738368 * d" "x < 34359738368" "- 34359738368 < x"
  shows "d = 0"
proof -
  have "34359738368 * d < 34359738368 * 1" "34359738368 * (- 1) < 34359738368 * d" using assms by simp_all
  then have "d < 1" "- 1 < d" by (simp_all only: mult_less_cancel_left_pos zero_less_numeral)
  then show ?thesis by simp
qed

lemma residues_apart:
  fixes a a' k k' :: nat
  assumes "a < 2 ^ 20" "a' < 2 ^ 20" "k < 2 ^ 35" "k' < 2 ^ 35"
    and "(int k - int a * 2 ^ 35) mod (2 ^ 221 + 1) = (int k' - int a' * 2 ^ 35) mod (2 ^ 221 + 1)"
  shows "a = a' \<and> k = k'"
proof -
  let ?d = "(int k - int a * 2 ^ 35) - (int k' - int a' * 2 ^ 35)"
  have "(2 ^ 221 + 1) dvd ?d" using assms(5) by (metis mod_eq_dvd_iff)
  moreover have "\<bar>?d\<bar> < 2 ^ 221 + 1" using assms(1-4) by simp
  ultimately have "?d = 0" by (metis dvd_imp_le_int linorder_not_less abs_of_nonneg zero_le_power zero_le_numeral add_nonneg_nonneg zero_le_one)
  then have e: "int k - int k' = 34359738368 * (int a - int a')" by simp
  have "int k - int k' < 34359738368" "- 34359738368 < int k - int k'" using assms(3,4) by simp_all
  with e have "int a - int a' = 0" by (rule multiple_in_window)
  with e show ?thesis by simp
qed

lemma toy_storage_inj:
  assumes "unat a < 2 ^ 20" "unat a' < 2 ^ 20" "unat k < 2 ^ 35" "unat k' < 2 ^ 35"
  shows "storageKey toy_hash a k = storageKey toy_hash a' k' \<longleftrightarrow> a = a' \<and> k = k'"
proof
  assume "storageKey toy_hash a k = storageKey toy_hash a' k'"
  then have e: "toy_hash (address_Bytes a @ hash_Bytes k) = toy_hash (address_Bytes a' @ hash_Bytes k')"
    by (simp add: storageKey_def)
  obtain q q' where "unat (toy_hash (address_Bytes a @ hash_Bytes k)) = q * 65536 + 52"
      "int q = (int (unat k) - int (unat a) * 2 ^ 35) mod (2 ^ 221 + 1)"
      "unat (toy_hash (address_Bytes a' @ hash_Bytes k')) = q' * 65536 + 52"
      "int q' = (int (unat k') - int (unat a') * 2 ^ 35) mod (2 ^ 221 + 1)"
    using toy_storage_value [of a k] toy_storage_value [of a' k'] by blast
  moreover from this e have "q = q'" by simp
  ultimately have "unat a = unat a' \<and> unat k = unat k'" using residues_apart [OF assms] by metis
  then show "a = a' \<and> k = k'" by (metis of_nat_unat_word)
qed simp

lemma toy_storage_last: "last (storageKey toy_hash a k) = 52"
proof -
  obtain q where q: "unat (toy_hash (address_Bytes a @ hash_Bytes k)) = q * 65536 + 52"
    using toy_storage_value by blast
  have "hash_Bytes h = be_bytes 31 (unat h div 256) @ [of_nat (unat h mod 256)]" for h
  proof -
    have "hash_Bytes h = be_bytes (Suc 31) (unat h)" by (simp add: hash_Bytes_def)
    then show ?thesis by (simp only: be_bytes.simps)
  qed
  then have "last (storageKey toy_hash a k) = of_nat ((q * 65536 + 52) mod 256)"
    unfolding storageKey_def q [symmetric] by (metis last_snoc)
  also have "(q * 65536 + 52) mod 256 = 52" by presburger
  finally show ?thesis by simp
qed

lemma toy_storage_account:
  "storageKey toy_hash a k \<noteq> balanceKey K b" "storageKey toy_hash a k \<noteq> nonceKey K b" "storageKey toy_hash a k \<noteq> codeHashKey K b"
  using toy_storage_last [of a k] by (auto simp: balanceKey_def nonceKey_def codeHashKey_def)

text \<open>All account slots, and the storage slots of small addresses and keys.\<close>

definition toy_slots :: "slot set" where
  "toy_slots = {x. \<forall>c k. x = StorageOf c k \<longrightarrow> unat c < 2 ^ 20 \<and> unat k < 2 ^ 35}"

lemma toy_slots_mem [simp]: "BalanceOf a \<in> toy_slots" "NonceOf a \<in> toy_slots" "CodeHashOf a \<in> toy_slots"
  by (simp_all add: toy_slots_def)

lemma toy_slots_free: "collision_free toy_hash toy_slots"
  unfolding collision_free_def
proof (rule inj_onI)
  fix x y assume "x \<in> toy_slots" "y \<in> toy_slots" "slotKey toy_hash x = slotKey toy_hash y"
  then show "x = y"
    using toy_storage_account [symmetric] toy_storage_account
    by (cases x; cases y) (auto simp: toy_slots_def slotKey.simps toy_storage_inj balanceKey_def nonceKey_def codeHashKey_def)
qed

text \<open>
  Two accounts registered one after the other on an empty state, with the concrete hash and
  the system addresses of the networks.
\<close>

definition demo_A :: "address set" where
  "demo_A = {0xA1, 0xA2}"

definition demo_msg :: "address \<Rightarrow> address \<Rightarrow> int \<Rightarrow> message" where
  "demo_msg from to value = \<lparr>m_From = from, m_To = Some to, m_Value = value, m_Nonce = 0, m_GasLimit = 21000,
     m_GasPrice = 1, m_GasFeeCap = 1, m_GasTipCap = 1, m_Data = [], m_AccessList = [],
     m_BlobHashes = None, m_BlobGasFeeCap = None, m_SkipNonceChecks = False, m_SkipTransactionChecks = False\<rparr>"

definition demo_fresh :: statedb where
  "demo_fresh = SetBalance toy_hash (NewState mem_db 0 None) 0x1000 100"

definition demo_staked :: statedb where
  "demo_staked = stake_deposit toy_hash network_params demo_fresh 0xA1 7"

lemma demo_sys_slots: "sys_slots network_params 5 demo_A \<subseteq> toy_slots"
proof -
  have "address_key 0xA1 = 0xA1" "address_key 0xA2 = 0xA2" by (simp_all add: address_key_nat)
  moreover have "{0..5} = {0, 1, 2, 3, 4, 5 :: nat}" by auto
  ultimately show ?thesis
    by (auto simp: sys_slots_def toy_slots_def reg_keys_def demo_A_def system_addresses)
qed

lemma demo_sys_slots_free: "collision_free toy_hash (sys_slots network_params 5 demo_A)"
  using toy_slots_free demo_sys_slots by (auto simp: collision_free_def intro: inj_on_subset)

lemma demo_sys_inv: "statedb_ok s \<Longrightarrow> sys_inv toy_hash network_params 5 demo_A s"
  using demo_sys_slots_free by (simp add: sys_inv_def separated_def demo_A_def system_addresses)

lemma NewState_None_reads: "getVerkleValue (NewState D root None) k = []"
  by (simp add: NewState_def empty_fields_def vt.get_new)

lemma demo_fresh_registered: "registered toy_hash network_params 5 demo_A demo_fresh []"
proof -
  have ok: "statedb_ok demo_fresh" unfolding demo_fresh_def by (rule SetBalance_slots(1)) (rule NewState_None_ok)
  have z: "GetState toy_hash demo_fresh c k = 0" for c k
  proof -
    have "storageKey toy_hash c k \<noteq> balanceKey toy_hash 0x1000" by (rule toy_storage_account)
    moreover have "length (balanceKey toy_hash 0x1000) = 32" by (simp add: balanceKey_def accountStem_def)
    ultimately show ?thesis
      by (simp add: GetState_def demo_fresh_def SetBalance_def NewState_None_reads length_u256_Bytes
          get_setVerkleValue [OF NewState_None_ok])
  qed
  show ?thesis by (simp add: registered_def demo_sys_inv [OF ok] z stakeOf_def)
qed

lemma demo_fresh_balance: "GetBalance toy_hash demo_fresh 0x1000 = 100"
  unfolding demo_fresh_def by (rule SetBalance_slots(2)) (rule NewState_None_ok)

lemma demo_staked_registered:
  "registered toy_hash network_params 5 demo_A demo_staked [0xA1]"
  "stakeOf toy_hash network_params demo_staked 0xA1 = 7"
  "GetBalance toy_hash demo_staked 0x1000 = 100"
  using stake_deposit_registered [OF demo_fresh_registered, of "0xA1" 7] demo_fresh_balance
    sys_slots_mem(4) [of network_params 5 demo_A]
  by (simp_all add: demo_staked_def demo_A_def system_addresses)

theorem deposit_registers_witness:
  "registered toy_hash network_params 5 demo_A
     (ProcessSystemContracts toy_hash network_params demo_staked (demo_msg 0xA2 0x1000 9) (demo_tx 0 4 9)) [0xA1, 0xA2]"
  using deposit_registers [OF demo_staked_registered(1), of "demo_msg 0xA2 0x1000 9" "demo_tx 0 4 9"]
  by (simp add: demo_msg_def system_addresses demo_A_def demo_tx_def string_of_bytes_def)

theorem withdraw_unregisters_witness:
  "uint (GetBalance toy_hash (ProcessSystemContracts toy_hash network_params demo_staked (demo_msg 0xA1 0x1000 0)
     ((demo_tx 0 4 9)\<lparr>tx_Data := bytes_of_string ''UNSTAKE''\<rparr>)) 0x1000) = 93"
  using withdraw_unregisters [OF demo_staked_registered(1), of "demo_msg 0xA1 0x1000 0" 0
      "(demo_tx 0 4 9)\<lparr>tx_Data := bytes_of_string ''UNSTAKE''\<rparr>"]
  by (simp add: demo_msg_def system_addresses demo_staked_registered(2,3))

theorem topup_forfeits_stake_witness:
  "stakeOf toy_hash network_params demo_staked 0xA1 = 7 \<and>
   GetBalance toy_hash (stake_withdraw toy_hash network_params
     (stake_deposit toy_hash network_params demo_staked 0xA1 2) 0xA1) 0xA1 = GetBalance toy_hash demo_staked 0xA1 + 2"
  using topup_forfeits_stake [OF demo_staked_registered(1), of 0 2]
  by (simp add: system_addresses demo_staked_registered(2,3))

theorem reward_pays_anyone_witness:
  "uint (GetBalance toy_hash (ProcessSystemContracts toy_hash network_params
     (SetBalance toy_hash (NewState mem_db 0 None) 0x2000 50) (demo_msg 0xB0B 0x2000 0)
     ((demo_tx 0 4 9)\<lparr>tx_Data := bytes_of_string ''REWARD:0xB0B:1f''\<rparr>)) 0x2000) = 19"
proof -
  let ?s = "SetBalance toy_hash (NewState mem_db 0 None) 0x2000 50"
  have ok: "statedb_ok ?s" by (rule SetBalance_slots(1)) (rule NewState_None_ok)
  have b: "GetBalance toy_hash ?s 0x2000 = 50" by (rule SetBalance_slots(2)) (rule NewState_None_ok)
  have t: "HexToAddress ''0xB0B'' = 0xB0B" by (simp add: hex_eval)
  have n: "big_SetString ''1f'' 16 = Some 31" by (simp add: big_SetString_def digit_value_def)
  have c: "collision_free toy_hash {BalanceOf 0x2000, BalanceOf 0xB0B}"
    by (simp add: collision_free_def slotKey.simps balanceKey_def)
  let ?msg = "demo_msg 0xB0B 0x2000 0"
  let ?tx = "(demo_tx 0 4 9)\<lparr>tx_Data := bytes_of_string ''REWARD:0xB0B:1f''\<rparr>"
  have m: "m_To ?msg = Some (RewardAddr network_params)" "m_Value ?msg = 0"
    by (simp_all add: demo_msg_def system_addresses)
  have a: "RewardAddr network_params \<noteq> StakingAddr network_params" "0xB0B \<noteq> RewardAddr network_params"
    by (simp_all add: system_addresses)
  have d: "string_of_bytes (tx_Data ?tx) = ''REWARD:'' @ ''0xB0B'' @ CHR '':'' # ''1f''" by simp
  have col: "CHR '':'' \<notin> set ''0xB0B''" "CHR '':'' \<notin> set ''1f''" by simp_all
  have le: "31 \<le> uint (GetBalance toy_hash ?s (RewardAddr network_params))" by (simp add: system_addresses b)
  have cf: "collision_free toy_hash {BalanceOf (RewardAddr network_params), BalanceOf 0xB0B}"
    using c by (simp add: system_addresses)
  note r = reward_pays_anyone [OF ok m(1) a(1) m(2) d col n _ le t [symmetric] a(2) cf refl]
  have "uint (50 :: uint256) - 31 = 19" by simp
  then show ?thesis using r unfolding system_addresses b by simp
qed

end
