(* ===== verification/Executor.thy ===== *)
theory Executor
  imports Blockchain SystemContracts
begin

text \<open>
  \<open>core/executor.go\<close>: the execution of a block, wave by wave.

  The transactions of a wave run in one goroutine each.  A goroutine makes an overlay of the
  state, executes its transaction on it (\<open>run_tx\<close>), and then merges the overlay and writes
  its receipt under the merge lock (\<open>finish_tx\<close>).  The order in which the goroutines of
  a wave do these two steps is the parameter \<open>I\<close>: \<open>I k\<close> is the list of events of wave
  \<open>k\<close>, \<open>Start i\<close> for the execution of its \<open>i\<close>-th transaction and
  \<open>Finish i\<close> for its critical section.  An execution reads the shared state as it is
  at its \<open>Start\<close> event; interleavings in which another merge falls between two reads
  of one execution are not represented.  A panic in a goroutine ends the process, and is the
  result \<open>None\<close>.
\<close>

record executor =
  x_config :: ChainConfig
  x_netCfg :: NetworkConfig
  x_bc :: "(uint64 \<Rightarrow> block option) option"

definition NewExecutor ::
    "codec \<Rightarrow> 'd leveldb \<Rightarrow> ChainConfig \<Rightarrow> NetworkConfig \<Rightarrow> 'd blockchain \<Rightarrow> executor" where
  "NewExecutor J D config netCfg bc =
     \<lparr>x_config = config, x_netCfg = netCfg, x_bc = Some (GetBlockByNumber J D bc)\<rparr>"

subsection \<open>One transaction\<close>

text \<open>The closure \<open>getHash\<close>: the hashes of the 256 blocks before the current one.\<close>

definition getHash :: "crypto \<Rightarrow> executor \<Rightarrow> header \<Rightarrow> uint64 \<Rightarrow> hash" where
  "getHash C e header n =
     (let number = big_Uint64 (Number header) in
      if number > n \<and> number - n \<le> 256 then
        (case x_bc e of
           None \<Rightarrow> 0
         | Some lookup \<Rightarrow> (case lookup n of None \<Rightarrow> 0 | Some b \<Rightarrow> block_Hash C b))
      else 0)"

definition isSystemTx :: "SystemParams \<Rightarrow> message \<Rightarrow> bool" where
  "isSystemTx P msg \<longleftrightarrow> m_To msg \<noteq> None \<and>
     (the (m_To msg) = StakingAddr P \<or> the (m_To msg) = RewardAddr P \<or> the (m_To msg) = ValidatorAddr P)"

datatype tx_outcome = Skipped | Erred | Panicked | Applied statedb execution_result message

definition run_tx ::
    "evm \<Rightarrow> crypto \<Rightarrow> 'd leveldb \<Rightarrow> 'd \<Rightarrow> executor \<Rightarrow> header \<Rightarrow> statedb \<Rightarrow> transaction \<Rightarrow> tx_outcome" where
  "run_tx E C D d e header statedb tx =
     (if tx_Size tx > 512 * 1024 then Skipped
      else
        (let overlayDB = NewOverlay statedb;
             P = n_Params (x_netCfg e)
         in case TransactionToMessage C (c_ChainID (x_config e)) tx (BaseFee header) of
              None \<Rightarrow> Skipped
            | Some msg \<Rightarrow>
                (case ApplyMessage E (Keccak C) D d (NewEVM header (x_config e) (getHash C e header)) msg
                        (GasLimit header) overlayDB of
                   Inl err \<Rightarrow> (if err = Panic then Panicked else Erred)
                 | Inr (overlay1, res) \<Rightarrow>
                     (let res1 = (if isSystemTx P msg then res\<lparr>UsedGas := 0\<rparr> else res)
                      in Applied (ProcessSystemContracts (Keccak C) P overlay1 msg tx) res1 msg))))"

subsection \<open>Merging and receipts\<close>

record exec_state =
  x_state :: statedb
  blockGasUsed :: uint64
  totalFees :: int
  receipts :: "receipt option list"

definition nil_receipt :: receipt where
  "nil_receipt = \<lparr>PostState = [], Status = 0, CumulativeGasUsed = 0, Bloom = replicate 256 0, Logs = [],
     r_TxHash = 0, ContractAddress = 0, r_GasUsed = 0\<rparr>"

text \<open>The status code of a receipt.\<close>

definition status :: "bool \<Rightarrow> uint64" where
  "status failed = (if failed then 0 else 1)"

text \<open>The price the fee is charged at.\<close>

definition fee_price :: "header \<Rightarrow> transaction \<Rightarrow> int" where
  "fee_price header tx =
     (case BaseFee header of
        None \<Rightarrow> tx_GasPrice tx
      | Some baseFee \<Rightarrow>
          (let priority = baseFee + tx_GasTipCap tx
           in if priority < tx_GasPrice tx then priority else tx_GasPrice tx))"

definition txIndex :: "transaction list \<Rightarrow> (hash \<times> nat) list" where
  "txIndex txs = fold (\<lambda>(i, tx). AList.update (tx_Hash tx) i) (zip [0..<length txs] txs) []"

text \<open>\<open>txIndex[tx.Hash()]\<close>; a missing key gives 0.\<close>

definition index_of :: "(hash \<times> nat) list \<Rightarrow> transaction \<Rightarrow> nat" where
  "index_of idx tx = (case map_of idx (tx_Hash tx) of None \<Rightarrow> 0 | Some i \<Rightarrow> i)"

definition error_tx :: "(hash \<times> nat) list \<Rightarrow> transaction \<Rightarrow> exec_state \<Rightarrow> exec_state" where
  "error_tx idx tx st =
     st\<lparr>receipts := (receipts st)[index_of idx tx := Some (nil_receipt\<lparr>r_TxHash := tx_Hash tx\<rparr>)]\<rparr>"

text \<open>The critical section: merge the overlay, count gas and fee, write the receipt.\<close>

definition finish_tx ::
    "evm \<Rightarrow> header \<Rightarrow> (hash \<times> nat) list \<Rightarrow> transaction \<Rightarrow> statedb \<Rightarrow> execution_result \<Rightarrow> message
      \<Rightarrow> exec_state \<Rightarrow> exec_state" where
  "finish_tx E header idx tx overlayDB res msg st =
     (let gasUsed = blockGasUsed st + UsedGas res;
          fee = int (unat (UsedGas res)) * fee_price header tx;
          receipt = nil_receipt\<lparr>Status := status (Failed res), CumulativeGasUsed := gasUsed,
            Logs := GetLogs overlayDB (tx_Hash tx), r_TxHash := tx_Hash tx, r_GasUsed := UsedGas res,
            ContractAddress := (if m_To msg = None then CreateAddress E (m_From msg) (tx_Nonce tx) else 0)\<rparr>
      in \<lparr>x_state = merge_into (x_state st) overlayDB, blockGasUsed = gasUsed,
          totalFees = totalFees st + fee,
          receipts = (receipts st)[index_of idx tx := Some receipt]\<rparr>)"

subsection \<open>Waves\<close>

datatype wave_event = Start nat | Finish nat

type_synonym pending = "(nat \<times> statedb \<times> execution_result \<times> message) list"

definition wave_step ::
    "evm \<Rightarrow> crypto \<Rightarrow> 'd leveldb \<Rightarrow> 'd \<Rightarrow> executor \<Rightarrow> header \<Rightarrow> (hash \<times> nat) list \<Rightarrow> transaction list
      \<Rightarrow> wave_event \<Rightarrow> exec_state \<times> pending \<Rightarrow> (exec_state \<times> pending) option" where
  "wave_step E C D d e header idx wave ev = (\<lambda>(st, pend).
     case ev of
       Start i \<Rightarrow>
         (case run_tx E C D d e header (x_state st) (wave ! i) of
            Skipped \<Rightarrow> Some (st, pend)
          | Erred \<Rightarrow> Some (error_tx idx (wave ! i) st, pend)
          | Panicked \<Rightarrow> None
          | Applied overlayDB res msg \<Rightarrow> Some (st, (i, overlayDB, res, msg) # pend))
     | Finish i \<Rightarrow>
         (case map_of pend i of
            None \<Rightarrow> Some (st, pend)
          | Some (overlayDB, res, msg) \<Rightarrow>
              Some (finish_tx E header idx (wave ! i) overlayDB res msg st, AList.delete i pend)))"

primrec wave_steps ::
    "evm \<Rightarrow> crypto \<Rightarrow> 'd leveldb \<Rightarrow> 'd \<Rightarrow> executor \<Rightarrow> header \<Rightarrow> (hash \<times> nat) list \<Rightarrow> transaction list
      \<Rightarrow> wave_event list \<Rightarrow> exec_state \<times> pending \<Rightarrow> (exec_state \<times> pending) option" where
  "wave_steps E C D d e header idx wave [] x = Some x"
| "wave_steps E C D d e header idx wave (ev # evs) x =
     (case wave_step E C D d e header idx wave ev x of
        None \<Rightarrow> None
      | Some y \<Rightarrow> wave_steps E C D d e header idx wave evs y)"

definition run_wave ::
    "evm \<Rightarrow> crypto \<Rightarrow> 'd leveldb \<Rightarrow> 'd \<Rightarrow> executor \<Rightarrow> header \<Rightarrow> (hash \<times> nat) list \<Rightarrow> transaction list
      \<Rightarrow> wave_event list \<Rightarrow> exec_state \<Rightarrow> exec_state option" where
  "run_wave E C D d e header idx wave evs st =
     map_option fst (wave_steps E C D d e header idx wave evs (st, []))"

text \<open>The orders a wave of \<open>n\<close> goroutines can have: each starts once and finishes once, after its start.\<close>

definition interleaving :: "nat \<Rightarrow> wave_event list \<Rightarrow> bool" where
  "interleaving n evs \<longleftrightarrow> distinct evs \<and> set evs = Start ` {..<n} \<union> Finish ` {..<n} \<and>
     (\<forall>i < n. Finish i \<notin> set (takeWhile (\<lambda>ev. ev \<noteq> Start i) evs))"

primrec run_waves ::
    "evm \<Rightarrow> crypto \<Rightarrow> 'd leveldb \<Rightarrow> 'd \<Rightarrow> executor \<Rightarrow> header \<Rightarrow> (hash \<times> nat) list
      \<Rightarrow> (nat \<Rightarrow> wave_event list) \<Rightarrow> nat \<Rightarrow> transaction list list \<Rightarrow> exec_state \<Rightarrow> exec_state option" where
  "run_waves E C D d e header idx I k [] st = Some st"
| "run_waves E C D d e header idx I k (wave # waves) st =
     (if blockGasUsed st > 60000000 then Some st
      else case run_wave E C D d e header idx wave (I k) st of
             None \<Rightarrow> None
           | Some st' \<Rightarrow> run_waves E C D d e header idx I (Suc k) waves st')"

subsection \<open>The block\<close>

text \<open>Fill the gaps and number the gas: the final receipts.\<close>

fun compact_receipts :: "uint64 \<Rightarrow> transaction list \<Rightarrow> receipt option list \<Rightarrow> receipt list" where
  "compact_receipts cumulative (tx # txs) (ro # ros) =
     (let r = (case ro of None \<Rightarrow> nil_receipt\<lparr>r_TxHash := tx_Hash tx\<rparr> | Some r \<Rightarrow> r);
          cumulative' = cumulative + r_GasUsed r
      in r\<lparr>CumulativeGasUsed := cumulative'\<rparr> # compact_receipts cumulative' txs ros)"
| "compact_receipts cumulative _ _ = []"

definition block_start :: "statedb \<Rightarrow> transaction list \<Rightarrow> exec_state" where
  "block_start s txs = \<lparr>x_state = s, blockGasUsed = 0, totalFees = 0, receipts = replicate (length txs) None\<rparr>"

definition ApplyBlock ::
    "evm \<Rightarrow> crypto \<Rightarrow> 'd leveldb \<Rightarrow> 'd \<Rightarrow> (vtree \<Rightarrow> hash) \<Rightarrow> executor \<Rightarrow> (nat \<Rightarrow> wave_event list)
      \<Rightarrow> statedb \<Rightarrow> header \<Rightarrow> transaction list \<Rightarrow> (receipt list \<times> hash \<times> statedb) option" where
  "ApplyBlock E C D d R e I s header txs =
     (let waves = schedule C (c_ChainID (x_config e)) txs in
      case run_waves E C D d e header (txIndex txs) I 0 waves (block_start s txs) of
        None \<Rightarrow> None
      | Some st \<Rightarrow>
          (let reward = 10000000000000000000 + totalFees st in
           case u256_MustFromBig reward of
             None \<Rightarrow> None
           | Some amount \<Rightarrow>
               (let s' = AddBalanceReward (Keccak C) (x_state st) (Coinbase header) amount
                in Some (compact_receipts 0 txs (receipts st), IntermediateRoot R s', s'))))"

text \<open>\<open>Call\<close> runs a message on an overlay that is dropped.\<close>

definition Call ::
    "evm \<Rightarrow> crypto \<Rightarrow> 'd leveldb \<Rightarrow> 'd \<Rightarrow> executor \<Rightarrow> statedb \<Rightarrow> header \<Rightarrow> message
      \<Rightarrow> core_error + execution_result" where
  "Call E C D d e s header msg =
     (case ApplyMessage E (Keccak C) D d (NewEVM header (x_config e) (\<lambda>n. 0)) msg (GasLimit header) (NewOverlay s) of
        Inl err \<Rightarrow> Inl err
      | Inr (_, res) \<Rightarrow> Inr res)"

subsection \<open>Receipts\<close>

text \<open>Every receipt that is present stands at a position whose transaction has its hash.\<close>

definition receipts_ok :: "transaction list \<Rightarrow> receipt option list \<Rightarrow> bool" where
  "receipts_ok txs rs \<longleftrightarrow> length rs = length txs \<and>
     (\<forall>i < length txs. \<forall>r. rs ! i = Some r \<longrightarrow> r_TxHash r = tx_Hash (txs ! i))"

lemma fold_index_update:
  "map_of (fold (\<lambda>(i, tx). AList.update (tx_Hash tx) i) its al) h = Some i \<Longrightarrow>
     map_of al h = Some i \<or> (\<exists>tx. (i, tx) \<in> set its \<and> tx_Hash tx = h)"
  by (induction its arbitrary: al) (fastforce split: if_splits)+

lemma txIndex_sound:
  assumes "map_of (txIndex txs) h = Some i"
  shows "i < length txs \<and> tx_Hash (txs ! i) = h"
  using fold_index_update [OF assms [unfolded txIndex_def]] by (auto simp: set_zip)

lemma fold_index_dom:
  "(i, tx) \<in> set its \<Longrightarrow> map_of (fold (\<lambda>(i, tx). AList.update (tx_Hash tx) i) its al) (tx_Hash tx) \<noteq> None"
proof (induction its arbitrary: al)
  case Nil
  then show ?case by simp
next
  case (Cons it its)
  have keep: "map_of al h \<noteq> None \<Longrightarrow> map_of (fold (\<lambda>(i, tx). AList.update (tx_Hash tx) i) its al) h \<noteq> None" for al h
    by (induction its arbitrary: al) (auto split: if_splits)
  show ?case
  proof (cases "it = (i, tx)")
    case True
    then show ?thesis using keep [of "AList.update (tx_Hash tx) i al" "tx_Hash tx"] by simp
  next
    case False
    then show ?thesis using Cons by (cases it) auto
  qed
qed

lemma index_of_sound:
  assumes "tx \<in> set txs"
  shows "index_of (txIndex txs) tx < length txs" "tx_Hash (txs ! index_of (txIndex txs) tx) = tx_Hash tx"
proof -
  obtain i where "i < length txs" "txs ! i = tx" using assms by (metis in_set_conv_nth)
  then have "(i, tx) \<in> set (zip [0..<length txs] txs)" by (force simp: set_zip)
  then obtain j where "map_of (txIndex txs) (tx_Hash tx) = Some j"
    using fold_index_dom [of i tx] by (fastforce simp: txIndex_def)
  then show "index_of (txIndex txs) tx < length txs" "tx_Hash (txs ! index_of (txIndex txs) tx) = tx_Hash tx"
    using txIndex_sound by (simp_all add: index_of_def)
qed

lemma receipts_ok_put:
  assumes "receipts_ok txs rs" "tx \<in> set txs" "r_TxHash r = tx_Hash tx"
  shows "receipts_ok txs (rs[index_of (txIndex txs) tx := Some r])"
  using assms index_of_sound [OF assms(2)] by (auto simp: receipts_ok_def nth_list_update)

lemma error_tx_receipts:
  "receipts_ok txs (receipts st) \<Longrightarrow> tx \<in> set txs \<Longrightarrow> receipts_ok txs (receipts (error_tx (txIndex txs) tx st))"
  by (simp add: error_tx_def receipts_ok_put)

lemma finish_tx_receipts:
  "receipts_ok txs (receipts st) \<Longrightarrow> tx \<in> set txs \<Longrightarrow>
     receipts_ok txs (receipts (finish_tx E header (txIndex txs) tx overlayDB res msg st))"
  by (simp add: finish_tx_def Let_def receipts_ok_put)

lemma wave_step_receipts:
  assumes "wave_step E C D d e header (txIndex txs) wave ev (st, pend) = Some (st', pend')"
    and "set wave \<subseteq> set txs" "case ev of Start i \<Rightarrow> i < length wave | Finish i \<Rightarrow> i < length wave"
    and "receipts_ok txs (receipts st)"
  shows "receipts_ok txs (receipts st')"
proof -
  have "wave ! i \<in> set txs" if "i < length wave" for i using assms(2) that by auto
  then show ?thesis
    using assms(1,3,4)
    by (auto simp: wave_step_def split: wave_event.splits tx_outcome.splits option.splits
        intro: error_tx_receipts finish_tx_receipts)
qed

lemma interleaving_bounds:
  "interleaving n evs \<Longrightarrow> ev \<in> set evs \<Longrightarrow> (case ev of Start i \<Rightarrow> i < n | Finish i \<Rightarrow> i < n)"
  by (auto simp: interleaving_def)

lemma wave_steps_receipts:
  assumes "wave_steps E C D d e header (txIndex txs) wave evs (st, pend) = Some (st', pend')"
    and "set wave \<subseteq> set txs" "\<forall>ev \<in> set evs. case ev of Start i \<Rightarrow> i < length wave | Finish i \<Rightarrow> i < length wave"
    and "receipts_ok txs (receipts st)"
  shows "receipts_ok txs (receipts st')"
  using assms
proof (induction evs arbitrary: st pend)
  case (Cons ev evs)
  then show ?case
    by (auto split: option.splits dest: wave_step_receipts)
qed simp

lemma run_waves_receipts:
  assumes "run_waves E C D d e header (txIndex txs) I k waves st = Some st'"
    and "\<forall>wave \<in> set waves. set wave \<subseteq> set txs"
    and "\<forall>i < length waves. interleaving (length (waves ! i)) (I (k + i))"
    and "receipts_ok txs (receipts st)"
  shows "receipts_ok txs (receipts st')"
  using assms
proof (induction waves arbitrary: k st)
  case (Cons wave waves)
  have I: "interleaving (length wave) (I k)" "\<forall>i < length waves. interleaving (length (waves ! i)) (I (Suc k + i))"
    using Cons.prems(3) by (force, fastforce)
  show ?case
  proof (cases "blockGasUsed st > 60000000")
    case True
    then show ?thesis using Cons.prems by simp
  next
    case False
    then obtain st1 where st1: "run_wave E C D d e header (txIndex txs) wave (I k) st = Some st1"
      "run_waves E C D d e header (txIndex txs) I (Suc k) waves st1 = Some st'"
      using Cons.prems(1) by (auto split: option.splits)
    have "receipts_ok txs (receipts st1)"
      using st1(1) Cons.prems(2,4) interleaving_bounds [OF I(1)]
      by (auto simp: run_wave_def intro: wave_steps_receipts)
    then show ?thesis using Cons.IH [OF st1(2) _ I(2)] Cons.prems(2) by simp
  qed
qed simp

lemma compact_receipts_hashes:
  assumes "receipts_ok txs rs"
  shows "map r_TxHash (compact_receipts c txs rs) = map tx_Hash txs"
proof -
  have "list_all2 (\<lambda>tx ro. \<forall>r. ro = Some r \<longrightarrow> r_TxHash r = tx_Hash tx) txs rs"
    using assms by (simp add: receipts_ok_def list_all2_conv_all_nth)
  then show ?thesis
    by (induction arbitrary: c rule: list_all2_induct) (auto simp: Let_def nil_receipt_def split: option.split)
qed

lemma compact_receipts_gas:
  "i < length (compact_receipts c txs rs) \<Longrightarrow>
     CumulativeGasUsed (compact_receipts c txs rs ! i)
       = c + sum_list (map r_GasUsed (take (Suc i) (compact_receipts c txs rs)))"
proof (induction c txs rs arbitrary: i rule: compact_receipts.induct)
  case (1 cumulative tx txs ro ros)
  then show ?case by (cases i) (auto simp: Let_def add.assoc)
qed simp_all

lemma schedule_waves_in: "wave \<in> set (schedule C cid txs) \<Longrightarrow> set wave \<subseteq> set txs"
  using waves.each_once [of C cid txs] by (metis Sup_upper image_eqI set_concat set_mset_mset)

lemma receipts_ok_start: "receipts_ok txs (receipts (block_start s txs))"
  by (simp add: receipts_ok_def block_start_def)

text \<open>Every wave of the block has an order its goroutines can have.\<close>

definition interleavings :: "crypto \<Rightarrow> executor \<Rightarrow> transaction list \<Rightarrow> (nat \<Rightarrow> wave_event list) \<Rightarrow> bool" where
  "interleavings C e txs I \<longleftrightarrow>
     (let waves = schedule C (c_ChainID (x_config e)) txs
      in \<forall>k < length waves. interleaving (length (waves ! k)) (I k))"

lemma ApplyBlock_receipts:
  assumes "ApplyBlock E C D d R e I s header txs = Some (rs, root, s')" "interleavings C e txs I"
  shows "map r_TxHash rs = map tx_Hash txs \<and> root = IntermediateRoot R s' \<and>
    (\<forall>i < length rs. CumulativeGasUsed (rs ! i) = sum_list (map r_GasUsed (take (Suc i) rs)))"
proof -
  obtain st where st: "run_waves E C D d e header (txIndex txs) I 0 (schedule C (c_ChainID (x_config e)) txs)
      (block_start s txs) = Some st" "rs = compact_receipts 0 txs (receipts st)" "root = IntermediateRoot R s'"
    using assms(1) by (auto simp: ApplyBlock_def Let_def split: option.splits)
  have "receipts_ok txs (receipts st)"
    using assms(2) by (intro run_waves_receipts [OF st(1)] receipts_ok_start)
      (auto simp: interleavings_def Let_def dest: schedule_waves_in)
  then show ?thesis
    using compact_receipts_hashes compact_receipts_gas [of _ 0] by (auto simp: st(2,3))
qed

text \<open>C12. The receipts of a block are aligned with its transactions in every interleaving: there is
  one per transaction, in the order of the block, carrying the hash of its transaction, and
  the cumulative gas of each is the sum of the gas used up to it.\<close>

theorem receipts_aligned:
  assumes "ApplyBlock E C D d R e I s header txs = Some (rs, root, s')" "interleavings C e txs I"
  shows "map r_TxHash rs = map tx_Hash txs \<and> root = IntermediateRoot R s' \<and>
    (\<forall>i < length rs. CumulativeGasUsed (rs ! i) = sum_list (map r_GasUsed (take (Suc i) rs)))"
  by (rule ApplyBlock_receipts [OF assms])

subsection \<open>A block without blobs is executed to the end\<close>

lemma AddGas_fits:
  fixes gp lim g left :: uint64
  assumes "lim \<le> gp" "g \<le> lim" "left \<le> lim - g"
  shows "\<exists>p. AddGas (gp - lim) left = Inr p"
proof -
  have "unat (gp - lim) = unat gp - unat lim" "unat (lim - g) = unat lim - unat g"
    "unat lim \<le> unat gp" "unat g \<le> unat lim" "unat left \<le> unat (lim - g)"
    using assms by (simp_all add: unat_sub word_le_nat_alt)
  moreover have "unat (- 1 - left) = 2 ^ 64 - 1 - unat left"
    by (subst unat_sub) (simp_all add: unsigned_minus_1_eq_mask mask_eq_exp_minus_1)
  moreover have "unat gp < 2 ^ 64" using unsigned_less [of gp, where ?'a = nat] by simp
  ultimately have "\<not> gp - lim > - 1 - left" by (simp add: word_less_nat_alt)
  then show ?thesis by (simp add: AddGas_def)
qed

lemma IntrinsicGas_no_panic: "IntrinsicGas dat al c h i s \<noteq> Inl Panic"
  by (auto simp: IntrinsicGas_def Let_def split: if_splits)

lemma checks_no_panic:
  assumes "BaseFee h = Some b" "m_BlobHashes msg = None"
  shows "nonce_check K s msg \<noteq> Some Panic" "fee_check (NewEVM h cfg gh) msg \<noteq> Some Panic"
    and "blob_check (NewEVM h cfg gh) msg = None" "buyGas K (NewEVM h cfg gh) msg gp s \<noteq> Inl Panic"
proof -
  have "\<exists>m c. gas_cost (NewEVM h cfg gh) msg = Some (m, c)"
    using assms(2) by (simp add: gas_cost_def blobGasUsed_def Let_def)
  then show "buyGas K (NewEVM h cfg gh) msg gp s \<noteq> Inl Panic"
    by (auto simp: buyGas_def SubGas_def split: prod.splits if_splits)
qed (use assms in \<open>simp_all add: nonce_check_def fee_check_def blob_check_def Let_def\<close>)

lemma preCheck_no_panic:
  assumes "BaseFee h = Some b" "m_BlobHashes msg = None"
  shows "preCheck K D d (NewEVM h cfg gh) msg gp s \<noteq> Inl Panic"
  using checks_no_panic [OF assms]
  by (cases "nonce_check K s msg"; cases "fee_check (NewEVM h cfg gh) msg") (auto simp: preCheck_def split: prod.split)

lemma preCheck_accepts:
  assumes "preCheck K D d (NewEVM h (ChainConfigOf net) gh) msg gp s = Inr (s1, gp1)" "0 \<le> Number h"
  shows "\<bar>m_GasFeeCap msg\<bar> < 2 ^ 256" "\<bar>m_GasTipCap msg\<bar> < 2 ^ 256" "m_GasLimit msg \<le> gp" "gp1 = gp - m_GasLimit msg"
proof -
  have "fee_check (NewEVM h (ChainConfigOf net) gh) msg = None"
    using assms(1) by (auto simp: preCheck_def split: option.splits if_splits prod.splits)
  then show "\<bar>m_GasFeeCap msg\<bar> < 2 ^ 256" "\<bar>m_GasTipCap msg\<bar> < 2 ^ 256"
    using assms(2) by (auto simp: fee_check_def rules_of_networks split: if_splits)
  show "m_GasLimit msg \<le> gp" by (rule preCheck_pool [OF assms(1)])
  show "gp1 = gp - m_GasLimit msg"
    using assms(1) by (auto simp: preCheck_def buyGas_def SubGas_def Let_def split: option.splits if_splits prod.splits sum.splits)
qed

lemma ApplyMessage_no_panic:
  assumes E: "gas_ok E" and h: "0 \<le> Number h" "BaseFee h = Some b" "0 \<le> b" and blob: "m_BlobHashes msg = None"
    and price: "m_GasPrice msg = min (m_GasTipCap msg + b) (m_GasFeeCap msg)"
  shows "ApplyMessage E K D d (NewEVM h (ChainConfigOf net) gh) msg gp s \<noteq> Inl Panic"
proof (cases "preCheck K D d (NewEVM h (ChainConfigOf net) gh) msg gp s")
  case (Inl err)
  then show ?thesis
    using preCheck_no_panic [OF h(2) blob, of K D d "ChainConfigOf net" gh gp s] by (simp add: ApplyMessage_def execute_def)
next
  case (Inr x)
  obtain s1 gp1 where pre: "preCheck K D d (NewEVM h (ChainConfigOf net) gh) msg gp s = Inr (s1, gp1)"
    using Inr by (cases x) auto
  note acc = preCheck_accepts [OF pre h(1)]
  have "\<bar>m_GasPrice msg\<bar> < 2 ^ 256" using acc(1,2) h(3) unfolding price by (auto simp: min_def)
  then have must: "\<exists>p. u256_MustFromBig (m_GasPrice msg) = Some p"
    by (auto simp: u256_MustFromBig_def u256_FromBig_def)
  have settle: "settle_gas K (NewEVM h (ChainConfigOf net) gh) msg gp1 t left \<noteq> Inl Panic"
    if "g \<le> m_GasLimit msg" "left \<le> m_GasLimit msg - g" for g t left
    using AddGas_fits [OF acc(3) that] must h by (auto simp: settle_gas_def acc(4) rules_of_networks Let_def)
  have fin: "settle_gas K (NewEVM h (ChainConfigOf net) gh) msg gp1 t left \<noteq> Inl Panic"
    if "g \<le> m_GasLimit msg" "run_message E K D d (NewEVM h (ChainConfigOf net) gh) msg (m_GasLimit msg - g) v s1 = (t, r, left, e)"
    for g t left v r e
    using settle [OF that(1) run_message_gas [OF E that(2)]] .
  show ?thesis
    using IntrinsicGas_no_panic
    by (auto simp: ApplyMessage_def execute_def pre Let_def not_less
        split: sum.splits if_splits prod.splits dest: fin)
qed


text \<open>What a transaction must look like for its execution not to panic and its fee to stay in range.\<close>

definition tx_fee_ok :: "transaction \<Rightarrow> bool" where
  "tx_fee_ok tx \<longleftrightarrow> tx_BlobHashes tx = None \<and> 0 \<le> tx_GasTipCap tx \<and> 0 \<le> tx_GasPrice tx \<and> tx_GasPrice tx < 2 ^ 128"

lemma run_tx_no_panic:
  assumes "gas_ok E" "0 \<le> Number h" "BaseFee h = Some b" "0 \<le> b" "tx_fee_ok tx" "x_config e = ChainConfigOf net"
  shows "run_tx E C D d e h s tx \<noteq> Panicked"
proof -
  have "ApplyMessage E (Keccak C) D d (NewEVM h (ChainConfigOf net) gh) msg gp t \<noteq> Inl Panic"
    if "TransactionToMessage C cid tx (Some b) = Some msg" for cid msg gh gp t
    using that assms(5)
    by (intro ApplyMessage_no_panic [OF assms(1-4)])
      (auto simp: TransactionToMessage_def tx_fee_ok_def min_def split: option.splits)
  then show ?thesis
    using assms(3,6) by (auto simp: run_tx_def Let_def split: option.splits sum.splits)
qed

lemma fee_bounds:
  assumes "tx_fee_ok tx" "BaseFee h = Some b" "0 \<le> b"
  shows "0 \<le> int (unat (g :: uint64)) * fee_price h tx" "int (unat g) * fee_price h tx \<le> 2 ^ 192"
proof -
  have p: "0 \<le> fee_price h tx" "fee_price h tx \<le> 2 ^ 128"
    using assms by (auto simp: fee_price_def tx_fee_ok_def Let_def)
  then show "0 \<le> int (unat g) * fee_price h tx" by simp
  have "int (unat g) \<le> 2 ^ 64" using unsigned_less [of g, where ?'a = int] by simp
  then have "int (unat g) * fee_price h tx \<le> 2 ^ 64 * 2 ^ 128" using p by (intro mult_mono) auto
  then show "int (unat g) * fee_price h tx \<le> 2 ^ 192" by simp
qed

definition fees_ok :: "nat \<Rightarrow> exec_state \<Rightarrow> bool" where
  "fees_ok n st \<longleftrightarrow> 0 \<le> totalFees st \<and> totalFees st \<le> int n * 2 ^ 192"

lemma wave_steps_returns:
  assumes "gas_ok E" "0 \<le> Number h" "BaseFee h = Some b" "0 \<le> b" "x_config e = ChainConfigOf net"
    and "\<forall>tx \<in> set wave. tx_fee_ok tx"
    and "\<forall>ev \<in> set evs. case ev of Start i \<Rightarrow> i < length wave | Finish i \<Rightarrow> i < length wave"
    and "fees_ok n st"
  shows "\<exists>st' pend'. wave_steps E C D d e h idx wave evs (st, pend) = Some (st', pend') \<and> fees_ok (n + length evs) st'"
  using assms(7,8)
proof (induction evs arbitrary: st pend n)
  case Nil
  then show ?case by simp
next
  case (Cons ev evs)
  have np: "run_tx E C D d e h s (wave ! i) \<noteq> Panicked" if "i < length wave" for s i
    using assms(6) that by (intro run_tx_no_panic [OF assms(1-4) _ assms(5)]) simp
  have keep: "fees_ok (Suc n) st" "fees_ok (Suc n) (error_tx idx tx st)" for tx
    using Cons.prems(2) by (auto simp: fees_ok_def error_tx_def algebra_simps)
  have fin: "fees_ok (Suc n) (finish_tx E h idx (wave ! i) ov res msg st)" if "i < length wave" for i ov res msg
    using Cons.prems(2) fee_bounds [OF _ assms(3,4), of "wave ! i" "UsedGas res"] assms(6) that
    by (auto simp: fees_ok_def finish_tx_def Let_def algebra_simps)
  obtain st1 pend1 where st1: "wave_step E C D d e h idx wave ev (st, pend) = Some (st1, pend1)" "fees_ok (Suc n) st1"
    using Cons.prems(1) np keep fin
    by (cases ev) (fastforce simp: wave_step_def split: tx_outcome.splits option.splits)+
  then show ?case using Cons.IH [of "Suc n" st1 pend1] Cons.prems(1) by auto
qed

lemma interleaving_length: "interleaving n evs \<Longrightarrow> length evs = 2 * n"
proof -
  assume i: "interleaving n evs"
  have "card (Start ` {..<n} \<union> Finish ` {..<n}) = card (Start ` {..<n}) + card (Finish ` {..<n})"
    by (rule card_Un_disjoint) auto
  also have "\<dots> = 2 * n" by (simp add: card_image inj_on_def)
  finally show ?thesis using i distinct_card [of evs] by (simp add: interleaving_def)
qed

lemma run_waves_returns:
  assumes "gas_ok E" "0 \<le> Number h" "BaseFee h = Some b" "0 \<le> b" "x_config e = ChainConfigOf net"
    and "\<forall>wave \<in> set waves. \<forall>tx \<in> set wave. tx_fee_ok tx"
    and "\<forall>i < length waves. interleaving (length (waves ! i)) (I (k + i))"
    and "fees_ok n st"
  shows "\<exists>st'. run_waves E C D d e h idx I k waves st = Some st' \<and> fees_ok (n + 2 * sum_list (map length waves)) st'"
  using assms(6-8)
proof (induction waves arbitrary: k st n)
  case Nil
  then show ?case by simp
next
  case (Cons wave waves)
  have I: "interleaving (length wave) (I k)" "\<forall>i < length waves. interleaving (length (waves ! i)) (I (Suc k + i))"
    using Cons.prems(2) by (force, fastforce)
  obtain st1 pend1 where st1: "wave_steps E C D d e h idx wave (I k) (st, []) = Some (st1, pend1)"
    "fees_ok (n + length (I k)) st1"
    using wave_steps_returns [OF assms(1-5) _ _ Cons.prems(3),
        where wave = wave and evs = "I k" and C = C and D = D and d = d and idx = idx and pend = "[]"] Cons.prems(1) interleaving_bounds [OF I(1)]
    by auto
  obtain st' where st': "run_waves E C D d e h idx I (Suc k) waves st1 = Some st'"
    "fees_ok (n + length (I k) + 2 * sum_list (map length waves)) st'"
    using Cons.IH [OF _ I(2) st1(2)] Cons.prems(1) by auto
  have "fees_ok (n + 2 * sum_list (map length (wave # waves))) st"
    using Cons.prems(3) by (auto simp: fees_ok_def algebra_simps intro: order_trans)
  then show ?case
    using st1(1) st' interleaving_length [OF I(1)] by (auto simp: run_wave_def algebra_simps)
qed


subsection \<open>Blocks of transfers\<close>

text \<open>A transaction that \<open>run_tx\<close> takes as a plain transfer of message \<open>msg\<close>.\<close>

definition transfer_tx ::
    "evm \<Rightarrow> crypto \<Rightarrow> 'd leveldb \<Rightarrow> 'd \<Rightarrow> executor \<Rightarrow> header \<Rightarrow> statedb \<Rightarrow> transaction \<Rightarrow> message
      \<Rightarrow> address \<Rightarrow> address \<Rightarrow> int \<Rightarrow> bool" where
  "transfer_tx E C D d e h s tx msg sender to b \<longleftrightarrow> tx_Size tx \<le> 512 * 1024 \<and>
     TransactionToMessage C (c_ChainID (x_config e)) tx (BaseFee h) = Some msg \<and>
     x_config e = ChainConfigOf (x_netCfg e) \<and> m_GasLimit msg \<le> GasLimit h \<and>
     transfer_ready E (Keccak C) D d (x_netCfg e) h msg (NewOverlay s) sender to b"

definition transfer_room :: "(bytes \<Rightarrow> hash) \<Rightarrow> slot set \<Rightarrow> address \<Rightarrow> address \<Rightarrow> address \<Rightarrow> bool" where
  "transfer_room K S sender to cb \<longleftrightarrow> collision_free K S \<and> transfer_slots sender to cb \<subseteq> S \<and>
     CodeHashOf sender \<in> S \<and> CodeHashOf to \<in> S"

text \<open>The overlay such a transaction leaves.\<close>

definition transfer_overlay ::
    "(bytes \<Rightarrow> hash) \<Rightarrow> header \<Rightarrow> message \<Rightarrow> statedb \<Rightarrow> address \<Rightarrow> address \<Rightarrow> int \<Rightarrow> statedb" where
  "transfer_overlay K h msg s sender to b = transfer_result K h msg (NewOverlay s) sender to b"

lemma transfer_tx_run:
  assumes "transfer_tx E C D d e h s tx msg sender to b" "transfer_room (Keccak C) S sender to (Coinbase h)"
  shows "run_tx E C D d e h s tx =
    Applied (ProcessSystemContracts (Keccak C) (n_Params (x_netCfg e)) (transfer_overlay (Keccak C) h msg s sender to b) msg tx)
      \<lparr>UsedGas = (if isSystemTx (n_Params (x_netCfg e)) msg then 0 else 21000), MaxUsedGas = 21000, Err = None, ReturnData = []\<rparr> msg"
proof -
  have cfg: "x_config e = ChainConfigOf (x_netCfg e)" and tm: "TransactionToMessage C (c_ChainID (x_config e)) tx (BaseFee h) = Some msg"
    and sz: "\<not> tx_Size tx > 512 * 1024"
    using assms(1) unfolding transfer_tx_def not_less by blast+
  have "ApplyMessage E (Keccak C) D d (NewEVM h (x_config e) gh) msg (GasLimit h) (NewOverlay s)
    = Inr (transfer_overlay (Keccak C) h msg s sender to b,
        \<lparr>UsedGas = 21000, MaxUsedGas = 21000, Err = None, ReturnData = []\<rparr>)" for gh
    unfolding transfer_overlay_def cfg using assms
    by (intro apply_plain_transfer [where S = S]) (simp_all add: transfer_tx_def transfer_room_def)
  then show ?thesis
    using sz unfolding run_tx_def by (simp add: tm Let_def)
qed

lemma read_NewOverlay [simp]: "read_slot K (NewOverlay s) y = read_slot K s y"
  by (simp add: read_slot_def)

lemma GetBalance_NewOverlay [simp]: "GetBalance K (NewOverlay s) a = GetBalance K s a"
  by (simp add: getters_as_slots)

lemma NewOverlay_sel [simp]: "parent (NewOverlay s) = Some s" "has_db (statedb.fields (NewOverlay s)) = has_db (statedb.fields s)"
  "code (statedb.fields (NewOverlay s)) = []" "dirty (statedb.fields (NewOverlay s)) = []" "logs (statedb.fields (NewOverlay s)) = []"
  by (simp_all add: NewOverlay_def empty_fields_def)

text \<open>Merging an overlay of the state into the state itself.\<close>

lemma merge_reads:
  assumes "statedb_ok ov" "parent ov = Some s"
  shows "statedb_ok (merge_into s ov)" "read_slot K (merge_into s ov) y = read_slot K ov y"
  using Merge_reads [OF assms(1), of "merge_into s ov"] assms(2) by (simp_all add: Merge_def read_slot_def)

lemma merge_balance:
  "statedb_ok ov \<Longrightarrow> parent ov = Some s \<Longrightarrow> GetBalance K (merge_into s ov) a = GetBalance K ov a"
  by (simp add: getters_as_slots merge_reads)

lemma has_db_merge [simp]: "has_db (statedb.fields (merge_into s ov)) = has_db (statedb.fields s)"
proof -
  have "has_db (statedb.fields (fold (\<lambda>(k, v) q. setVerkleValue q k v) kvs q)) = has_db (statedb.fields q)" for kvs q
    by (induction kvs arbitrary: q) (simp_all add: split_beta)
  then show ?thesis by (simp add: merge_into_def Let_def)
qed

lemma merge_parent [simp]: "parent (merge_into s ov) = parent s"
proof -
  have "parent (fold (\<lambda>(k, v) q. setVerkleValue q k v) kvs q) = parent q" for kvs q
    by (induction kvs arbitrary: q) (simp_all add: split_beta)
  then show ?thesis by (simp add: merge_into_def Let_def)
qed

lemma transfer_overlay_view:
  assumes "transfer_tx E C D d e h s tx msg sender to b" "transfer_room (Keccak C) S sender to (Coinbase h)"
  defines "ov \<equiv> transfer_overlay (Keccak C) h msg s sender to b"
  shows "frame (Keccak C) S (transfer_slots sender to (Coinbase h)) (NewOverlay s) ov"
    and "statedb_ok ov" "parent ov = Some s"
    and "GetBalance (Keccak C) ov sender = GetBalance (Keccak C) s sender - of_int (m_Value msg) - 21000 * of_int (m_GasPrice msg)"
    and "GetBalance (Keccak C) ov to = GetBalance (Keccak C) s to + of_int (m_Value msg)"
    and "GetBalance (Keccak C) ov (Coinbase h) = GetBalance (Keccak C) s (Coinbase h) + of_int (21000 * (m_GasPrice msg - b))"
    and "GetNonce (Keccak C) ov sender = m_Nonce msg + 1"
proof -
  have r: "transfer_ready E (Keccak C) D d (x_netCfg e) h msg (NewOverlay s) sender to b"
    "collision_free (Keccak C) S" "transfer_slots sender to (Coinbase h) \<subseteq> S"
    using assms(1,2) by (simp_all add: transfer_tx_def transfer_room_def)
  note v = transfer_result_view [OF r, folded transfer_overlay_def, folded ov_def]
  show f: "frame (Keccak C) S (transfer_slots sender to (Coinbase h)) (NewOverlay s) ov" by (rule v(1))
  show "statedb_ok ov" "parent ov = Some s" using f by (simp_all add: frame_def)
  show "GetBalance (Keccak C) ov sender = GetBalance (Keccak C) s sender - of_int (m_Value msg) - 21000 * of_int (m_GasPrice msg)"
    "GetBalance (Keccak C) ov to = GetBalance (Keccak C) s to + of_int (m_Value msg)"
    "GetBalance (Keccak C) ov (Coinbase h) = GetBalance (Keccak C) s (Coinbase h) + of_int (21000 * (m_GasPrice msg - b))"
    "GetNonce (Keccak C) ov sender = m_Nonce msg + 1"
    using v(2-5) by simp_all
qed

lemma interleaving_1: "interleaving 1 evs \<Longrightarrow> evs = [Start 0, Finish 0]"
proof -
  assume i: "interleaving 1 evs"
  then have "length evs = 2" using interleaving_length by fastforce
  then obtain x y where "evs = [x, y]" by (auto simp: numeral_2_eq_2 length_Suc_conv)
  moreover from i this have "{x, y} = {Finish 0, Start 0}" "Finish 0 \<notin> set (takeWhile (\<lambda>ev. ev \<noteq> Start 0) [x, y])"
    by (simp_all add: interleaving_def lessThan_Suc)
  ultimately show ?thesis by (auto simp: doubleton_eq_iff)
qed

lemma schedule_single: "schedule C cid [tx] = [[tx]]"
  by (simp add: schedule_def schedule_loop.simps wave_pass_Cons)

lemma ProcessSystemContracts_other:
  "\<not> isSystemTx P msg \<Longrightarrow> ProcessSystemContracts K P s msg tx = s"
  by (auto simp: ProcessSystemContracts_def isSystemTx_def Let_def)


lemma run_single:
  assumes "run_tx E C D d e h s tx = Applied ov res msg" "interleavings C e [tx] I"
  shows "run_waves E C D d e h (txIndex [tx]) I 0 (schedule C (c_ChainID (x_config e)) [tx]) (block_start s [tx])
    = Some (finish_tx E h (txIndex [tx]) tx ov res msg (block_start s [tx]))"
proof -
  have "I 0 = [Start 0, Finish 0]"
    using assms(2) interleaving_1 by (simp add: interleavings_def schedule_single Let_def)
  then show ?thesis
    using assms(1) by (simp add: schedule_single block_start_def run_wave_def wave_step_def)
qed

text \<open>The receipt of a block with one transaction.\<close>

lemma single_receipt:
  assumes "m_To msg \<noteq> None"
  shows "compact_receipts 0 [tx] (receipts (finish_tx E h (txIndex [tx]) tx ov res msg (block_start s [tx])))
    = [nil_receipt\<lparr>Status := status (Failed res), CumulativeGasUsed := UsedGas res, Logs := StateDB.GetLogs ov (tx_Hash tx),
        r_TxHash := tx_Hash tx, r_GasUsed := UsedGas res\<rparr>]"
  using assms by (auto simp: finish_tx_def block_start_def index_of_def txIndex_def Let_def nil_receipt_def)

lemma fee_price_message:
  assumes "TransactionToMessage C cid tx (BaseFee h) = Some msg" "tx_GasPrice tx = tx_GasFeeCap tx" "BaseFee h = Some b"
  shows "fee_price h tx = m_GasPrice msg"
  using assms by (auto simp: TransactionToMessage_def fee_price_def Let_def split: option.splits)

lemma ApplyBlock_single:
  assumes "run_tx E C D d e h s tx = Applied ov res msg" "interleavings C e [tx] I" "m_To msg \<noteq> None"
    and "u256_MustFromBig (10000000000000000000 + int (unat (UsedGas res)) * fee_price h tx) = Some amount"
  shows "ApplyBlock E C D d R e I s h [tx]
    = Some ([nil_receipt\<lparr>Status := status (Failed res), CumulativeGasUsed := UsedGas res,
          Logs := StateDB.GetLogs ov (tx_Hash tx), r_TxHash := tx_Hash tx, r_GasUsed := UsedGas res\<rparr>],
        IntermediateRoot R (AddBalanceReward (Keccak C) (merge_into s ov) (Coinbase h) amount),
        AddBalanceReward (Keccak C) (merge_into s ov) (Coinbase h) amount)"
proof -
  let ?st = "finish_tx E h (txIndex [tx]) tx ov res msg (block_start s [tx])"
  have "u256_MustFromBig (10000000000000000000 + totalFees ?st) = Some amount" "x_state ?st = merge_into s ov"
    using assms(4) by (simp_all add: finish_tx_def block_start_def Let_def)
  then show ?thesis
    by (simp add: ApplyBlock_def run_single [OF assms(1,2)] single_receipt [OF assms(3)] Let_def)
qed

text \<open>C14. The economics of a block with one plain transfer: the transfer is applied and its receipt
  says so, and the coinbase receives, besides the reward of 10 coins, the tip twice: once
  inside the execution and once more, with the base fee that was to be burnt, as accumulated fee.
  The balances of the three accounts together grow by the reward and the tip.\<close>

theorem single_transfer_block:
  assumes tx: "transfer_tx E C D d e h s tx msg sender to b" "transfer_room (Keccak C) S sender to (Coinbase h)"
    and plain: "\<not> isSystemTx (n_Params (x_netCfg e)) msg" "tx_GasPrice tx = tx_GasFeeCap tx" "tx_GasFeeCap tx < 2 ^ 128"
    and I: "interleavings C e [tx] I"
  shows "\<exists>r root s'. ApplyBlock E C D d R e I s h [tx] = Some ([r], root, s') \<and>
      Status r = 1 \<and> r_GasUsed r = 21000 \<and> r_TxHash r = tx_Hash tx \<and>
      GetBalance (Keccak C) s' sender
        = GetBalance (Keccak C) s sender - of_int (m_Value msg) - 21000 * of_int (m_GasPrice msg) \<and>
      GetBalance (Keccak C) s' to = GetBalance (Keccak C) s to + of_int (m_Value msg) \<and>
      GetBalance (Keccak C) s' (Coinbase h) = GetBalance (Keccak C) s (Coinbase h)
        + of_int (21000 * (m_GasPrice msg - b)) + of_int (10 ^ 19 + 21000 * m_GasPrice msg) \<and>
      GetBalance (Keccak C) s' sender + GetBalance (Keccak C) s' to + GetBalance (Keccak C) s' (Coinbase h)
        = GetBalance (Keccak C) s sender + GetBalance (Keccak C) s to + GetBalance (Keccak C) s (Coinbase h)
          + of_int (10 ^ 19 + 21000 * (m_GasPrice msg - b))"
proof -
  let ?K = "Keccak C"
  define ov where "ov = transfer_overlay ?K h msg s sender to b"
  let ?res = "\<lparr>UsedGas = 21000, MaxUsedGas = 21000, Err = None, ReturnData = []\<rparr>"
  note v = transfer_overlay_view [OF tx, folded ov_def]
  have run: "run_tx E C D d e h s tx = Applied ov ?res msg"
    using transfer_tx_run [OF tx] plain(1) by (simp add: ProcessSystemContracts_other ov_def)
  have to: "m_To msg \<noteq> None" and ne: "distinct [sender, to, Coinbase h]" and b: "BaseFee h = Some b" "0 \<le> b"
    and price: "0 \<le> m_GasPrice msg" "m_GasPrice msg \<le> m_GasFeeCap msg"
    using tx(1) by (auto simp: transfer_tx_def transfer_ready_def plain_message_def)
  have fp: "fee_price h tx = m_GasPrice msg" "m_GasFeeCap msg = tx_GasFeeCap tx"
    using tx(1) b plain(2) by (auto simp: transfer_tx_def TransactionToMessage_def fee_price_def Let_def split: option.splits)
  define total where "total = 10000000000000000000 + 21000 * m_GasPrice msg"
  have must: "u256_MustFromBig total = Some (of_int total)"
    using price fp plain(3) by (intro u256_MustFromBig_Some) (auto simp: total_def)
  let ?s' = "AddBalanceReward ?K (merge_into s ov) (Coinbase h) (of_int total)"
  have amount: "u256_MustFromBig (10000000000000000000 + int (unat (UsedGas ?res)) * fee_price h tx) = Some (of_int total)"
    using must by (simp add: fp total_def)
  have S: "collision_free ?K S" "BalanceOf (Coinbase h) \<in> S" "BalanceOf sender \<in> S" "BalanceOf to \<in> S"
    using tx(2) by (auto simp: transfer_room_def transfer_slots_def)
  note f = AddBalance_frame [OF merge_reads(1) [OF v(2,3)] S(1,2), of "of_int total", folded AddBalanceReward_def]
  note mb = merge_balance [OF v(2,3), of ?K]
  have bal: "GetBalance ?K ?s' sender = GetBalance ?K s sender - of_int (m_Value msg) - 21000 * of_int (m_GasPrice msg)"
    "GetBalance ?K ?s' to = GetBalance ?K s to + of_int (m_Value msg)"
    "GetBalance ?K ?s' (Coinbase h) = GetBalance ?K s (Coinbase h) + of_int (21000 * (m_GasPrice msg - b)) + of_int total"
    using frame_reads(1) [OF f(1)] f(2) S ne v(4-6) by (simp_all add: mb)
  show ?thesis
    unfolding ApplyBlock_single [OF run I to amount]
    using bal by (auto simp: nil_receipt_def status_def Failed_def total_def algebra_simps)
qed


subsection \<open>Two transfers of one wave\<close>

lemma no_code_NewOverlay:
  "no_code K D d (NewOverlay s) a \<longleftrightarrow>
     GetCodeHash K s a = K [] \<or> \<not> has_db (statedb.fields s) \<or> db_Get D d (key_bytes (CodeKey (GetCodeHash K s a))) = None"
proof -
  have "GetCodeHash K (NewOverlay s) a = GetCodeHash K s a" by (simp add: getters_as_slots)
  moreover have "cache_code (NewOverlay s) h c \<noteq> NewOverlay s" for h c by (simp add: cache_code_same)
  ultimately show ?thesis
    by (auto simp: no_code_def GetCode_def Let_def split: option.splits)
qed

lemma transfer_tx_transport:
  assumes "transfer_tx E C D d e h s tx msg sender to b" "statedb_ok s'" "has_db (statedb.fields s') = has_db (statedb.fields s)"
    and "\<And>y. y \<in> {BalanceOf sender, NonceOf sender, CodeHashOf sender, CodeHashOf to} \<Longrightarrow>
      read_slot (Keccak C) s' y = read_slot (Keccak C) s y"
  shows "transfer_tx E C D d e h s' tx msg sender to b"
proof -
  have "GetCodeHash (Keccak C) s' sender = GetCodeHash (Keccak C) s sender" "GetCodeHash (Keccak C) s' to = GetCodeHash (Keccak C) s to"
    "GetBalance (Keccak C) s' sender = GetBalance (Keccak C) s sender"
    "GetNonce (Keccak C) (NewOverlay s') sender = GetNonce (Keccak C) (NewOverlay s) sender"
    using assms(4) by (simp_all add: getters_as_slots)
  moreover have "m_From msg = sender" using assms(1) by (simp add: transfer_tx_def transfer_ready_def plain_message_def)
  moreover have "transfer_ready E (Keccak C) D d (x_netCfg e) h msg (NewOverlay s) sender to b"
    using assms(1) by (simp add: transfer_tx_def)
  ultimately have "transfer_ready E (Keccak C) D d (x_netCfg e) h msg (NewOverlay s') sender to b"
    using assms(2,3) unfolding transfer_ready_def can_pay_def no_code_NewOverlay by simp
  then show ?thesis using assms(1) unfolding transfer_tx_def by blast
qed

text \<open>The coinbase is among the values an overlay of a transfer has written.\<close>

lemma transfer_overlay_dirty:
  "map_of (dirty (statedb.fields (transfer_overlay K h msg s sender to b))) (balanceKey K (Coinbase h)) \<noteq> None"
  by (simp add: transfer_overlay_def transfer_result_def Let_def AddBalance_def addBalance_h_def SetBalance_def)

lemma merge_overrides:
  assumes "statedb_ok par" "statedb_ok ov" "map_of (dirty (statedb.fields ov)) (balanceKey K a) \<noteq> None"
  shows "GetBalance K (merge_into par ov) a = GetBalance K ov a"
proof -
  obtain v where v: "map_of (dirty (statedb.fields ov)) (balanceKey K a) = Some v" using assms(3) by blast
  have "getVerkleValue (merge_into par ov) (balanceKey K a) = v"
    using sdb.put_all [OF assms(1), of "dirty (statedb.fields ov)"] assms(2) v
    by (cases ov) (simp add: merge_into_dirty_only)
  moreover have "getVerkleValue ov (balanceKey K a) = v" using v by (rule getVerkleValue_dirty)
  ultimately show ?thesis by (simp add: GetBalance_def)
qed

text \<open>C15. The outcome of a wave depends on the interleaving of its goroutines: with two
  transfers of unrelated accounts, which the scheduler puts into one wave, the coinbase is paid
  both tips if the first finishes before the second starts, and only the second tip if both
  start before either finishes.\<close>

theorem wave_order_matters:
  assumes A: "transfer_tx E C D d e h (x_state st) txA msgA sA tA b" "transfer_room (Keccak C) S sA tA (Coinbase h)"
    and B: "transfer_tx E C D d e h (x_state st) txB msgB sB tB b" "transfer_room (Keccak C) S sB tB (Coinbase h)"
    and plain: "\<not> isSystemTx (n_Params (x_netCfg e)) msgA" "\<not> isSystemTx (n_Params (x_netCfg e)) msgB"
    and ne: "distinct [sA, tA, sB, tB]" and ok: "statedb_ok (x_state st)"
  shows "\<exists>st1 st2. run_wave E C D d e h idx [txA, txB] [Start 0, Finish 0, Start 1, Finish 1] st = Some st1 \<and>
      run_wave E C D d e h idx [txA, txB] [Start 0, Start 1, Finish 0, Finish 1] st = Some st2 \<and>
      GetBalance (Keccak C) (x_state st1) (Coinbase h) = GetBalance (Keccak C) (x_state st) (Coinbase h)
        + of_int (21000 * (m_GasPrice msgA - b)) + of_int (21000 * (m_GasPrice msgB - b)) \<and>
      GetBalance (Keccak C) (x_state st2) (Coinbase h) = GetBalance (Keccak C) (x_state st) (Coinbase h)
        + of_int (21000 * (m_GasPrice msgB - b))"
proof -
  let ?K = "Keccak C" and ?s = "x_state st" and ?cb = "Coinbase h"
  let ?res = "\<lparr>UsedGas = 21000, MaxUsedGas = 21000, Err = None, ReturnData = []\<rparr>"
  let ?oA = "transfer_overlay ?K h msgA ?s sA tA b" and ?oB = "transfer_overlay ?K h msgB ?s sB tB b"
  let ?s1 = "merge_into ?s ?oA" and ?oB' = "transfer_overlay ?K h msgB (merge_into ?s ?oA) sB tB b"
  note vA = transfer_overlay_view [OF A] and vB = transfer_overlay_view [OF B]
  have rA: "run_tx E C D d e h ?s txA = Applied ?oA ?res msgA" and rB: "run_tx E C D d e h ?s txB = Applied ?oB ?res msgB"
    using transfer_tx_run [OF A] transfer_tx_run [OF B] plain by (simp_all add: ProcessSystemContracts_other)
  have "transfer_tx E C D d e h ?s1 txB msgB sB tB b"
  proof (rule transfer_tx_transport [OF B(1) merge_reads(1) [OF vA(2,3)] has_db_merge])
    fix y assume y: "y \<in> {BalanceOf sB, NonceOf sB, CodeHashOf sB, CodeHashOf tB}"
    have "y \<in> S" using y B(2) by (auto simp: transfer_room_def transfer_slots_def)
    moreover have "y \<notin> transfer_slots sA tA ?cb"
      using y ne B(1) by (auto simp: transfer_slots_def transfer_tx_def transfer_ready_def)
    ultimately show "read_slot ?K ?s1 y = read_slot ?K ?s y"
      using vA(1) by (simp add: merge_reads(2) [OF vA(2,3)] frame_def)
  qed
  note B' = this B(2)
  note vB' = transfer_overlay_view [OF B']
  have rB': "run_tx E C D d e h ?s1 txB = Applied ?oB' ?res msgB"
    using transfer_tx_run [OF B'] plain by (simp add: ProcessSystemContracts_other)
  let ?f = "\<lambda>tx ov msg st. finish_tx E h idx tx ov ?res msg st"
  have x: "x_state (?f tx ov msg st) = merge_into (x_state st) ov" for tx ov msg st
    by (simp add: finish_tx_def Let_def)
  have w1: "run_wave E C D d e h idx [txA, txB] [Start 0, Finish 0, Start 1, Finish 1] st
      = Some (?f txB ?oB' msgB (?f txA ?oA msgA st))"
    using rA rB' by (simp add: run_wave_def wave_step_def x)
  have w2: "run_wave E C D d e h idx [txA, txB] [Start 0, Start 1, Finish 0, Finish 1] st
      = Some (?f txB ?oB msgB (?f txA ?oA msgA st))"
    using rA rB by (simp add: run_wave_def wave_step_def x)
  have "GetBalance ?K (merge_into ?s1 ?oB') ?cb = GetBalance ?K ?s ?cb
      + of_int (21000 * (m_GasPrice msgA - b)) + of_int (21000 * (m_GasPrice msgB - b))"
    using merge_balance [OF vB'(2,3), of ?K ?cb] vB'(6) merge_balance [OF vA(2,3), of ?K ?cb] vA(6) by simp
  moreover have "GetBalance ?K (merge_into ?s1 ?oB) ?cb = GetBalance ?K ?s ?cb + of_int (21000 * (m_GasPrice msgB - b))"
    using merge_overrides [OF merge_reads(1) [OF vA(2,3)] vB(2) transfer_overlay_dirty] vB(6) by simp
  ultimately show ?thesis unfolding w1 w2 by (simp only: x option.inject ex_simps simp_thms)
qed


subsection \<open>A block with a deposit\<close>

lemma registered_cong:
  assumes r: "registered K P N A s vs" and ok: "statedb_ok s'"
    and same: "\<And>c k. StorageOf c k \<in> sys_slots P N A \<Longrightarrow> read_slot K s' (StorageOf c k) = read_slot K s (StorageOf c k)"
  shows "registered K P N A s' vs" and "a \<in> A \<Longrightarrow> stakeOf K P s' a = stakeOf K P s a"
proof -
  have inv: "sys_inv K P N A s'" using r ok by (simp add: registered_def sys_inv_def)
  have get: "GetState K s' c k = GetState K s c k" if "StorageOf c k \<in> sys_slots P N A" for c k
    using same [OF that] by (simp add: getters_as_slots)
  have st: "stakeOf K P s' a = stakeOf K P s a" if "a \<in> A" for a
    using get [OF sys_slots_mem(2) [OF that]] by (simp add: stakeOf_def)
  then show "a \<in> A \<Longrightarrow> stakeOf K P s' a = stakeOf K P s a" .
  have "reg.holds K P N A s' vs"
    using r by (intro reg.holds_cong [OF _ inv]) (simp_all add: registered_holds get)
  then show "registered K P N A s' vs" using r st by (simp add: registered_holds)
qed

lemma registered_frame:
  assumes "registered K P N A s vs" "frame K S X s s'" "sys_slots P N A \<subseteq> S" "\<And>c k. StorageOf c k \<notin> X"
  shows "registered K P N A s' vs" and "a \<in> A \<Longrightarrow> stakeOf K P s' a = stakeOf K P s a"
proof -
  have same: "read_slot K s' (StorageOf c k) = read_slot K s (StorageOf c k)" if "StorageOf c k \<in> sys_slots P N A" for c k
    using that assms(2-4) by (auto simp: frame_def)
  show "registered K P N A s' vs" "a \<in> A \<Longrightarrow> stakeOf K P s' a = stakeOf K P s a"
    using registered_cong [OF assms(1) frame_ok [OF assms(2)] same] by simp_all
qed

lemma stake_deposit_sel [simp]:
  "parent (stake_deposit K P s a v) = parent s" "logs (statedb.fields (stake_deposit K P s a v)) = logs (statedb.fields s)"
  by (simp_all add: stake_deposit_def SetState_def Let_def)

text \<open>Staking end to end: a block whose only transaction sends coins to the staking contract
  enters the sender in the validator registry with that stake, the coins arrive at the
  contract, and the receipt reports success with no gas used.  The sender has paid for the gas
  all the same, and the coinbase has received the tip besides its reward.\<close>

theorem staking_block:
  fixes C :: crypto and h :: header
  assumes P: "P = n_Params (x_netCfg e)" "StakingAddr P \<noteq> RewardAddr P"
    and tx: "transfer_tx E C D d e h s tx msg sender (StakingAddr P) b"
      "transfer_room (Keccak C) S sender (StakingAddr P) (Coinbase h)" "sys_slots P N A \<subseteq> S"
    and reg: "registered (Keccak C) P N A s vs" "sender \<in> A" "Coinbase h \<in> A" "sender \<in> set vs \<or> length vs < N"
    and val: "0 < m_Value msg" "m_Value msg < 2 ^ 256" and I: "interleavings C e [tx] I"
  shows "\<exists>r root s'. ApplyBlock E C D d R e I s h [tx] = Some ([r], root, s') \<and>
      Status r = 1 \<and> r_GasUsed r = 0 \<and>
      registered (Keccak C) P N A s' (if sender \<in> set vs then vs else vs @ [sender]) \<and>
      stakeOf (Keccak C) P s' sender = m_Value msg \<and>
      GetBalance (Keccak C) s' (StakingAddr P) = GetBalance (Keccak C) s (StakingAddr P) + of_int (m_Value msg) \<and>
      GetBalance (Keccak C) s' sender
        = GetBalance (Keccak C) s sender - of_int (m_Value msg) - 21000 * of_int (m_GasPrice msg) \<and>
      GetBalance (Keccak C) s' (Coinbase h)
        = GetBalance (Keccak C) s (Coinbase h) + of_int (21000 * (m_GasPrice msg - b)) + 10 ^ 19"
proof -
  let ?K = "Keccak C" and ?vs = "if sender \<in> set vs then vs else vs @ [sender]"
  define ov where "ov = transfer_overlay ?K h msg s sender (StakingAddr P) b"
  define ov2 where "ov2 = stake_deposit ?K P ov sender (m_Value msg)"
  let ?res = "\<lparr>UsedGas = 0, MaxUsedGas = 21000, Err = None, ReturnData = []\<rparr>"
  note v = transfer_overlay_view [OF tx(1,2), folded ov_def]
  have m: "m_To msg = Some (StakingAddr P)" "m_From msg = sender" "tx_Data tx = []" and ne: "distinct [sender, StakingAddr P, Coinbase h]"
    using tx(1) by (auto simp: transfer_tx_def transfer_ready_def plain_message_def TransactionToMessage_def split: option.splits)
  have "registered ?K P N A (NewOverlay s) vs"
    using reg(1) by (intro registered_cong [OF reg(1)]) (simp_all add: registered_def sys_inv_def)
  then have r1: "registered ?K P N A ov vs"
    using registered_frame(1) [OF _ v(1) tx(3)] by (simp add: transfer_slots_def)
  note dep = stake_deposit_registered [OF r1 reg(2) val, folded ov2_def]
  have dep': "registered ?K P N A ov2 ?vs" "stakeOf ?K P ov2 sender = m_Value msg"
    "\<And>c. BalanceOf c \<in> sys_slots P N A \<Longrightarrow> GetBalance ?K ov2 c = GetBalance ?K ov c"
    using dep reg(2,4) by auto
  have ok2: "statedb_ok ov2" "parent ov2 = Some s"
    using dep'(1) v(3) by (simp_all add: registered_def sys_inv_def ov2_def)
  have sys: "isSystemTx P msg" using m(1) by (simp add: isSystemTx_def)
  have "ProcessSystemContracts ?K P ov msg tx = ov2"
    using m P(2) val by (simp add: ProcessSystemContracts_def staking_contract_def ov2_def string_of_bytes_def)
  then have run: "run_tx E C D d e h s tx = Applied ov2 ?res msg"
    using transfer_tx_run [OF tx(1,2)] sys by (simp add: ov_def P(1))
  have amount: "u256_MustFromBig (10000000000000000000 + int (unat (UsedGas ?res)) * fee_price h tx) = Some (10 ^ 19)"
    by (simp add: u256_MustFromBig_def u256_FromBig_def)
  let ?s' = "AddBalanceReward ?K (merge_into s ov2) (Coinbase h) (10 ^ 19)"
  have S: "collision_free ?K S" "BalanceOf (Coinbase h) \<in> S" "BalanceOf sender \<in> S" "BalanceOf (StakingAddr P) \<in> S"
    using tx(2) by (auto simp: transfer_room_def transfer_slots_def)
  have r3: "registered ?K P N A (merge_into s ov2) ?vs" "stakeOf ?K P (merge_into s ov2) sender = m_Value msg"
    using registered_cong [OF dep'(1) merge_reads(1) [OF ok2]] merge_reads(2) [OF ok2] dep'(2) reg(2) by simp_all
  note f = AddBalance_frame [OF merge_reads(1) [OF ok2] S(1,2), of "10 ^ 19", folded AddBalanceReward_def]
  have r4: "registered ?K P N A ?s' ?vs" "stakeOf ?K P ?s' sender = m_Value msg"
    using registered_frame [OF r3(1) f(1) tx(3)] r3(2) reg(2) by auto
  have bal: "GetBalance ?K ?s' sender = GetBalance ?K s sender - of_int (m_Value msg) - 21000 * of_int (m_GasPrice msg)"
    "GetBalance ?K ?s' (StakingAddr P) = GetBalance ?K s (StakingAddr P) + of_int (m_Value msg)"
    "GetBalance ?K ?s' (Coinbase h) = GetBalance ?K s (Coinbase h) + of_int (21000 * (m_GasPrice msg - b)) + 10 ^ 19"
    using frame_reads(1) [OF f(1)] f(2) S ne v(4-6) reg(2,3) by (simp_all add: merge_balance [OF ok2] dep'(3))
  show ?thesis
    unfolding ApplyBlock_single [OF run I option.discI [OF m(1)] amount] using bal r4
    by (auto simp: nil_receipt_def status_def Failed_def)
qed


subsection \<open>Witnesses\<close>

definition demo_net :: NetworkConfig where
  "demo_net = GetNetworkConfig ''devnet''"

definition demo_exec :: executor where
  "demo_exec = \<lparr>x_config = ChainConfigOf demo_net, x_netCfg = demo_net, x_bc = None\<rparr>"

text \<open>A dynamic-fee transfer of 5 coins.\<close>

definition demo_pay :: "int \<Rightarrow> address \<Rightarrow> transaction" where
  "demo_pay sender to = (demo_tx 0 sender to)\<lparr>tx_Type := 2, tx_GasPrice := 15, tx_GasFeeCap := 15, tx_GasTipCap := 2,
     tx_Gas := 30000, tx_Value := 5\<rparr>"

definition demo_pay_msg :: "address \<Rightarrow> address \<Rightarrow> message" where
  "demo_pay_msg sender to = demo_transfer\<lparr>m_From := sender, m_To := Some to\<rparr>"

lemma toy_Keccak [simp]: "Keccak toy_crypto = toy_hash"
  by (simp add: toy_crypto_def)

lemma demo_room: "transfer_room toy_hash toy_slots a b c"
  by (simp add: transfer_room_def toy_slots_free transfer_slots_def)

text \<open>A state in which only balances were ever set.\<close>

inductive paid :: "(address \<Rightarrow> uint256) \<Rightarrow> statedb \<Rightarrow> bool" where
  none: "paid (\<lambda>_. 0) (NewState mem_db 0 None)"
| pay: "paid f s \<Longrightarrow> paid (f(a := v)) (SetBalance toy_hash s a v)"

lemma paid_view:
  assumes "paid f s"
  shows "statedb_ok s \<and> GetBalance toy_hash s a = f a \<and> read_slot toy_hash s (NonceOf a) = [] \<and>
    read_slot toy_hash s (CodeHashOf a) = [] \<and> (StorageOf c k \<in> toy_slots \<longrightarrow> read_slot toy_hash s (StorageOf c k) = [])"
  using assms
proof (induction arbitrary: a)
  case none
  then show ?case
    by (simp add: NewState_None_ok read_slot_def fresh_reads getters_as_slots u256_SetBytes_def)
next
  case (pay f s a' v)
  note w = SetBalance_slots [OF conjunct1 [OF pay.IH], where K = toy_hash and a = a' and v = v]
  show ?case
    using w(1,2) w(3) [OF toy_slots_free] pay.IH by (auto simp: getters_as_slots)
qed

lemma demo_pay_ready_at:
  assumes "paid f s" "1000000 \<le> f (of_int i)" "distinct [of_int i, to, cb]" "i \<noteq> 0"
  shows "transfer_tx demo_evm toy_crypto mem_db [] demo_exec ((demo_header [])\<lparr>Coinbase := cb\<rparr>) s (demo_pay i to) (demo_pay_msg (of_int i) to) (of_int i) to 10"
proof -
  note v = paid_view [OF assms(1)]
  have zero: "toy_hash [] = 0" by (simp add: toy_hash_def)
  have "no_code toy_hash mem_db [] (NewOverlay s) a" for a
    using v [of a] zero by (simp add: no_code_NewOverlay getters_as_slots BytesToHash_nat)
  moreover have "GetNonce toy_hash (NewOverlay s) a = 0" for a
    using v [of a] by (simp add: getters_as_slots)
  moreover have "450005 \<le> uint (f (of_int i))"
    using assms(2) by (simp add: word_le_def)
  ultimately show ?thesis
    using v [of "of_int i"] assms(3,4)
    by (simp add: transfer_tx_def transfer_ready_def plain_message_def can_pay_def demo_pay_def demo_pay_msg_def demo_tx_def
        demo_transfer_def demo_header_def demo_exec_def demo_evm_def TransactionToMessage_def Sender_def toy_crypto_def)
qed


lemmas demo_pay_ready = demo_pay_ready_at [where cb = 2, simplified demo_header_def header.simps, folded demo_header_def]

lemma demo_rich_paid: "paid ((\<lambda>_. 0)(7 := 1000000)) demo_rich"
  unfolding demo_rich_def by (intro paid.intros)

lemma demo_not_system: "to \<notin> {0x1000, 0x2000, 0x3000} \<Longrightarrow> \<not> isSystemTx (n_Params (x_netCfg demo_exec)) (demo_pay_msg a to)"
  by (simp add: isSystemTx_def demo_exec_def demo_net_def demo_pay_msg_def system_addresses)

lemma single_order: "interleaving 1 [Start 0, Finish 0]"
  by (auto simp: interleaving_def)

lemma demo_order: "interleavings toy_crypto demo_exec [tx] (\<lambda>_. [Start 0, Finish 0])"
  using single_order by (simp add: interleavings_def schedule_single Let_def)

theorem single_transfer_block_witness:
  "\<exists>r root s'. ApplyBlock demo_evm toy_crypto mem_db [] (\<lambda>_. 0) demo_exec (\<lambda>_. [Start 0, Finish 0]) demo_rich (demo_header [])
      [demo_pay 7 9] = Some ([r], root, s') \<and>
    Status r = 1 \<and> GetBalance toy_hash s' 9 = 5 \<and>
    GetBalance toy_hash s' 2 = of_int (21000 * 2) + of_int (10 ^ 19 + 21000 * 12)"
  using single_transfer_block [OF demo_pay_ready [OF demo_rich_paid, of 7 9] _ demo_not_system [of 9], of toy_slots
      "\<lambda>_. [Start 0, Finish 0]" "\<lambda>_. 0"] demo_room demo_order paid_view [OF demo_rich_paid]
  by (auto simp: demo_pay_def demo_tx_def demo_pay_msg_def demo_transfer_def demo_header_def)

theorem receipts_aligned_witness:
  "\<exists>rs root s'. ApplyBlock demo_evm toy_crypto mem_db [] (\<lambda>_. 0) demo_exec (\<lambda>_. [Start 0, Finish 0]) demo_rich (demo_header [])
      [demo_pay 7 9] = Some (rs, root, s') \<and> map r_TxHash rs = [7000]"
proof -
  obtain amount where "u256_MustFromBig (10000000000000000000 + int (unat (21000 :: uint64)) * fee_price (demo_header []) (demo_pay 7 9)) = Some amount"
    by (simp add: fee_price_def demo_header_def demo_pay_def demo_tx_def u256_MustFromBig_def u256_FromBig_def)
  then obtain rs root s' where b: "ApplyBlock demo_evm toy_crypto mem_db [] (\<lambda>_. 0) demo_exec (\<lambda>_. [Start 0, Finish 0])
      demo_rich (demo_header []) [demo_pay 7 9] = Some (rs, root, s')"
    using ApplyBlock_single [OF transfer_tx_run [OF demo_pay_ready [OF demo_rich_paid, of 7 9], of toy_slots] demo_order]
      demo_room demo_not_system [of 9 7] by (simp add: demo_pay_msg_def demo_transfer_def)
  show ?thesis using receipts_aligned [OF b demo_order] b by (simp add: demo_pay_def demo_tx_def)
qed


definition demo_two :: statedb where
  "demo_two = SetBalance toy_hash demo_rich 8 1000000"

lemma demo_two_paid: "paid ((\<lambda>_. 0)(7 := 1000000, 8 := 1000000)) demo_two"
  unfolding demo_two_def demo_rich_def by (intro paid.intros)

theorem wave_order_matters_witness:
  "\<exists>st1 st2. run_wave demo_evm toy_crypto mem_db [] demo_exec (demo_header []) [] [demo_pay 7 9, demo_pay 8 10]
        [Start 0, Finish 0, Start 1, Finish 1] (block_start demo_two []) = Some st1 \<and>
      run_wave demo_evm toy_crypto mem_db [] demo_exec (demo_header []) [] [demo_pay 7 9, demo_pay 8 10]
        [Start 0, Start 1, Finish 0, Finish 1] (block_start demo_two []) = Some st2 \<and>
      GetBalance toy_hash (x_state st1) 2 = 84000 \<and> GetBalance toy_hash (x_state st2) 2 = 42000"
proof -
  have s: "x_state (block_start demo_two []) = demo_two" by (simp add: block_start_def)
  note a = demo_pay_ready [OF demo_two_paid, of 7 9] and b = demo_pay_ready [OF demo_two_paid, of 8 10]
  show ?thesis
    using wave_order_matters [where st = "block_start demo_two []" and txA = "demo_pay 7 9" and txB = "demo_pay 8 10"
        and S = toy_slots and h = "demo_header []" and idx = "[]", unfolded s, OF a _ b]
      demo_room demo_not_system [of 9] demo_not_system [of 10] paid_view [OF demo_two_paid, of 2]
    by (simp add: demo_pay_msg_def demo_transfer_def demo_header_def)
qed


definition demo_saver :: statedb where
  "demo_saver = SetBalance toy_hash demo_fresh 0xA1 1000000"

lemma demo_saver_paid: "paid ((\<lambda>_. 0)(0x1000 := 100, 0xA1 := 1000000)) demo_saver"
  unfolding demo_saver_def demo_fresh_def by (intro paid.intros)

lemma paid_registered: "paid f s \<Longrightarrow> registered toy_hash network_params 5 demo_A s []"
proof -
  assume "paid f s"
  note v = paid_view [OF this]
  have z: "GetState toy_hash s c k = 0" if "StorageOf c k \<in> sys_slots network_params 5 demo_A" for c k
    using v [of 0 c k] that demo_sys_slots by (auto simp: getters_as_slots BytesToHash_nat)
  have "(0 :: hash) \<in> of_nat ` {0..5}" by (rule image_eqI [of _ _ 0]) simp_all
  then show ?thesis
    using v demo_sys_inv [of s] z [OF sys_slots_mem(1) [of 0]] z [OF sys_slots_mem(1) [of "address_key _"]] z [OF sys_slots_mem(2)]
    by (auto simp: registered_def stakeOf_def reg_keys_def hash_Big_def)
qed

theorem staking_block_witness:
  "\<exists>r root s'. ApplyBlock demo_evm toy_crypto mem_db [] (\<lambda>_. 0) demo_exec (\<lambda>_. [Start 0, Finish 0]) demo_saver
      ((demo_header [])\<lparr>Coinbase := 0xA2\<rparr>) [demo_pay 0xA1 0x1000] = Some ([r], root, s') \<and>
    registered toy_hash network_params 5 demo_A s' [0xA1] \<and> stakeOf toy_hash network_params s' 0xA1 = 5"
proof -
  have P: "network_params = n_Params (x_netCfg demo_exec)" by (simp add: demo_exec_def demo_net_def)
  have a: "StakingAddr network_params = 0x1000" "StakingAddr network_params \<noteq> RewardAddr network_params"
    by (simp_all add: system_addresses)
  have t: "transfer_tx demo_evm toy_crypto mem_db [] demo_exec ((demo_header [])\<lparr>Coinbase := 0xA2\<rparr>) demo_saver
      (demo_pay 0xA1 0x1000) (demo_pay_msg 0xA1 0x1000) 0xA1 (StakingAddr network_params) 10"
    using demo_pay_ready_at [OF demo_saver_paid, of "0xA1" "0x1000" "0xA2"] by (simp add: a)
  have "(0xA1 :: address) \<in> demo_A" "(0xA2 :: address) \<in> demo_A" by (simp_all add: demo_A_def)
  then show ?thesis
    using staking_block [OF P a(2) t _ demo_sys_slots, of "[]" "\<lambda>_. [Start 0, Finish 0]" "\<lambda>_. 0"]
      demo_room paid_registered [OF demo_saver_paid] demo_order
    by (auto simp: demo_pay_msg_def demo_transfer_def)
qed

end
