(* ===== verification/Wellformed.thy ===== *)
theory Wellformed
  imports Executor
begin

text \<open>
  The state through the execution of a block: every operation of the transition, of the system
  contracts and of the executor leaves the state well formed, keeps the overlay on its
  parent, keeps memory and disk in agreement outside the uncommitted writes, and records no log.

  \<open>keeps s s'\<close> is the relation between a state and the state an operation makes of it.  The
  introduction rules \<open>keeps_intros\<close> push it through the operations, so that a whole
  execution follows by its structure.  The interpreter is a parameter of the model and is assumed
  to change the state only through the state's interface (\<open>evm_keeps\<close>).
\<close>

definition keeps :: "statedb \<Rightarrow> statedb \<Rightarrow> bool" where
  "keeps s s' \<longleftrightarrow> parent s' = parent s \<and> logs (statedb.fields s') = logs (statedb.fields s) \<and> (statedb_ok s \<longrightarrow> statedb_ok s')"

definition evm_keeps :: "evm \<Rightarrow> bool" where
  "evm_keeps E \<longleftrightarrow> (\<forall>z msg s ct input. keeps s (fst (evm_Run E z msg s ct input)))"

named_theorems keeps_intros

lemma keeps_refl [keeps_intros]: "keeps s s"
  by (simp add: keeps_def)

lemma keeps_trans: "keeps s s' \<Longrightarrow> keeps s' s'' \<Longrightarrow> keeps s s''"
  by (simp add: keeps_def)

subsection \<open>The state operations\<close>

lemma keeps_set:
  assumes "keeps s0 s" "length k = 32" "length v \<le> 32"
  shows "keeps s0 (setVerkleValue s k v)"
  using assms by (simp add: keeps_def statedb_ok_set)

lemma keeps_setters [keeps_intros]:
  assumes "keeps s0 s"
  shows "keeps s0 (SetBalance K s a v)" and "keeps s0 (SetNonce K s a n)"
    and "keeps s0 (fst (SetState K s a k h))" and "keeps s0 (fst (AddBalance K s a v))"
    and "keeps s0 (fst (SubBalance K s a v))"
  using assms length_u256_Bytes length_nonce_bytes
  by (auto simp: setters_as_slots AddBalance_def addBalance_h_def SubBalance_def Let_def intro!: keeps_set)

lemma keeps_cache_code: "keeps s0 s \<Longrightarrow> keeps s0 (cache_code s h c)"
proof -
  have "base_ok (f\<lparr>code := x\<rparr>) = base_ok f" for f x by (cases "tree f") (simp_all add: base_ok_def)
  then have "statedb_ok s \<Longrightarrow> statedb_ok (cache_code s h c)"
    by (cases s) (simp add: cache_code_def split: option.splits)
  then show "keeps s0 s \<Longrightarrow> keeps s0 (cache_code s h c)" by (simp add: keeps_def cache_code_def)
qed

lemma keeps_code [keeps_intros]:
  assumes "keeps s0 s"
  shows "keeps s0 (fst (SetCode K s a c))" and "keeps s0 (snd (GetCode K D d s a))"
proof -
  have "length (codeHashKey K a) = 32" by (simp add: codeHashKey_def accountStem_def)
  then show "keeps s0 (fst (SetCode K s a c))"
    using assms by (simp add: SetCode_def Let_def keeps_cache_code keeps_set)
  show "keeps s0 (snd (GetCode K D d s a))"
    using assms by (simp add: GetCode_def Let_def keeps_cache_code split: option.split)
qed

subsection \<open>The transition\<close>

lemma keeps_Transfer [keeps_intros]: "keeps s0 s \<Longrightarrow> keeps s0 (Transfer K s a b v)"
  unfolding Transfer_def by (intro keeps_intros)

lemma keeps_Run:
  assumes "evm_keeps E" "keeps s0 s"
  shows "keeps s0 (fst (evm_Run E z msg s ct input))"
  using assms keeps_trans unfolding evm_keeps_def by blast

lemma keeps_Call:
  assumes "evm_keeps E" "keeps s0 s"
  shows "keeps s0 (fst (evm_Call E K D d z msg s caller addr input gas v))"
proof -
  have s2: "keeps s0 (Transfer K s caller addr w)" for w by (intro keeps_intros assms)
  have "fst (call_end sn x) = fst x" for sn x by (simp add: call_end_def RevertToSnapshot_def split: prod.split)
  moreover have s3: "keeps s0 (snd (GetCode K D d (Transfer K s caller addr w) addr))" for w by (intro keeps_intros s2)
  ultimately show ?thesis
    using assms(2) s2 s3 keeps_Run [OF assms(1) s3]
    by (simp add: evm_Call_def Let_def CreateAccount_def case_prod_unfold split: option.split)
qed

lemma keeps_initNewContract:
  assumes "evm_keeps E" "keeps s0 s"
  shows "keeps s0 (fst (initNewContract E K z msg s ct))"
proof -
  obtain s1 ret gas err where r: "evm_Run E z msg s ct [] = (s1, ret, gas, err)" by (rule prod_cases4)
  have "keeps s0 s1" using keeps_Run [OF assms, of z msg ct "[]"] by (simp add: r)
  then show ?thesis by (simp add: initNewContract_def r Let_def keeps_code)
qed

lemma keeps_Create:
  assumes "evm_keeps E" "keeps s0 s"
  shows "keeps s0 (fst (evm_Create E K z msg s caller input gas v))"
proof -
  have s1: "keeps s0 (SetNonce K s caller n)" for n by (intro keeps_intros assms)
  have "keeps s0 (Transfer K (SetNonce K (SetNonce K s caller n) a 1) b c v)"
    "keeps s0 (Transfer K (SetNonce K s caller n) b c v)" for n a b c by (intro keeps_intros assms)+
  note t = this [THEN keeps_initNewContract [OF assms(1)]]
  show ?thesis
    using assms(2) s1 t
    by (simp add: evm_Create_def Let_def CreateAccount_def CreateContract_def RevertToSnapshot_def
        case_prod_unfold)
qed

lemma keeps_buyGas:
  assumes "buyGas K z msg gp s = Inr (s', gp')" "keeps s0 s"
  shows "keeps s0 s'"
  using assms by (auto simp: buyGas_def Let_def keeps_setters split: option.splits prod.splits if_splits sum.splits)

lemma keeps_preCheck:
  assumes "preCheck K D d z msg gp s = Inr (s', gp')" "keeps s0 s"
  shows "keeps s0 s'"
proof -
  let ?s1 = "snd (if m_SkipTransactionChecks msg then ([], s) else GetCode K D d s (m_From msg))"
  have "buyGas K z msg gp ?s1 = Inr (s', gp')"
    using assms(1) by (auto simp: preCheck_def Let_def split: option.splits prod.splits if_splits)
  moreover have "keeps s0 ?s1" using assms(2) by (simp add: keeps_code(2))
  ultimately show ?thesis by (rule keeps_buyGas)
qed

lemma keeps_settle:
  assumes "settle_gas K z msg gp s g = Inr s'" "keeps s0 s"
  shows "keeps s0 s'"
  using assms by (auto simp: settle_gas_def Let_def keeps_setters split: option.splits sum.splits if_splits)

lemma keeps_run_message:
  assumes "evm_keeps E" "keeps s0 s"
  shows "keeps s0 (fst (run_message E K D d z msg gas v s))"
proof -
  have "keeps s0 (snd (GetCode K D d (SetNonce K s (m_From msg) n) to))" for n to by (intro keeps_intros assms)
  then show ?thesis
    using keeps_Create [OF assms] by (simp add: keeps_Call [OF assms(1)] run_message_def Let_def split: option.split)
qed

lemma keeps_ApplyMessage:
  assumes "evm_keeps E" "ApplyMessage E K D d z msg gp s = Inr (s', res)"
  shows "keeps s s'"
proof -
  obtain s1 gp1 where pre: "preCheck K D d z msg gp s = Inr (s1, gp1)"
    using assms(2) by (auto simp: ApplyMessage_def execute_def split: sum.splits)
  obtain gas v s2 ret left vmerr g where
    run: "run_message E K D d z msg gas v s1 = (s2, ret, left, vmerr)" "settle_gas K z msg gp1 s2 g = Inr s'"
    using assms(2) by (auto simp: ApplyMessage_def execute_def pre Let_def split: sum.splits prod.splits if_splits)
  have "keeps s s1" by (rule keeps_preCheck [OF pre keeps_refl])
  then have "keeps s s2" using keeps_run_message [OF assms(1), where D = D and d = d and s = s1 and v = v] run(1) by (metis fst_conv)
  then show ?thesis by (rule keeps_settle [OF run(2)])
qed

subsection \<open>The system contracts\<close>

lemma keeps_stake_deposit [keeps_intros]: "keeps s0 s \<Longrightarrow> keeps s0 (stake_deposit K P s a v)"
  unfolding stake_deposit_def Let_def by (auto intro!: keeps_setters)

lemma keeps_stake_withdraw [keeps_intros]: "keeps s0 s \<Longrightarrow> keeps s0 (stake_withdraw K P s a)"
  unfolding stake_withdraw_def registry_remove_def Let_def by (auto intro!: keeps_setters)

lemma keeps_staking [keeps_intros]: "keeps s0 s \<Longrightarrow> keeps s0 (staking_contract K P s msg dat)"
  unfolding staking_contract_def Let_def by (auto intro!: keeps_intros)

lemma keeps_reward [keeps_intros]: "keeps s0 s \<Longrightarrow> keeps s0 (reward_contract K P s msg dat)"
  unfolding reward_contract_def reward_pay_def Let_def
  by (auto intro!: keeps_setters split: list.split option.split)

lemma keeps_ProcessSystemContracts: "keeps s0 s \<Longrightarrow> keeps s0 (ProcessSystemContracts K P s msg tx)"
  unfolding ProcessSystemContracts_def Let_def by (auto intro!: keeps_intros)

subsection \<open>Blocks\<close>

lemma keeps_run_tx:
  assumes "evm_keeps E" "run_tx E C D d e h s tx = Applied ov res msg"
  shows "keeps (NewOverlay s) ov"
proof -
  obtain ov1 r where ap: "ApplyMessage E (Keccak C) D d (NewEVM h (x_config e) (getHash C e h)) msg (GasLimit h) (NewOverlay s)
      = Inr (ov1, r)" "ov = ProcessSystemContracts (Keccak C) (n_Params (x_netCfg e)) ov1 msg tx"
    using assms(2) by (auto simp: run_tx_def Let_def split: option.splits sum.splits if_splits)
  show ?thesis
    unfolding ap(2) by (intro keeps_ProcessSystemContracts keeps_ApplyMessage [OF assms(1) ap(1)])
qed

text \<open>The base state while a block runs.\<close>

definition base_inv :: "'d leveldb \<Rightarrow> 'd \<Rightarrow> statedb \<Rightarrow> bool" where
  "base_inv D d s \<longleftrightarrow> statedb_ok s \<and> parent s = None \<and> in_sync D d s"

lemma base_inv_set:
  assumes "base_inv D d s" "length k = 32" "length v \<le> 32"
  shows "base_inv D d (setVerkleValue s k v)"
  using assms by (simp add: base_inv_def statedb_ok_set in_sync_set)

lemma base_inv_puts:
  "base_inv D d s \<Longrightarrow> \<forall>(k, v) \<in> set kvs. length k = 32 \<and> length v \<le> 32 \<Longrightarrow>
   base_inv D d (fold (\<lambda>(k, v) q. setVerkleValue q k v) kvs s)"
  by (induction kvs arbitrary: s) (auto intro: base_inv_set)

lemma base_inv_merge:
  assumes "base_inv D d s" "statedb_ok ov"
  shows "base_inv D d (merge_into s ov)"
proof -
  let ?q = "fold (\<lambda>(k, v) q. setVerkleValue q k v) (dirty (statedb.fields ov)) s"
  have "entries_ok (dirty (statedb.fields ov))" using assms(2) by (cases ov) simp
  then have "base_inv D d ?q" using base_inv_puts [OF assms(1)] by (simp add: entries_ok_def)
  then have "in_sync D d ?q" by (simp add: base_inv_def)
  moreover have "dirty (statedb.fields (merge_into s ov)) = dirty (statedb.fields ?q)" by (simp add: merge_into_def Let_def)
  ultimately show ?thesis
    using assms merge_into_ok(1) [of s ov] merge_into_dirty_only [of s ov]
    by (simp add: base_inv_def in_sync_def)
qed

definition wave_inv :: "'d leveldb \<Rightarrow> 'd \<Rightarrow> exec_state \<times> pending \<Rightarrow> bool" where
  "wave_inv D d x \<longleftrightarrow> base_inv D d (x_state (fst x)) \<and> (\<forall>(i, ov, res, msg) \<in> set (snd x). statedb_ok ov)"

lemma wave_step_inv:
  assumes "evm_keeps E" "wave_inv D d x" "wave_step E C D d e h idx wave ev x = Some y"
  shows "wave_inv D d y"
proof (cases x)
  case (Pair st pend)
  have inv: "base_inv D d (x_state st)" "\<And>i ov res msg. (i, ov, res, msg) \<in> set pend \<Longrightarrow> statedb_ok ov"
    using assms(2) unfolding wave_inv_def Pair by auto
  show ?thesis
  proof (cases ev)
    case (Start i)
    have "statedb_ok ov" if "run_tx E C D d e h (x_state st) (wave ! i) = Applied ov res msg" for ov res msg
      using keeps_run_tx [OF assms(1) that] inv(1) by (simp add: keeps_def base_inv_def)
    then show ?thesis
      using assms(3) inv unfolding Pair Start
      by (auto simp: wave_step_def wave_inv_def error_tx_def split: tx_outcome.splits)
  next
    case (Finish i)
    have "statedb_ok ov" if "map_of pend i = Some (ov, res, msg)" for ov res msg
      using map_of_SomeD [OF that] inv(2) by blast
    then show ?thesis
      using assms(3) inv unfolding Pair Finish
      by (auto simp: wave_step_def wave_inv_def finish_tx_def Let_def base_inv_merge
          AList.delete_eq split: option.splits)
  qed
qed

text \<open>What every step of a wave keeps, the waves of a block keep.\<close>

lemma wave_steps_keep:
  assumes "\<And>x y ev wave. P x \<Longrightarrow> wave_step E C D d e h idx wave ev x = Some y \<Longrightarrow> P y"
  shows "P x \<Longrightarrow> wave_steps E C D d e h idx wave evs x = Some y \<Longrightarrow> P y"
proof (induction evs arbitrary: x)
  case (Cons ev evs)
  then obtain z where z: "wave_step E C D d e h idx wave ev x = Some z" "wave_steps E C D d e h idx wave evs z = Some y"
    by (auto split: option.splits)
  show ?case by (rule Cons.IH [OF assms [OF Cons.prems(1) z(1)] z(2)])
qed simp

lemma run_waves_keep:
  assumes step: "\<And>x y ev wave. P x \<Longrightarrow> wave_step E C D d e h idx wave ev x = Some y \<Longrightarrow> P y"
    and drop: "\<And>st pend. P (st, pend) \<Longrightarrow> P (st, [])"
  shows "P (st, []) \<Longrightarrow> run_waves E C D d e h idx I k waves st = Some st' \<Longrightarrow> P (st', [])"
proof (induction waves arbitrary: k st)
  case (Cons wave waves)
  have "P (st1, [])" if w: "run_wave E C D d e h idx wave (I k) st = Some st1" for st1
  proof -
    obtain pend where "wave_steps E C D d e h idx wave (I k) (st, []) = Some (st1, pend)"
      using w by (auto simp: run_wave_def)
    from drop [OF wave_steps_keep [where P = P, OF step Cons.prems(1) this]] show ?thesis .
  qed
  with Cons show ?case by (auto split: if_splits option.splits)
qed simp

lemma ApplyBlock_inv:
  assumes "evm_keeps E" "base_inv D d s" "ApplyBlock E C D d R e I s h txs = Some (rs, root, s')"
  shows "base_inv D d s'"
proof -
  obtain st amount where st: "run_waves E C D d e h (txIndex txs) I 0 (schedule C (c_ChainID (x_config e)) txs)
      (block_start s txs) = Some st" "s' = AddBalanceReward (Keccak C) (x_state st) (Coinbase h) amount"
    using assms(3) by (auto simp: ApplyBlock_def Let_def split: option.splits)
  have "wave_inv D d (st, [])"
    by (rule run_waves_keep [where P = "wave_inv D d", OF wave_step_inv [OF assms(1)] _ _ st(1)])
      (use assms(2) in \<open>auto simp: wave_inv_def block_start_def\<close>)
  then have "base_inv D d (x_state st)" by (simp add: wave_inv_def)
  then show ?thesis
    unfolding st(2) AddBalanceReward_def
    by (simp add: AddBalance_def addBalance_h_def Let_def setters_as_slots base_inv_set length_u256_Bytes)
qed

text \<open>Overlays and receipts hold no logs.\<close>

definition logless :: "exec_state \<times> pending \<Rightarrow> bool" where
  "logless x \<longleftrightarrow> (\<forall>(i, ov, res, msg) \<in> set (snd x). logs (statedb.fields ov) = []) \<and>
     (\<forall>r. Some r \<in> set (receipts (fst x)) \<longrightarrow> Logs r = [])"

lemma wave_step_logless:
  assumes "evm_keeps E" "logless x" "wave_step E C D d e h idx wave ev x = Some y"
  shows "logless y"
proof (cases x)
  case (Pair st pend)
  have inv: "\<And>i ov res msg. (i, ov, res, msg) \<in> set pend \<Longrightarrow> logs (statedb.fields ov) = []"
    "\<And>r. Some r \<in> set (receipts st) \<Longrightarrow> Logs r = []"
    using assms(2) unfolding logless_def Pair by auto
  have upd: "Some r \<in> set (xs[i := Some r']) \<Longrightarrow> r = r' \<or> Some r \<in> set xs" for r r' xs and i :: nat
    using set_update_subset_insert [of xs i "Some r'"] by auto
  show ?thesis
  proof (cases ev)
    case (Start i)
    have "logs (statedb.fields ov) = []" if "run_tx E C D d e h (x_state st) (wave ! i) = Applied ov res msg" for ov res msg
      using keeps_run_tx [OF assms(1) that] by (simp add: keeps_def)
    then show ?thesis
      using assms(3) inv unfolding Pair Start
      by (auto simp: wave_step_def logless_def error_tx_def nil_receipt_def dest!: upd split: tx_outcome.splits)
  next
    case (Finish i)
    have "GetLogs ov h = []" if "map_of pend i = Some (ov, res, msg)" for ov res msg h
      using map_of_SomeD [OF that] inv(1) by (auto simp: GetLogs_def)
    then show ?thesis
      using assms(3) inv unfolding Pair Finish
      by (auto simp: wave_step_def logless_def finish_tx_def Let_def AList.delete_eq dest!: upd split: option.splits)
  qed
qed

lemma compact_receipts_logs:
  assumes "\<forall>r. Some r \<in> set ros \<longrightarrow> Logs r = []"
  shows "\<forall>r \<in> set (compact_receipts g txs ros). Logs r = []"
  using assms
proof (induction txs arbitrary: g ros)
  case (Cons tx txs)
  note IH = Cons.IH and prem = Cons.prems
  show ?case
  proof (cases ros)
    case (Cons ro rest)
    let ?r = "case ro of None \<Rightarrow> nil_receipt\<lparr>r_TxHash := tx_Hash tx\<rparr> | Some r \<Rightarrow> r"
    have "Logs ?r = []"
    proof (cases ro)
      case (Some r)
      then have "Some r \<in> set ros" using Cons by (simp only: list.set_intros(1))
      then show ?thesis using prem Some by (simp only: option.case)
    qed (simp add: nil_receipt_def)
    moreover have "\<forall>r \<in> set (compact_receipts (g + r_GasUsed ?r) txs rest). Logs r = []"
      by (rule IH) (use prem Cons list.set_intros(2) in metis)
    ultimately show ?thesis unfolding Cons compact_receipts.simps Let_def by simp
  qed simp
qed simp


text \<open>C6. Executing a block keeps the state sound in every interleaving: the state stays well formed and
  at the bottom of its overlays, and what it reads outside the uncommitted writes is what the disk
  holds, whatever the transactions do.\<close>

theorem execution_keeps_state:
  assumes "evm_keeps E" "statedb_ok s" "parent s = None" "in_sync D d s"
    and "ApplyBlock E C D d R e I s h txs = Some (rs, root, s')"
  shows "statedb_ok s' \<and> parent s' = None \<and> in_sync D d s'"
  using ApplyBlock_inv [OF assms(1) _ assms(5)] assms(2-4) by (simp add: base_inv_def)

lemma evm_keeps_demo: "evm_keeps demo_evm"
  by (simp add: evm_keeps_def demo_evm_def keeps_refl)

lemma base_inv_empty: "base_inv mem_db [] (NewState mem_db 0 None)"
  by (simp add: base_inv_def in_sync_def persisted_def NewState_None_ok) (simp add: NewState_def empty_fields_def vt.get_new)

lemma base_inv_SetBalance: "base_inv D d s \<Longrightarrow> base_inv D d (SetBalance K s a v)"
  by (simp add: setters_as_slots base_inv_set length_u256_Bytes)

lemma demo_block_run:
  obtains rs root s' where "ApplyBlock demo_evm toy_crypto mem_db [] (\<lambda>_. 0) demo_exec (\<lambda>_. [Start 0, Finish 0])
      demo_rich (demo_header []) [demo_pay 7 9] = Some (rs, root, s')"
proof -
  obtain amount where "u256_MustFromBig (10000000000000000000 + int (unat (21000 :: uint64)) * fee_price (demo_header []) (demo_pay 7 9)) = Some amount"
    by (simp add: fee_price_def demo_header_def demo_pay_def demo_tx_def u256_MustFromBig_def u256_FromBig_def)
  then show thesis
    using that ApplyBlock_single [OF transfer_tx_run [OF demo_pay_ready [OF demo_rich_paid, of 7 9], of toy_slots] demo_order]
      demo_room demo_not_system [of 9 7] by (simp add: demo_pay_msg_def demo_transfer_def)
qed

theorem execution_keeps_state_witness:
  "\<exists>rs root s'. ApplyBlock demo_evm toy_crypto mem_db [] (\<lambda>_. 0) demo_exec (\<lambda>_. [Start 0, Finish 0]) demo_rich (demo_header [])
      [demo_pay 7 9] = Some (rs, root, s') \<and> statedb_ok s' \<and> in_sync mem_db [] s'"
proof -
  obtain rs root s' where b: "ApplyBlock demo_evm toy_crypto mem_db [] (\<lambda>_. 0) demo_exec (\<lambda>_. [Start 0, Finish 0])
      demo_rich (demo_header []) [demo_pay 7 9] = Some (rs, root, s')" by (rule demo_block_run)
  have "base_inv mem_db [] demo_rich" unfolding demo_rich_def by (intro base_inv_SetBalance base_inv_empty)
  then have "statedb_ok demo_rich" "parent demo_rich = None" "in_sync mem_db [] demo_rich" by (simp_all add: base_inv_def)
  from execution_keeps_state [OF evm_keeps_demo this b] show ?thesis using b by blast
qed


end
