(* ===== verification/Node.thy ===== *)
theory Node
  imports Wellformed
begin

text \<open>
  \<open>node/node.go\<close>: the node that joins chain, state, engine and executor.

  The node is the record \<open>node\<close>.  Its executor holds the chain by reference, so it is rebuilt
  from the current chain where it is used.  The state lock is a flag: it is taken by the
  production of a block and released by the goroutine that persists the block
  (\<open>nd_saving\<close>).  \<open>nd_txCh\<close> is the transaction channel, \<open>nd_pool\<close> the local variable
  \<open>batch\<close> of the loop, \<open>nd_waiting\<close> the proposer and height a non-proposer waits on,
  \<open>nd_sent\<close> the blocks handed to the network.  The wall clock, the order in which the signature
  workers deliver (\<open>W\<close>) and the interleavings inside \<open>ApplyBlock\<close> (\<open>I\<close>) are
  arguments; a result \<open>None\<close> is a panic.  The peers are in \<open>P2P\<close>, the listeners and the
  console in \<open>Console\<close>; signals and the RPC server are not part of the model.

  The handlers are the steps of a transition relation \<open>node_step\<close>, in which a handler that
  locks the state is enabled only while the lock is free.  A tick is one step, although the code
  releases the lock in it between reading the validators, selecting transactions and
  executing them.
\<close>

record Config =
  Network :: string
  DataDir :: string
  HTTPPort :: int
  ValidatorKey :: "privkey option"
  P2PPort :: int
  WSPort :: int
  IPCPath :: string
  Bootnodes :: "string list"

definition DefaultConfig :: Config where
  "DefaultConfig = \<lparr>Network = ''devnet'', DataDir = ''zephyria-chaindata'', HTTPPort = 8545, ValidatorKey = None,
     P2PPort = 30303, WSPort = 0, IPCPath = '''', Bootnodes = []\<rparr>"

record 'd node =
  nd_bc :: "'d blockchain"
  nd_state :: statedb
  nd_engine :: engine
  nd_netCfg :: NetworkConfig
  nd_keystore :: "(address \<times> privkey) list"
  nd_txCh :: "transaction list"
  nd_pool :: "transaction list"
  nd_waiting :: "(address \<times> int) option"
  nd_locked :: bool
  nd_saving :: "(block \<times> receipt list) option"
  nd_sent :: "block list"
  nd_round :: nat

definition node_executor :: "codec \<Rightarrow> 'd leveldb \<Rightarrow> 'd node \<Rightarrow> executor" where
  "node_executor J D n = NewExecutor J D (ChainConfigOf (nd_netCfg n)) (nd_netCfg n) (nd_bc n)"

subsection \<open>Starting\<close>

datatype start_error = ChainPanic | GenesisMismatch

text \<open>A batch write whose error is dropped.\<close>

definition write_batch :: "'d leveldb \<Rightarrow> 'd \<Rightarrow> (bytes \<times> bytes) list \<Rightarrow> 'd" where
  "write_batch D d batch = (case db_Write D d batch of None \<Rightarrow> d | Some d' \<Rightarrow> d')"

definition AddKey :: "crypto \<Rightarrow> privkey \<Rightarrow> 'd node \<Rightarrow> 'd node" where
  "AddKey C key n = n\<lparr>nd_keystore := AList.update (PrivToAddr C key) key (nd_keystore n)\<rparr>"

definition GetKey :: "'d node \<Rightarrow> address \<Rightarrow> privkey option" where
  "GetKey n addr = map_of (nd_keystore n) addr"

text \<open>The state at the start; a chain of height 0 has its allocation set and committed.\<close>

definition start_state ::
    "crypto \<Rightarrow> 'd leveldb \<Rightarrow> (vtree \<Rightarrow> hash) \<Rightarrow> NetworkConfig \<Rightarrow> 'd blockchain \<Rightarrow> 'd blockchain \<times> statedb" where
  "start_state C D R cfg chain =
     (let head = currentBlock chain;
          stateRoot = (case head of None \<Rightarrow> 0 | Some b \<Rightarrow> VerkleRoot (Header b));
          s = NewState D stateRoot (Some (bc_db chain));
          currentHeight = (case head of None \<Rightarrow> 0 | Some b \<Rightarrow> big_Uint64 (Number (Header b)))
      in if currentHeight = 0 then
           (let s1 = fold (\<lambda>(addr, balance) s. SetBalance (Keccak C) s addr balance) (n_Alloc cfg) s;
                (s2, batch, root) = CommitState R s1 []
            in (chain\<lparr>bc_db := write_batch D (bc_db chain) batch\<rparr>, s2))
         else (chain, s))"

definition genesis_mismatch :: "crypto \<Rightarrow> codec \<Rightarrow> 'd leveldb \<Rightarrow> NetworkConfig \<Rightarrow> 'd blockchain \<Rightarrow> bool" where
  "genesis_mismatch C J D cfg chain =
     (case GetBlockByNumber J D chain 0 of
        None \<Rightarrow> False
      | Some genesis \<Rightarrow> block_Hash C genesis \<noteq> n_GenesisHash cfg)"

definition Start ::
    "crypto \<Rightarrow> codec \<Rightarrow> 'd leveldb \<Rightarrow> (vtree \<Rightarrow> hash) \<Rightarrow> privkey \<Rightarrow> Config \<Rightarrow> 'd \<Rightarrow> start_error + 'd node" where
  "Start C J D R devKey config db =
     (let cfg = GetNetworkConfig (Network config) in
      case NewBlockchain C J D R db cfg of
        None \<Rightarrow> Inl ChainPanic
      | Some chain \<Rightarrow>
          (if genesis_mismatch C J D cfg chain then Inl GenesisMismatch
           else
             (let valKey = (case ValidatorKey config of None \<Rightarrow> devKey | Some k \<Rightarrow> k);
                  (chain1, s) = start_state C D R cfg chain
              in Inr (AddKey C valKey
                   \<lparr>nd_bc = chain1, nd_state = s, nd_engine = NewZelius (n_Validators cfg) (Some valKey),
                    nd_netCfg = cfg, nd_keystore = [], nd_txCh = [], nd_pool = [], nd_waiting = None,
                    nd_locked = False, nd_saving = None, nd_sent = [], nd_round = 0\<rparr>))))"

subsection \<open>Blocks from the network\<close>

definition commit_block ::
    "crypto \<Rightarrow> codec \<Rightarrow> 'd leveldb \<Rightarrow> (vtree \<Rightarrow> hash) \<Rightarrow> block \<Rightarrow> receipt list \<Rightarrow> 'd node \<Rightarrow> 'd node" where
  "commit_block C J D R b rs n =
     (let (s, batch, root) = CommitState R (nd_state n) [];
          d = write_batch D (bc_db (nd_bc n)) batch
      in n\<lparr>nd_state := s, nd_bc := fst (AddBlock C J D ((nd_bc n)\<lparr>bc_db := d\<rparr>) b (Some rs))\<rparr>)"

text \<open>The registered block handler.  Looking up a leader among no validators panics.\<close>

definition importBlock ::
    "evm \<Rightarrow> crypto \<Rightarrow> codec \<Rightarrow> 'd leveldb \<Rightarrow> (vtree \<Rightarrow> hash) \<Rightarrow> (nat \<Rightarrow> wave_event list) \<Rightarrow> block \<Rightarrow> 'd node
      \<Rightarrow> 'd node option" where
  "importBlock E C J D R I b n =
     (case Verify C (nd_engine n) b of
        (Some NoValidators, e) \<Rightarrow> None
      | (Some err, e) \<Rightarrow> Some (n\<lparr>nd_engine := e\<rparr>)
      | (None, e) \<Rightarrow>
          (case ApplyBlock E C D (bc_db (nd_bc n)) R (node_executor J D n) I (nd_state n) (Header b) (Transactions b) of
             None \<Rightarrow> None
           | Some (rs, root, s) \<Rightarrow>
               (let b1 = b\<lparr>Header := (Header b)\<lparr>VerkleRoot := root\<rparr>\<rparr>
                in Some (commit_block C J D R b1 rs (n\<lparr>nd_engine := e, nd_state := s\<rparr>)))))"

subsection \<open>Producing a block\<close>

text \<open>The transactions with a valid signature; the workers deliver them in the order \<open>W\<close>.\<close>

definition valid_txs ::
    "crypto \<Rightarrow> int \<Rightarrow> (transaction list \<Rightarrow> transaction list) \<Rightarrow> transaction list \<Rightarrow> transaction list" where
  "valid_txs C cid W txs = W (filter (\<lambda>tx. Sender C cid tx \<noteq> None) txs)"

definition select_tx :: "crypto \<Rightarrow> int \<Rightarrow> statedb \<Rightarrow> transaction \<Rightarrow> bool" where
  "select_tx C cid s tx =
     (let sender = (case Sender C cid tx of None \<Rightarrow> 0 | Some a \<Rightarrow> a);
          nonce = GetNonce (Keccak C) s sender;
          balance = GetBalance (Keccak C) s sender;
          cost = tx_GasPrice tx * int (unat (tx_Gas tx));
          cost256 = fst (u256_FromBig cost)
      in \<not> tx_Nonce tx \<noteq> nonce \<and> \<not> balance < cost256)"

text \<open>The interception of withdrawals: the sender leaves the validator set at once.\<close>

definition intercept :: "crypto \<Rightarrow> int \<Rightarrow> SystemParams \<Rightarrow> transaction \<Rightarrow> engine \<Rightarrow> engine" where
  "intercept C cid P tx e =
     (if tx_To tx = Some (StakingAddr P) \<and> string_of_bytes (tx_Data tx) = ''UNSTAKE''
      then RemoveValidator e (case Sender C cid tx of None \<Rightarrow> 0 | Some a \<Rightarrow> a)
      else e)"

definition getGasUsed :: "receipt list \<Rightarrow> uint64" where
  "getGasUsed rs = (if rs = [] then 0 else CumulativeGasUsed (last rs))"

definition new_header :: "crypto \<Rightarrow> NetworkConfig \<Rightarrow> uint64 \<Rightarrow> block \<Rightarrow> int \<Rightarrow> header" where
  "new_header C cfg now par baseFee = \<lparr>
     ParentHash = block_Hash C par,
     Number = Number (Header par) + 1,
     Time = now,
     VerkleRoot = 0,
     TxHash = 0,
     Coinbase = n_Coinbase cfg,
     ExtraData = [],
     Difficulty = Some (n_Difficulty cfg),
     GasLimit = DefaultGasLimit (n_Params cfg),
     GasUsed = 0,
     BaseFee = Some baseFee\<rparr>"

text \<open>
  \<open>processBatch\<close>.  It leaves with the lock taken: the persistence it starts releases it.  When
  sealing fails it returns as well, and nothing is left that would release the lock.
\<close>

definition processBatch ::
    "evm \<Rightarrow> crypto \<Rightarrow> codec \<Rightarrow> 'd leveldb \<Rightarrow> (vtree \<Rightarrow> hash) \<Rightarrow> (nat \<Rightarrow> wave_event list)
      \<Rightarrow> (transaction list \<Rightarrow> transaction list) \<Rightarrow> uint64 \<Rightarrow> transaction list \<Rightarrow> 'd node \<Rightarrow> 'd node option" where
  "processBatch E C J D R I W now batch n =
     (let cfg = nd_netCfg n;
          cid = c_ChainID (ChainConfigOf cfg);
          txs = filter (select_tx C cid (nd_state n)) (valid_txs C cid W batch);
          e = fold (intercept C cid (n_Params cfg)) txs (nd_engine n)
      in case currentBlock (nd_bc n) of
           None \<Rightarrow> None
         | Some par \<Rightarrow>
             (case CalcBaseFee (ChainConfigOf cfg) (Header par) of
                None \<Rightarrow> None
              | Some baseFee \<Rightarrow>
                  (let header = new_header C cfg now par baseFee
                   in case ApplyBlock E C D (bc_db (nd_bc n)) R (node_executor J D n) I (nd_state n) header txs of
                        None \<Rightarrow> None
                      | Some (rs, root, s) \<Rightarrow>
                          (let header1 = header\<lparr>VerkleRoot := root, GasUsed := getGasUsed rs\<rparr>
                           in case Seal C e (NewBlock header1 txs) of
                                (_, Some err) \<Rightarrow> Some (n\<lparr>nd_engine := e, nd_state := s, nd_locked := True\<rparr>)
                              | (b, None) \<Rightarrow>
                                  Some (n\<lparr>nd_engine := e, nd_state := s, nd_locked := True,
                                          nd_saving := Some (b, rs), nd_sent := nd_sent n @ [b]\<rparr>)))))"

text \<open>The goroutine that commits the state, stores the block and releases the lock.\<close>

definition persist ::
    "crypto \<Rightarrow> codec \<Rightarrow> 'd leveldb \<Rightarrow> (vtree \<Rightarrow> hash) \<Rightarrow> 'd node \<Rightarrow> 'd node" where
  "persist C J D R n =
     (case nd_saving n of
        None \<Rightarrow> n
      | Some (b, rs) \<Rightarrow>
          (commit_block C J D R b rs n)\<lparr>nd_saving := None, nd_locked := False\<rparr>)"

subsection \<open>The loop\<close>

text \<open>Receiving from the channel until the pool holds 5000 transactions or the channel is empty.\<close>

fun drain :: "transaction list \<Rightarrow> transaction list \<Rightarrow> transaction list \<times> transaction list" where
  "drain batch [] = (batch, [])"
| "drain batch (tx # ch) = (if length batch < 5000 then drain (batch @ [tx]) ch else (batch, tx # ch))"

definition receive :: "'d node \<Rightarrow> 'd node option" where
  "receive n =
     (case nd_txCh n of
        [] \<Rightarrow> None
      | tx # ch \<Rightarrow>
          (let (batch, rest) = drain (nd_pool n @ [tx]) ch in Some (n\<lparr>nd_pool := batch, nd_txCh := rest\<rparr>)))"

text \<open>The ticker case up to the decision who proposes: the synchronised engine and the leader.\<close>

definition tick_leader ::
    "crypto \<Rightarrow> 'd node \<Rightarrow> (address option \<times> engine) option" where
  "tick_leader C n =
     (case SyncValidators (Some (GetState (Keccak C) (nd_state n))) (nd_engine n) of
        None \<Rightarrow> None
      | Some (err, e) \<Rightarrow>
          (case currentBlock (nd_bc n) of
             None \<Rightarrow> None
           | Some par \<Rightarrow> Some (GetLeader C e (big_Uint64 (Number (Header par) + 1)))))"

definition tick ::
    "evm \<Rightarrow> crypto \<Rightarrow> codec \<Rightarrow> 'd leveldb \<Rightarrow> (vtree \<Rightarrow> hash) \<Rightarrow> (nat \<Rightarrow> wave_event list)
      \<Rightarrow> (transaction list \<Rightarrow> transaction list) \<Rightarrow> uint64 \<Rightarrow> 'd node \<Rightarrow> 'd node option" where
  "tick E C J D R I W now n =
     (case (tick_leader C n, currentBlock (nd_bc n)) of
        (Some (Some proposer, e), Some par) \<Rightarrow>
          (case privKey e of
             None \<Rightarrow> None
           | Some key \<Rightarrow>
               (let n1 = n\<lparr>nd_engine := e\<rparr> in
                if proposer = PrivToAddr C key then
                  (let limit = min 2800 (length (nd_pool n))
                   in map_option (\<lambda>m. m\<lparr>nd_round := 0\<rparr>)
                        (processBatch E C J D R I W now (take limit (nd_pool n))
                          (n1\<lparr>nd_pool := drop limit (nd_pool n)\<rparr>)))
                else Some (n1\<lparr>nd_waiting := Some (proposer, Number (Header par))\<rparr>)))
      | _ \<Rightarrow> None)"

text \<open>The end of the wait: a block arrived, or the proposer has failed.\<close>

definition wait_end :: "'d node \<Rightarrow> 'd node option" where
  "wait_end n =
     (case (nd_waiting n, currentBlock (nd_bc n)) of
        (Some (proposer, number), Some head) \<Rightarrow>
          (let blockArrived = Number (Header head) > number
           in Some (if blockArrived then n\<lparr>nd_waiting := None, nd_round := 0\<rparr>
                    else n\<lparr>nd_waiting := None, nd_engine := RecordNonCompliance (nd_engine n) proposer,
                           nd_round := nd_round n + 1\<rparr>))
      | _ \<Rightarrow> None)"

text \<open>The next block interval after a batch that took \<open>lastExecTime\<close> nanoseconds.\<close>

definition next_timeout :: "int \<Rightarrow> int \<Rightarrow> int" where
  "next_timeout blockTimeout lastExecTime =
     (if lastExecTime > blockTimeout div 2
      then (if lastExecTime * 2 > 5000000000 then 5000000000 else lastExecTime * 2)
      else blockTimeout)"

subsection \<open>Submitting transactions\<close>

text \<open>Sending on the channel of capacity 2000; \<open>None\<close> while it is full, when the sender blocks.\<close>

definition SubmitTx :: "transaction \<Rightarrow> 'd node \<Rightarrow> 'd node option" where
  "SubmitTx tx n = (if length (nd_txCh n) < 2000 then Some (n\<lparr>nd_txCh := nd_txCh n @ [tx]\<rparr>) else None)"

text \<open>
  \<open>types.NewTransaction\<close>: an unsigned legacy transaction.  \<open>types.SignTx\<close> is the parameter
  \<open>SignTx\<close>, for a chain id; it also determines hash, size and signature values.
\<close>

definition NewTransaction :: "uint64 \<Rightarrow> address \<Rightarrow> int \<Rightarrow> uint64 \<Rightarrow> int \<Rightarrow> bytes \<Rightarrow> transaction" where
  "NewTransaction nonce to amount gasLimit gasPrice data =
     \<lparr>tx_Type = 0, tx_ChainId = 0, tx_Nonce = nonce, tx_GasPrice = gasPrice, tx_GasFeeCap = gasPrice,
      tx_GasTipCap = gasPrice, tx_Gas = gasLimit, tx_To = Some to, tx_Value = amount, tx_Data = data,
      tx_AccessList = [], tx_Hash = 0, tx_Size = 0, tx_V = 0, tx_R = 0, tx_S = 0, tx_BlobHashes = None,
      tx_BlobGasFeeCap = None\<rparr>"

datatype send_error = AccountNotFound | SignFailed | ChannelFull

definition send_signed ::
    "crypto \<Rightarrow> (int \<Rightarrow> transaction \<Rightarrow> privkey \<Rightarrow> transaction option) \<Rightarrow> int \<Rightarrow> bytes \<Rightarrow> address \<Rightarrow> 'd node
      \<Rightarrow> send_error + 'd node" where
  "send_signed C SignTx amount data sender n =
     (case GetKey n sender of
        None \<Rightarrow> Inl AccountNotFound
      | Some userKey \<Rightarrow>
          (let nonce = GetNonce (Keccak C) (nd_state n) sender;
               P = n_Params (nd_netCfg n);
               tx = NewTransaction nonce (StakingAddr P) amount 100000 (DefaultBaseFee P) data
           in case SignTx (c_ChainID (ChainConfigOf (nd_netCfg n))) tx userKey of
                None \<Rightarrow> Inl SignFailed
              | Some signedTx \<Rightarrow>
                  (case SubmitTx signedTx n of None \<Rightarrow> Inl ChannelFull | Some n' \<Rightarrow> Inr n')))"

definition SendStakeTx ::
    "crypto \<Rightarrow> (int \<Rightarrow> transaction \<Rightarrow> privkey \<Rightarrow> transaction option) \<Rightarrow> int \<Rightarrow> address \<Rightarrow> 'd node
      \<Rightarrow> send_error + 'd node" where
  "SendStakeTx C SignTx amount sender n = send_signed C SignTx amount [] sender n"

definition SendUnstakeTx ::
    "crypto \<Rightarrow> (int \<Rightarrow> transaction \<Rightarrow> privkey \<Rightarrow> transaction option) \<Rightarrow> address \<Rightarrow> 'd node
      \<Rightarrow> send_error + 'd node" where
  "SendUnstakeTx C SignTx sender n = send_signed C SignTx 0 (bytes_of_string ''UNSTAKE'') sender n"

text \<open>\<open>Node.GetBalance\<close>, which takes the lock for the read.\<close>

definition node_GetBalance :: "crypto \<Rightarrow> 'd node \<Rightarrow> address \<Rightarrow> int" where
  "node_GetBalance C n addr = u256_ToBig (GetBalance (Keccak C) (nd_state n) addr)"

subsection \<open>The node as a transition system\<close>

inductive node_step ::
    "evm \<Rightarrow> crypto \<Rightarrow> codec \<Rightarrow> 'd leveldb \<Rightarrow> (vtree \<Rightarrow> hash) \<Rightarrow> 'd node \<Rightarrow> 'd node \<Rightarrow> bool"
  for E C J D R where
  step_import: "\<not> nd_locked n \<Longrightarrow> importBlock E C J D R I b n = Some n' \<Longrightarrow> node_step E C J D R n n'"
| step_tick: "\<not> nd_locked n \<Longrightarrow> nd_waiting n = None \<Longrightarrow> tick E C J D R I W now n = Some n' \<Longrightarrow> node_step E C J D R n n'"
| step_wait: "wait_end n = Some n' \<Longrightarrow> node_step E C J D R n n'"
| step_persist: "nd_saving n \<noteq> None \<Longrightarrow> node_step E C J D R n (persist C J D R n)"
| step_receive: "nd_waiting n = None \<Longrightarrow> receive n = Some n' \<Longrightarrow> node_step E C J D R n n'"
| step_submit: "SubmitTx tx n = Some n' \<Longrightarrow> node_step E C J D R n n'"

inductive node_run ::
    "evm \<Rightarrow> crypto \<Rightarrow> codec \<Rightarrow> 'd leveldb \<Rightarrow> (vtree \<Rightarrow> hash) \<Rightarrow> 'd node \<Rightarrow> 'd node \<Rightarrow> bool"
  for E C J D R n where
  run_refl: "node_run E C J D R n n"
| run_step: "node_run E C J D R n m \<Longrightarrow> node_step E C J D R m k \<Longrightarrow> node_run E C J D R n k"

end
