(* ===== verification/NodeCorrect.thy ===== *)
theory NodeCorrect
  imports Node
begin

text \<open>
  The node: what its block production, import, persistence and start-up achieve together.

  A produced block is what the fee rule, the pool and the execution demand; a replica that imports it
  reaches the producer's state; it survives a restart; the state lock is released by
  persisting, and by nothing else; and the expected genesis hash decides which networks start at all.
\<close>

subsection \<open>Execution reads only part of the header\<close>

definition sealed_header :: "header \<Rightarrow> hash \<Rightarrow> uint64 \<Rightarrow> bytes \<Rightarrow> header" where
  "sealed_header h r g x = h\<lparr>VerkleRoot := r, GasUsed := g, ExtraData := x\<rparr>"

lemma sealed_header_run: "run_tx E C D d e (sealed_header h r g x) s tx = run_tx E C D d e h s tx"
proof -
  have evm: "NewEVM (sealed_header h r g x) cfg gh = NewEVM h cfg gh" for cfg gh
    by (simp add: NewEVM_def sealed_header_def)
  have hash: "getHash C e (sealed_header h r g x) = getHash C e h"
    by (simp add: fun_eq_iff getHash_def sealed_header_def)
  have sel: "BaseFee (sealed_header h r g x) = BaseFee h" "GasLimit (sealed_header h r g x) = GasLimit h"
    by (simp_all add: sealed_header_def)
  show ?thesis unfolding run_tx_def evm hash sel ..
qed

lemma sealed_header_finish:
  "finish_tx E (sealed_header h r g x) idx tx ov res msg st = finish_tx E h idx tx ov res msg st"
  by (simp add: finish_tx_def fee_price_def sealed_header_def)

lemma sealed_header_waves:
  "run_waves E C D d e (sealed_header h r g x) idx I k waves st = run_waves E C D d e h idx I k waves st"
proof -
  have "wave_step E C D d e (sealed_header h r g x) idx wave ev y = wave_step E C D d e h idx wave ev y" for wave ev y
    unfolding wave_step_def sealed_header_run sealed_header_finish ..
  then have "wave_steps E C D d e (sealed_header h r g x) idx wave evs y = wave_steps E C D d e h idx wave evs y" for wave evs y
    by (induction evs arbitrary: y) (simp_all split: option.split)
  then show ?thesis
    by (induction waves arbitrary: k st) (simp_all add: run_wave_def split: option.split)
qed

lemma ApplyBlock_sealed: "ApplyBlock E C D d R e I s (sealed_header h r g x) txs = ApplyBlock E C D d R e I s h txs"
proof -
  have cb: "Coinbase (sealed_header h r g x) = Coinbase h" by (simp add: sealed_header_def)
  show ?thesis unfolding ApplyBlock_def sealed_header_waves cb ..
qed

subsection \<open>Properties\<close>

lemma processBatch_cases:
  assumes "processBatch E C J D R I W now batch n = Some n1"
  obtains par baseFee txs e rs root s where "currentBlock (nd_bc n) = Some par"
    "CalcBaseFee (ChainConfigOf (nd_netCfg n)) (Header par) = Some baseFee"
    "txs = filter (select_tx C (c_ChainID (ChainConfigOf (nd_netCfg n))) (nd_state n))
       (valid_txs C (c_ChainID (ChainConfigOf (nd_netCfg n))) W batch)"
    "e = fold (intercept C (c_ChainID (ChainConfigOf (nd_netCfg n))) (n_Params (nd_netCfg n))) txs (nd_engine n)"
    "ApplyBlock E C D (bc_db (nd_bc n)) R (node_executor J D n) I (nd_state n)
       (new_header C (nd_netCfg n) now par baseFee) txs = Some (rs, root, s)"
    "n1 = (case Seal C e (NewBlock ((new_header C (nd_netCfg n) now par baseFee)\<lparr>VerkleRoot := root, GasUsed := getGasUsed rs\<rparr>) txs) of
        (_, Some err) \<Rightarrow> n\<lparr>nd_engine := e, nd_state := s, nd_locked := True\<rparr>
      | (b, None) \<Rightarrow> n\<lparr>nd_engine := e, nd_state := s, nd_locked := True, nd_saving := Some (b, rs), nd_sent := nd_sent n @ [b]\<rparr>)"
  using assms by (auto simp: processBatch_def Let_def split: option.splits prod.splits)

lemma intercept_privKey: "privKey (fold (intercept C cid P) txs e) = privKey e"
proof -
  have "privKey (intercept C cid P tx e) = privKey e" for tx e
    by (simp add: intercept_def RemoveValidator_def RecalculateSchedule_def split: option.split)
  then show ?thesis by (induction txs arbitrary: e) simp_all
qed

lemma Seal_header:
  assumes "Seal C e b = (b', None)" "ExtraData (Header b) = []"
  obtains key sig where "privKey e = Some key" "b' = b\<lparr>Header := (Header b)\<lparr>ExtraData := sig\<rparr>\<rparr>"
  using assms by (auto simp: Seal_def Let_def split: option.splits)

text \<open>What a production that led to a sealed block has done.\<close>

lemma mined_block:
  assumes "processBatch E C J D R I W now batch n = Some n1" "nd_saving n1 = Some (b, rs)" "nd_saving n = None"
  obtains par baseFee txs e root s sig where "currentBlock (nd_bc n) = Some par"
    "CalcBaseFee (ChainConfigOf (nd_netCfg n)) (Header par) = Some baseFee"
    "txs = filter (select_tx C (c_ChainID (ChainConfigOf (nd_netCfg n))) (nd_state n))
       (valid_txs C (c_ChainID (ChainConfigOf (nd_netCfg n))) W batch)"
    "privKey e = privKey (nd_engine n)"
    "ApplyBlock E C D (bc_db (nd_bc n)) R (node_executor J D n) I (nd_state n)
       (new_header C (nd_netCfg n) now par baseFee) txs = Some (rs, root, s)"
    "Seal C e (NewBlock ((new_header C (nd_netCfg n) now par baseFee)\<lparr>VerkleRoot := root, GasUsed := getGasUsed rs\<rparr>) txs) = (b, None)"
    "b = NewBlock (sealed_header (new_header C (nd_netCfg n) now par baseFee) root (getGasUsed rs) sig) txs"
    "n1 = n\<lparr>nd_engine := e, nd_state := s, nd_locked := True, nd_saving := Some (b, rs), nd_sent := nd_sent n @ [b]\<rparr>"
proof -
  obtain par baseFee txs e rs' root s where p: "currentBlock (nd_bc n) = Some par"
    "CalcBaseFee (ChainConfigOf (nd_netCfg n)) (Header par) = Some baseFee"
    "txs = filter (select_tx C (c_ChainID (ChainConfigOf (nd_netCfg n))) (nd_state n))
       (valid_txs C (c_ChainID (ChainConfigOf (nd_netCfg n))) W batch)"
    "e = fold (intercept C (c_ChainID (ChainConfigOf (nd_netCfg n))) (n_Params (nd_netCfg n))) txs (nd_engine n)"
    "ApplyBlock E C D (bc_db (nd_bc n)) R (node_executor J D n) I (nd_state n)
       (new_header C (nd_netCfg n) now par baseFee) txs = Some (rs', root, s)"
    "n1 = (case Seal C e (NewBlock ((new_header C (nd_netCfg n) now par baseFee)\<lparr>VerkleRoot := root, GasUsed := getGasUsed rs'\<rparr>) txs) of
        (_, Some err) \<Rightarrow> n\<lparr>nd_engine := e, nd_state := s, nd_locked := True\<rparr>
      | (b, None) \<Rightarrow> n\<lparr>nd_engine := e, nd_state := s, nd_locked := True, nd_saving := Some (b, rs'), nd_sent := nd_sent n @ [b]\<rparr>)"
    by (rule processBatch_cases [OF assms(1)])
  let ?b0 = "NewBlock ((new_header C (nd_netCfg n) now par baseFee)\<lparr>VerkleRoot := root, GasUsed := getGasUsed rs'\<rparr>) txs"
  have seal: "Seal C e ?b0 = (b, None)" and rs: "rs' = rs"
    and n1: "n1 = n\<lparr>nd_engine := e, nd_state := s, nd_locked := True, nd_saving := Some (b, rs), nd_sent := nd_sent n @ [b]\<rparr>"
    using p(6) assms(2,3) by (auto split: prod.splits option.splits)
  have x: "ExtraData (Header ?b0) = []" by (simp add: new_header_def)
  obtain sig where "b = ?b0\<lparr>Header := (Header ?b0)\<lparr>ExtraData := sig\<rparr>\<rparr>" by (rule Seal_header [OF seal x])
  then have "b = NewBlock (sealed_header (new_header C (nd_netCfg n) now par baseFee) root (getGasUsed rs) sig) txs"
    by (simp add: sealed_header_def NewBlock_def rs)
  moreover have "privKey e = privKey (nd_engine n)" by (simp add: p(4) intercept_privKey)
  ultimately show thesis using that p(1-3,5) seal n1 unfolding rs by blast
qed

text \<open>Importing what another node produced.\<close>

lemma Verify_mined:
  assumes "sign_ok C" "privKey (nd_engine n) = Some key"
    and mined: "processBatch E C J D R I W now batch n = Some n1" "nd_saving n1 = Some (b, rs)" "nd_saving n = None"
    and leader: "fst (GetLeader C e' (big_Uint64 (Number (Header b)))) = Some (PrivToAddr C key)"
  obtains e'' where "Verify C e' b = (None, e'')"
proof (rule mined_block [OF mined])
  fix par baseFee txs e root s sig
  let ?h = "new_header C (nd_netCfg n) now par baseFee"
  let ?b0 = "NewBlock (?h\<lparr>VerkleRoot := root, GasUsed := getGasUsed rs\<rparr>) txs"
  assume p: "privKey e = privKey (nd_engine n)" "Seal C e ?b0 = (b, None)"
    "b = NewBlock (sealed_header ?h root (getGasUsed rs) sig) txs"
  have x: "ExtraData (Header ?b0) = []" by (simp add: new_header_def)
  have "Number (Header b) = Number (Header ?b0)" by (simp add: p(3) sealed_header_def)
  then have "fst (Verify C e' b) = None"
    using Verify_Seal [OF assms(1) x p(1) [unfolded assms(2)] p(2), of e'] leader by simp
  then show thesis by (cases "Verify C e' b") (use that in simp)
qed

lemma import_mined:
  assumes crypto: "sign_ok C" "privKey (nd_engine n) = Some key"
    and mined: "processBatch E C J D R I W now batch n = Some n1" "nd_saving n1 = Some (b, rs)" "nd_saving n = None"
    and same: "nd_bc m = nd_bc n" "nd_state m = nd_state n" "nd_netCfg m = nd_netCfg n"
    and leader: "fst (GetLeader C (nd_engine m) (big_Uint64 (Number (Header b)))) = Some (PrivToAddr C key)"
  shows "\<exists>m'. importBlock E C J D R I b m = Some m' \<and>
    nd_state m' = nd_state (persist C J D R n1) \<and> nd_bc m' = nd_bc (persist C J D R n1) \<and>
    nd_engine m' = snd (Verify C (nd_engine m) b) \<and> nd_netCfg m' = nd_netCfg m"
proof (rule mined_block [OF mined])
  fix par baseFee txs e root s sig
  let ?h = "new_header C (nd_netCfg n) now par baseFee"
  assume p: "ApplyBlock E C D (bc_db (nd_bc n)) R (node_executor J D n) I (nd_state n) ?h txs = Some (rs, root, s)"
    "b = NewBlock (sealed_header ?h root (getGasUsed rs) sig) txs"
    "n1 = n\<lparr>nd_engine := e, nd_state := s, nd_locked := True, nd_saving := Some (b, rs), nd_sent := nd_sent n @ [b]\<rparr>"
  obtain e' where v: "Verify C (nd_engine m) b = (None, e')" by (rule Verify_mined [OF crypto mined leader])
  have ap: "ApplyBlock E C D (bc_db (nd_bc m)) R (node_executor J D m) I (nd_state m) (Header b) (Transactions b) = Some (rs, root, s)"
    using p(1) by (simp add: p(2) ApplyBlock_sealed same node_executor_def)
  have "b\<lparr>Header := (Header b)\<lparr>VerkleRoot := root\<rparr>\<rparr> = b" by (simp add: p(2) sealed_header_def NewBlock_def)
  then show ?thesis
    using v ap by (simp add: importBlock_def persist_def p(3) commit_block_def Let_def same split: prod.split)
qed


text \<open>C7. What a produced block looks like: it extends the head by one with the base fee of the
  fee rule, holds only transactions of the batch that are signed, carry the next nonce of their
  sender and are covered by its balance, and its gas is the sum over the receipts, which
  match the transactions one by one.\<close>

theorem produced_block_valid:
  assumes W: "\<And>txs. mset (W txs) = mset txs"
    and mined: "processBatch E C J D R I W now batch n = Some n1" "nd_saving n1 = Some (b, rs)" "nd_saving n = None"
    and I: "interleavings C (node_executor J D n) (Transactions b) I"
  shows "\<exists>par. currentBlock (nd_bc n) = Some par \<and> ParentHash (Header b) = block_Hash C par \<and>
      Number (Header b) = Number (Header par) + 1 \<and>
      BaseFee (Header b) = CalcBaseFee (ChainConfigOf (nd_netCfg n)) (Header par) \<and>
      set (Transactions b) \<subseteq> set batch \<and>
      (\<forall>tx \<in> set (Transactions b). \<exists>a. Sender C (n_ChainID (nd_netCfg n)) tx = Some a \<and>
         GetNonce (Keccak C) (nd_state n) a = tx_Nonce tx \<and>
         of_int (tx_GasPrice tx * int (unat (tx_Gas tx))) \<le> GetBalance (Keccak C) (nd_state n) a) \<and>
      map r_TxHash rs = map tx_Hash (Transactions b) \<and> GasUsed (Header b) = sum_list (map r_GasUsed rs)"
proof (rule mined_block [OF mined])
  fix par baseFee txs e root s sig
  let ?h = "new_header C (nd_netCfg n) now par baseFee" and ?cid = "c_ChainID (ChainConfigOf (nd_netCfg n))"
  assume p: "currentBlock (nd_bc n) = Some par" "CalcBaseFee (ChainConfigOf (nd_netCfg n)) (Header par) = Some baseFee"
    "txs = filter (select_tx C ?cid (nd_state n)) (valid_txs C ?cid W batch)"
    "ApplyBlock E C D (bc_db (nd_bc n)) R (node_executor J D n) I (nd_state n) ?h txs = Some (rs, root, s)"
    "b = NewBlock (sealed_header ?h root (getGasUsed rs) sig) txs"
  have cid: "?cid = n_ChainID (nd_netCfg n)" by (simp add: ChainConfigOf_def)
  have "set (W xs) = set xs" for xs :: "transaction list" using W [of xs] by (rule mset_eq_setD)
  then have mem: "set (valid_txs C ?cid W batch) = {tx \<in> set batch. Sender C ?cid tx \<noteq> None}"
    by (simp add: valid_txs_def)
  have rec: "map r_TxHash rs = map tx_Hash txs"
    "\<forall>i < length rs. CumulativeGasUsed (rs ! i) = sum_list (map r_GasUsed (take (Suc i) rs))"
    using ApplyBlock_receipts [OF p(4)] I p(5) by simp_all
  have gas: "getGasUsed rs = sum_list (map r_GasUsed rs)"
    using rec(2) by (cases rs rule: rev_cases) (auto simp: getGasUsed_def)
  have "\<exists>a. Sender C (n_ChainID (nd_netCfg n)) tx = Some a \<and> GetNonce (Keccak C) (nd_state n) a = tx_Nonce tx \<and>
      of_int (tx_GasPrice tx * int (unat (tx_Gas tx))) \<le> GetBalance (Keccak C) (nd_state n) a" if "tx \<in> set txs" for tx
  proof -
    have "Sender C ?cid tx \<noteq> None" and sel: "select_tx C ?cid (nd_state n) tx" using that mem by (simp_all add: p(3))
    then obtain a where "Sender C ?cid tx = Some a" by blast
    with sel show ?thesis unfolding cid by (simp add: select_tx_def Let_def u256_FromBig_def not_less)
  qed
  then show ?thesis
    using p(1,2) rec(1) gas mem unfolding p(5) by (auto simp: sealed_header_def new_header_def p(3))
qed

subsection \<open>The state lock\<close>

inductive_cases node_stepE: "node_step E C J D R n n'"

lemma SyncValidators_privKey: "SyncValidators r e = Some (err, e') \<Longrightarrow> privKey e' = privKey e"
  by (auto simp: SyncValidators_def Let_def RecalculateSchedule_def split: option.splits if_splits)

text \<open>What a tick amounts to.\<close>

lemma tick_cases:
  assumes "tick E C J D R I W now n = Some n'"
  obtains (propose) e key m where "privKey e = Some key"
      "processBatch E C J D R I W now (take (min 2800 (length (nd_pool n))) (nd_pool n))
         (n\<lparr>nd_engine := e, nd_pool := drop (min 2800 (length (nd_pool n))) (nd_pool n)\<rparr>) = Some m"
      "n' = m\<lparr>nd_round := 0\<rparr>"
  | (wait) e proposer number where "n' = n\<lparr>nd_engine := e, nd_waiting := Some (proposer, number)\<rparr>"
  using assms by (auto simp: tick_def Let_def split: option.splits if_splits)

lemma Seal_total:
  assumes "privKey e = Some key"
  shows "\<forall>h. SignHash C h key \<noteq> None \<Longrightarrow> \<exists>b'. Seal C e b = (b', None)"
    and "\<forall>h. SignHash C h key = None \<Longrightarrow> \<exists>b' err. Seal C e b = (b', Some err)"
  using assms by (auto simp: Seal_def Let_def split: option.splits)

text \<open>Where a produced block leaves the lock.\<close>

lemma processBatch_lock:
  assumes "processBatch E C J D R I W now batch n = Some n1"
  shows "nd_locked n1 \<and> (nd_saving n1 = nd_saving n \<or> nd_saving n1 \<noteq> None)"
    and "privKey (nd_engine n) = Some key \<Longrightarrow> \<forall>h. SignHash C h key \<noteq> None \<Longrightarrow> nd_saving n1 \<noteq> None"
    and "privKey (nd_engine n) = Some key \<Longrightarrow> \<forall>h. SignHash C h key = None \<Longrightarrow> nd_saving n1 = nd_saving n"
proof -
  obtain par baseFee txs e rs root s where e: "currentBlock (nd_bc n) = Some par"
    "CalcBaseFee (ChainConfigOf (nd_netCfg n)) (Header par) = Some baseFee"
    "txs = filter (select_tx C (c_ChainID (ChainConfigOf (nd_netCfg n))) (nd_state n))
       (valid_txs C (c_ChainID (ChainConfigOf (nd_netCfg n))) W batch)"
    "e = fold (intercept C (c_ChainID (ChainConfigOf (nd_netCfg n))) (n_Params (nd_netCfg n))) txs (nd_engine n)"
    "ApplyBlock E C D (bc_db (nd_bc n)) R (node_executor J D n) I (nd_state n)
       (new_header C (nd_netCfg n) now par baseFee) txs = Some (rs, root, s)"
    and n1: "n1 = (case Seal C e (NewBlock ((new_header C (nd_netCfg n) now par baseFee)\<lparr>VerkleRoot := root, GasUsed := getGasUsed rs\<rparr>) txs) of
        (_, Some err) \<Rightarrow> n\<lparr>nd_engine := e, nd_state := s, nd_locked := True\<rparr>
      | (b, None) \<Rightarrow> n\<lparr>nd_engine := e, nd_state := s, nd_locked := True, nd_saving := Some (b, rs), nd_sent := nd_sent n @ [b]\<rparr>)"
    by (rule processBatch_cases [OF assms])
  have "privKey e = privKey (nd_engine n)" by (simp add: e(4) intercept_privKey)
  note p = this n1
  show "nd_locked n1 \<and> (nd_saving n1 = nd_saving n \<or> nd_saving n1 \<noteq> None)"
    by (auto simp: p(2) split: prod.splits option.splits)
  let ?b0 = "NewBlock ((new_header C (nd_netCfg n) now par baseFee)\<lparr>VerkleRoot := root, GasUsed := getGasUsed rs\<rparr>) txs"
  show "nd_saving n1 \<noteq> None" if "privKey (nd_engine n) = Some key" "\<forall>h. SignHash C h key \<noteq> None"
    using Seal_total(1) [of e key C ?b0] that p by auto
  show "nd_saving n1 = nd_saving n" if "privKey (nd_engine n) = Some key" "\<forall>h. SignHash C h key = None"
    using Seal_total(2) [of e key C ?b0] that p by auto
qed

lemma commit_block_sel [simp]:
  "nd_locked (commit_block C J D R b rs n) = nd_locked n" "nd_saving (commit_block C J D R b rs n) = nd_saving n"
  by (simp_all add: commit_block_def Let_def CommitState_def)

lemma importBlock_lock:
  "importBlock E C J D R I b n = Some n' \<Longrightarrow> nd_locked n' = nd_locked n \<and> nd_saving n' = nd_saving n"
  by (auto simp: importBlock_def Let_def split: prod.splits option.splits engine_error.splits)

lemma other_steps_lock:
  "wait_end n = Some n' \<Longrightarrow> nd_locked n' = nd_locked n \<and> nd_saving n' = nd_saving n"
  "receive n = Some n' \<Longrightarrow> nd_locked n' = nd_locked n \<and> nd_saving n' = nd_saving n"
  "SubmitTx tx n = Some n' \<Longrightarrow> nd_locked n' = nd_locked n \<and> nd_saving n' = nd_saving n"
  by (auto simp: wait_end_def receive_def SubmitTx_def Let_def split: option.splits if_splits list.splits prod.splits)

text \<open>The lock is held exactly while a block is being persisted.\<close>

definition lock_ok :: "'d node \<Rightarrow> bool" where
  "lock_ok n \<longleftrightarrow> (nd_locked n \<longleftrightarrow> nd_saving n \<noteq> None)"

lemma lock_ok_step:
  assumes sign: "\<forall>h key. SignHash C h key \<noteq> None" and step: "node_step E C J D R n n'" and ok: "lock_ok n"
  shows "lock_ok n'"
  using step
proof (cases rule: node_step.cases)
  case (step_tick I W now)
  from step_tick(3) show ?thesis
  proof (cases rule: tick_cases)
    case (propose e key m)
    from processBatch_lock(1,2) [OF propose(2)] sign propose(1) have "nd_locked m" "nd_saving m \<noteq> None" by simp_all
    then show ?thesis by (simp add: lock_ok_def propose(3))
  next
    case wait
    then show ?thesis using ok by (simp add: lock_ok_def)
  qed
next
  case step_persist
  then show ?thesis by (auto simp: lock_ok_def persist_def)
qed (use ok in \<open>auto simp: lock_ok_def dest: importBlock_lock other_steps_lock\<close>)

lemma lock_ok_run:
  assumes "\<forall>h key. SignHash C h key \<noteq> None" "lock_ok n" "node_run E C J D R n m"
  shows "lock_ok m"
  using assms(3) by induction (use assms lock_ok_step in blast)+


text \<open>A lock that nothing will release.\<close>

definition stuck :: "'d node \<Rightarrow> bool" where
  "stuck n \<longleftrightarrow> nd_locked n \<and> nd_saving n = None"

lemma stuck_step:
  assumes "node_step E C J D R n n'" "stuck n"
  shows "stuck n' \<and> nd_bc n' = nd_bc n \<and> nd_state n' = nd_state n \<and> nd_sent n' = nd_sent n"
  using assms
  by (cases rule: node_step.cases)
    (auto simp: stuck_def wait_end_def receive_def SubmitTx_def Let_def split: option.splits if_splits list.splits prod.splits)

lemma stuck_run:
  assumes "node_run E C J D R n m" "stuck n"
  shows "stuck m \<and> nd_bc m = nd_bc n \<and> nd_state m = nd_state n \<and> nd_sent m = nd_sent n"
  using assms by induction (use stuck_step in fastforce)+

text \<open>C28. A failed seal stops the node for good: the production returns without releasing the
  lock, so from then on no step whatever changes the chain or the state or sends a
  block.\<close>

theorem failed_seal_freezes:
  assumes "privKey (nd_engine n) = Some key" "\<forall>h. SignHash C h key = None" "nd_saving n = None"
    and "processBatch E C J D R I W now batch n = Some n1" "node_run E C J D R n1 m"
  shows "nd_locked m \<and> nd_bc m = nd_bc n \<and> nd_state m = nd_state n1 \<and> nd_sent m = nd_sent n"
proof -
  have "stuck n1" using processBatch_lock(1,3) [OF assms(4)] assms(1-3) by (simp add: stuck_def)
  moreover have "nd_bc n1 = nd_bc n \<and> nd_sent n1 = nd_sent n"
    by (rule processBatch_cases [OF assms(4)]) (use calculation in \<open>auto simp: stuck_def split: prod.splits option.splits\<close>)
  ultimately show ?thesis using stuck_run [OF assms(5)] by (simp add: stuck_def)
qed

subsection \<open>Restarting\<close>

text \<open>Writing the batch of a commit touches only the tables of the state and of the code.\<close>

lemma commit_batch_keys:
  assumes "leveldb_ok D" "db_Write D d (commit_batch s) = Some d'" "\<forall>x. k \<noteq> StateKey x" "\<forall>h. k \<noteq> CodeKey h"
  shows "db_Get D d' (key_bytes k) = db_Get D d (key_bytes k)"
proof -
  have "\<not> same_bytes k (StateKey x)" "\<not> same_bytes k (CodeKey h)" for x h
    using assms(3,4) by (cases k; simp)+
  then have "map_of (rev (commit_batch s)) (key_bytes k) = None"
    by (auto simp: commit_batch_def map_of_eq_None_iff)
  then show ?thesis using db_Write_get [OF assms(1,2)] by (simp add: map_add_def)
qed

lemma commit_batch_reads:
  assumes "leveldb_ok D" "db_Write D d (commit_batch s) = Some d'"
  shows "ReadBlock J D d' h = ReadBlock J D d h" "ReadHeadBlockHash D d' = ReadHeadBlockHash D d"
    "ReadCanonicalHash D d' k = ReadCanonicalHash D d k"
  by (intro read_congs commit_batch_keys [OF assms]; simp)+

lemma commit_batch_chain:
  assumes "leveldb_ok D" "db_Write D (bc_db bc) (commit_batch s) = Some d'"
  shows "chain_ok C J D bc \<Longrightarrow> chain_ok C J D (bc\<lparr>bc_db := d'\<rparr>)"
    and "GetBlockByNumber J D (bc\<lparr>bc_db := d'\<rparr>) = GetBlockByNumber J D bc"
  by (simp_all add: chain_ok_def GetBlockByNumber_def commit_batch_reads [OF assms] fun_eq_iff Let_def split: option.splits)

text \<open>A block with another number leaves the index as it is.\<close>

lemma AddBlock_other_number:
  assumes "leveldb_ok D" "db_writable D" "codec_ok J" "AddBlock C J D bc b ro = (bc', None)"
    and "GetBlockByNumber J D bc m = Some g" "m \<noteq> big_Uint64 (Number (Header b))" "m \<noteq> eadBlock"
  shows "GetBlockByNumber J D bc' m = Some g"
  using AddBlock_reads [OF assms(1-4)] assms(5-7) by (auto simp: GetBlockByNumber_def Let_def split: if_splits)

text \<open>A block that became the head was stored without an error.\<close>

lemma AddBlock_new_head:
  assumes "currentBlock (fst (AddBlock C J D bc b rs)) = Some b" "currentBlock bc = Some cur" "b \<noteq> cur"
  shows "AddBlock C J D bc b rs = (fst (AddBlock C J D bc b rs), None)"
  using assms by (auto simp: AddBlock_def Let_def split: if_splits prod.splits option.splits)

text \<open>What persisting a stored block leaves on disk.\<close>

lemma commit_block_disk:
  assumes "leveldb_ok D" "db_writable D" "codec_ok J" "chain_ok C J D (nd_bc n)" "state_table_ok D (bc_db (nd_bc n))"
    and "base_inv D (bc_db (nd_bc n)) (nd_state n)" "currentBlock (nd_bc n) = Some cur" "b \<noteq> cur"
    and "currentBlock (nd_bc (commit_block C J D R b rs n)) = Some b"
    and "block_Hash C b \<noteq> 0" "big_Uint64 (Number (Header b)) \<noteq> eadBlock"
  shows "chain_ok C J D (nd_bc (commit_block C J D R b rs n))"
    and "GetBlockByNumber J D (nd_bc n) m = Some g \<Longrightarrow> m \<noteq> big_Uint64 (Number (Header b)) \<Longrightarrow> m \<noteq> eadBlock \<Longrightarrow>
      GetBlockByNumber J D (nd_bc (commit_block C J D R b rs n)) m = Some g"
    and "getVerkleValue (NewState D root (Some (bc_db (nd_bc (commit_block C J D R b rs n))))) = getVerkleValue (nd_state n)"
    and "state_table_ok D (bc_db (nd_bc (commit_block C J D R b rs n)))"
proof -
  let ?bc = "nd_bc n" and ?s = "nd_state n" and ?bc' = "nd_bc (commit_block C J D R b rs n)"
  obtain d1 where d1: "db_Write D (bc_db ?bc) (commit_batch ?s) = Some d1"
    using assms(2) unfolding db_writable_def by blast
  let ?bc1 = "?bc\<lparr>bc_db := d1\<rparr>"
  have bc': "?bc' = fst (AddBlock C J D ?bc1 b (Some rs))"
    by (simp add: commit_block_def CommitState_def Let_def write_batch_def d1)
  have add: "AddBlock C J D ?bc1 b (Some rs) = (?bc', None)"
    using AddBlock_new_head [of C J D ?bc1 b "Some rs"] assms(7-9) unfolding bc' by simp
  show "chain_ok C J D ?bc'"
    by (rule chain_ok_AddBlock [OF assms(1-3) commit_batch_chain(1) [OF assms(1) d1 assms(4)] add assms(10,11)])
  show "GetBlockByNumber J D ?bc' m = Some g"
    if "GetBlockByNumber J D ?bc m = Some g" "m \<noteq> big_Uint64 (Number (Header b))" "m \<noteq> eadBlock"
    using AddBlock_other_number [OF assms(1-3) add _ that(2,3)] that(1) commit_batch_chain(2) [OF assms(1) d1] by simp
  have inv: "statedb_ok ?s" "in_sync D (bc_db ?bc) ?s" using assms(6) by (simp_all add: base_inv_def)
  have t: "state_table_ok D d1" by (rule commit_batch_persisted(2) [OF assms(1) inv(1) d1 assms(5)])
  have same: "db_Get D (bc_db ?bc') (key_bytes (StateKey k)) = db_Get D d1 (key_bytes (StateKey k))" for k
    using AddBlock_persisted [OF assms(1,2) add] by simp
  show "getVerkleValue (NewState D root (Some (bc_db ?bc'))) = getVerkleValue ?s"
    using NewState_same_table [OF assms(1) t same] commit_persisted_reads [OF assms(1) inv d1] by simp
  show "state_table_ok D (bc_db ?bc')" using t by (simp add: state_table_ok_def same)
qed

text \<open>C4. A produced block survives a restart: once a node with sound chain and state has
  produced a block and persisted it, starting a node on its database comes up with that block as
  head and with the state the block was executed to.\<close>

theorem block_survives_restart:
  assumes env: "leveldb_ok D" "db_writable D" "codec_ok J" "evm_keeps E"
    and sound: "chain_ok C J D (nd_bc n)" "state_table_ok D (bc_db (nd_bc n))"
      "statedb_ok (nd_state n)" "parent (nd_state n) = None" "in_sync D (bc_db (nd_bc n)) (nd_state n)"
    and genesis: "GetBlockByNumber J D (nd_bc n) 0 = Some g" "block_Hash C g = n_GenesisHash (GetNetworkConfig (Network config))"
    and mined: "processBatch E C J D R I W now batch n = Some n1" "nd_saving n1 = Some (b, rs)" "nd_saving n = None"
    and stored: "currentBlock (nd_bc (persist C J D R n1)) = Some b" "block_Hash C b \<noteq> 0"
      "big_Uint64 (Number (Header b)) \<notin> {0, eadBlock}"
  shows "\<exists>k. Start C J D R devKey config (bc_db (nd_bc (persist C J D R n1))) = Inr k \<and>
    currentBlock (nd_bc k) = Some b \<and> getVerkleValue (nd_state k) = getVerkleValue (nd_state n1)"
proof (rule mined_block [OF mined])
  fix par baseFee txs e root s sig
  let ?h = "new_header C (nd_netCfg n) now par baseFee"
  assume p: "currentBlock (nd_bc n) = Some par"
    "ApplyBlock E C D (bc_db (nd_bc n)) R (node_executor J D n) I (nd_state n) ?h txs = Some (rs, root, s)"
    "b = NewBlock (sealed_header ?h root (getGasUsed rs) sig) txs"
    "n1 = n\<lparr>nd_engine := e, nd_state := s, nd_locked := True, nd_saving := Some (b, rs), nd_sent := nd_sent n @ [b]\<rparr>"
  have "base_inv D (bc_db (nd_bc n)) s"
    using ApplyBlock_inv [OF env(4) _ p(2)] sound(3-5) by (simp add: base_inv_def)
  then have inv: "base_inv D (bc_db (nd_bc n1)) (nd_state n1)" "nd_bc n1 = nd_bc n" by (simp_all add: p(4))
  have ne: "b \<noteq> par" unfolding p(3) by (auto simp: sealed_header_def new_header_def dest: arg_cong [of _ _ "\<lambda>b. Number (Header b)"])
  have bc: "nd_bc (persist C J D R n1) = nd_bc (commit_block C J D R b rs n1)" by (simp add: persist_def mined(2))
  note disk = commit_block_disk [OF env(1-3) _ _ inv(1) _ ne stored(1) [unfolded bc] stored(2), unfolded inv(2), OF sound(1,2) p(1)]
  let ?bc = "nd_bc (commit_block C J D R b rs n1)"
  have ok: "chain_ok C J D ?bc" "GetBlockByNumber J D ?bc 0 = Some g"
    "getVerkleValue (NewState D (VerkleRoot (Header b)) (Some (bc_db ?bc))) = getVerkleValue (nd_state n1)"
    using disk stored(3) genesis(1) by (auto simp: eadBlock_def)
  let ?cfg = "GetNetworkConfig (Network config)"
  let ?bc2 = "\<lparr>bc_db = bc_db ?bc, bc_config = ?cfg, currentBlock = Some b\<rparr>"
  have nb: "NewBlockchain C J D R (bc_db ?bc) ?cfg = Some ?bc2"
    using ok(1) stored(1) unfolding bc by (auto simp: chain_ok_def NewBlockchain_def Let_def)
  have "\<not> genesis_mismatch C J D ?cfg ?bc2"
    using ok(2) genesis(2) by (simp add: genesis_mismatch_def GetBlockByNumber_def Let_def split: if_splits)
  moreover have "start_state C D R ?cfg ?bc2 = (?bc2, NewState D (VerkleRoot (Header b)) (Some (bc_db ?bc)))"
    using stored(3) by (simp add: start_state_def Let_def)
  ultimately show ?thesis using nb ok(3) unfolding bc by (simp add: Start_def Let_def AddKey_def)
qed

subsection \<open>The check of the genesis\<close>

text \<open>The genesis header of a network on an empty database.\<close>

definition genesis_header :: "crypto \<Rightarrow> 'd leveldb \<Rightarrow> (vtree \<Rightarrow> hash) \<Rightarrow> 'd \<Rightarrow> string \<Rightarrow> header" where
  "genesis_header C D R d net =
     (Header (GenerateGenesisBlock (GetNetworkConfig net)))
       \<lparr>VerkleRoot := IntermediateRoot R (clear_dirty (genesis_state C D (GetNetworkConfig net) d))\<rparr>"

lemma Start_fresh:
  assumes "leveldb_ok D" "db_writable D" "codec_ok J" "\<forall>k. db_Get D d k = None"
    and "MarshalBlock J (NewBlock (genesis_header C D R d (Network config)) []) \<noteq> None"
    and "header_Hash C (Some (genesis_header C D R d (Network config))) \<noteq> 0"
  shows "(\<exists>n. Start C J D R devKey config d = Inr n) \<longleftrightarrow>
      header_Hash C (Some (genesis_header C D R d (Network config))) = n_GenesisHash (GetNetworkConfig (Network config))"
    and "(\<nexists>n. Start C J D R devKey config d = Inr n) \<Longrightarrow> Start C J D R devKey config d = Inl GenesisMismatch"
proof -
  let ?cfg = "GetNetworkConfig (Network config)"
  let ?g = "NewBlock (genesis_header C D R d (Network config)) []"
  have "ReadHeadBlockHash D d = 0" using assms(4) by (simp add: ReadHeadBlockHash_def)
  then obtain bc where bc: "NewBlockchain C J D R d ?cfg = Some bc" "currentBlock bc = Some ?g"
    using NewBlockchain_total [OF assms(2), of d C J R ?cfg] by (auto simp: genesis_header_def)
  have "GetBlockByNumber J D bc 0 = Some ?g"
    using NewBlockchain_found [OF assms(1-4) bc] assms(5,6) by simp
  then have "genesis_mismatch C J D ?cfg bc \<longleftrightarrow> header_Hash C (Some (Header ?g)) \<noteq> n_GenesisHash ?cfg"
    by (simp add: genesis_mismatch_def)
  then have "Start C J D R devKey config d \<noteq> Inl GenesisMismatch \<longleftrightarrow> header_Hash C (Some (Header ?g)) = n_GenesisHash ?cfg"
    "Start C J D R devKey config d = Inl GenesisMismatch \<or> (\<exists>n. Start C J D R devKey config d = Inr n)"
    using bc(1) by (simp_all add: Start_def Let_def split: prod.split)
  then show "(\<exists>n. Start C J D R devKey config d = Inr n) \<longleftrightarrow>
      header_Hash C (Some (genesis_header C D R d (Network config))) = n_GenesisHash ?cfg"
    and "(\<nexists>n. Start C J D R devKey config d = Inr n) \<Longrightarrow> Start C J D R devKey config d = Inl GenesisMismatch"
    by auto
qed

lemma GenesisHash_common: "n_GenesisHash (GetNetworkConfig net) = n_GenesisHash (GetNetworkConfig net')"
  by (simp add: GetNetworkConfig_def network_base_def Let_def)

text \<open>Not every network can be started from scratch: the configurations all expect the same genesis
  hash although the genesis headers of the main network and of the test network differ in
  the base fee, so unless the hashes of these two headers collide at least one of the two refuses to
  start on an empty database.\<close>

theorem one_genesis_hash:
  assumes "leveldb_ok D" "db_writable D" "codec_ok J" "\<forall>k. db_Get D d k = None"
    and codec: "\<forall>net \<in> {''mainnet'', ''testnet''}. MarshalBlock J (NewBlock (genesis_header C D R d net) []) \<noteq> None"
    and hash: "header_hash_inj C {genesis_header C D R d ''mainnet'', genesis_header C D R d ''testnet''}"
      "\<forall>net \<in> {''mainnet'', ''testnet''}. header_Hash C (Some (genesis_header C D R d net)) \<noteq> 0"
    and "Network c1 = ''mainnet''" "Network c2 = ''testnet''"
  shows "Start C J D R devKey c1 d = Inl GenesisMismatch \<or> Start C J D R devKey c2 d = Inl GenesisMismatch"
proof (rule ccontr)
  assume "\<not> ?thesis"
  then have ne: "Start C J D R devKey c1 d \<noteq> Inl GenesisMismatch" "Start C J D R devKey c2 d \<noteq> Inl GenesisMismatch" by blast+
  have h: "header_Hash C (Some (genesis_header C D R d (Network c))) \<noteq> 0"
    "MarshalBlock J (NewBlock (genesis_header C D R d (Network c)) []) \<noteq> None" if "c = c1 \<or> c = c2" for c
    using hash(2) codec that assms(8,9) by auto
  note f1 = Start_fresh [OF assms(1-4) h(2) [of c1] h(1) [of c1], simplified, of devKey]
    and f2 = Start_fresh [OF assms(1-4) h(2) [of c2] h(1) [of c2], simplified, of devKey]
  have "header_Hash C (Some (genesis_header C D R d (Network c1))) = n_GenesisHash (GetNetworkConfig (Network c1))"
    using f1 ne(1) by blast
  also have "\<dots> = n_GenesisHash (GetNetworkConfig (Network c2))" by (rule GenesisHash_common)
  also have "\<dots> = header_Hash C (Some (genesis_header C D R d (Network c2)))" using f2 ne(2) by metis
  finally have "header_Hash C (Some (genesis_header C D R d ''mainnet'')) = header_Hash C (Some (genesis_header C D R d ''testnet''))"
    unfolding assms(8,9) .
  then have "genesis_header C D R d ''mainnet'' = genesis_header C D R d ''testnet''"
    by (rule inj_onD [OF hash(1) [unfolded header_hash_inj_def]]) (rule insertI1, rule insertI2, rule insertI1)
  then have "BaseFee (genesis_header C D R d ''mainnet'') = BaseFee (genesis_header C D R d ''testnet'')" by simp
  then show False by (simp add: genesis_header_def GenerateGenesisBlock_def GetNetworkConfig_def network_base_def Let_def)
qed

subsection \<open>Witnesses\<close>

text \<open>An empty block is produced from any state.\<close>

lemma ApplyBlock_empty:
  "ApplyBlock E C D d R e I s h [] =
     (let s' = AddBalanceReward (Keccak C) s (Coinbase h) 10000000000000000000
      in Some ([], IntermediateRoot R s', s'))"
  by (simp add: ApplyBlock_def Let_def schedule_def schedule_loop.simps block_start_def u256_MustFromBig_def u256_FromBig_def)

lemma processBatch_empty:
  fixes n :: "'d node" and C :: crypto and R :: "vtree \<Rightarrow> hash" and now :: uint64
  assumes "currentBlock (nd_bc n) = Some par" "CalcBaseFee (ChainConfigOf (nd_netCfg n)) (Header par) = Some fee"
    and "W [] = []" "privKey (nd_engine n) = Some key"
  defines "s \<equiv> AddBalanceReward (Keccak C) (nd_state n) (n_Coinbase (nd_netCfg n)) 10000000000000000000"
  defines "h \<equiv> (new_header C (nd_netCfg n) now par fee)\<lparr>VerkleRoot := IntermediateRoot R s\<rparr>"
  assumes "SignHash C (header_Hash C (Some h)) key = Some sig"
  shows "processBatch E C J D R I W now [] n = Some (n\<lparr>nd_state := s, nd_locked := True,
      nd_saving := Some (NewBlock (h\<lparr>ExtraData := sig\<rparr>) [], []), nd_sent := nd_sent n @ [NewBlock (h\<lparr>ExtraData := sig\<rparr>) []]\<rparr>)"
proof -
  have h: "(new_header C (nd_netCfg n) now par fee)\<lparr>VerkleRoot := IntermediateRoot R s, GasUsed := getGasUsed []\<rparr> = h"
    "ExtraData h = []" "Coinbase (new_header C (nd_netCfg n) now par fee) = n_Coinbase (nd_netCfg n)"
    by (simp_all add: h_def new_header_def getGasUsed_def)
  have hh: "h\<lparr>ExtraData := []\<rparr> = h" using h(2) by (cases h) simp
  have "Seal C (nd_engine n) (NewBlock h []) = (NewBlock (h\<lparr>ExtraData := sig\<rparr>) [], None)"
    using assms(4,7) h(2) by (simp add: Seal_def Let_def NewBlock_def block_Hash_def hh)
  then show ?thesis
    using assms(1-3) h unfolding processBatch_def Let_def valid_txs_def
    by (simp add: ApplyBlock_empty Let_def s_def [symmetric])
qed

lemma IntermediateRoot_zero: "IntermediateRoot (\<lambda>_. 0) s = 0"
  by (induction s) (auto split: option.splits)

text \<open>A node on a chain that holds its genesis block only.\<close>

definition demo_gen :: block where
  "demo_gen = NewBlock ((demo_header [])\<lparr>Number := 0\<rparr>) []"

definition gen_crypto :: crypto where
  "gen_crypto = toy_crypto\<lparr>Keccak := toy_hash(toy_encode (Header demo_gen) := n_GenesisHash demo_net)\<rparr>"

definition demo_bc :: "(bytes \<times> bytes) list blockchain" where
  "demo_bc = \<lparr>bc_db = [(key_bytes HeadBlockKey, hash_Bytes (n_GenesisHash demo_net)),
       (key_bytes (CanonicalKey 0), hash_Bytes (n_GenesisHash demo_net)),
       (key_bytes (BlockKey (n_GenesisHash demo_net)), [0])],
     bc_config = demo_net, currentBlock = Some demo_gen\<rparr>"

definition demo_node :: "engine \<Rightarrow> (bytes \<times> bytes) list node" where
  "demo_node e = \<lparr>nd_bc = demo_bc, nd_state = NewState mem_db 0 None, nd_engine = e, nd_netCfg = demo_net,
     nd_keystore = [(2, 2)], nd_txCh = [], nd_pool = [], nd_waiting = None, nd_locked = False, nd_saving = None,
     nd_sent = [], nd_round = 0\<rparr>"

definition demo_next :: header where
  "demo_next = new_header gen_crypto demo_net 5 demo_gen 1000000000"

definition demo_mined :: block where
  "demo_mined = NewBlock (demo_next\<lparr>ExtraData := hash_Bytes 2 @ hash_Bytes (header_Hash gen_crypto (Some demo_next)) @ [0]\<rparr>) []"

definition demo_paid :: statedb where
  "demo_paid = AddBalanceReward (Keccak gen_crypto) (NewState mem_db 0 None) (n_Coinbase demo_net) 10000000000000000000"

definition demo_after :: "engine \<Rightarrow> (bytes \<times> bytes) list node" where
  "demo_after e = (demo_node e)\<lparr>nd_state := demo_paid, nd_locked := True, nd_saving := Some (demo_mined, []), nd_sent := [demo_mined]\<rparr>"

abbreviation mined_codec :: codec where
  "mined_codec \<equiv> toy_codec demo_gen demo_mined"

lemma demo_fee: "CalcBaseFee (ChainConfigOf demo_net) (Header demo_gen) = Some 1000000000"
  by (simp add: CalcBaseFee_def ChainConfigOf_def demo_gen_def demo_header_def big_Uint64_def)

lemma gen_SignHash [simp]: "SignHash gen_crypto h k = Some (hash_Bytes k @ hash_Bytes h @ [0])"
  by (simp add: gen_crypto_def toy_crypto_def)

lemma gen_PrivToAddr [simp]: "PrivToAddr gen_crypto 2 = 2"
  by (simp add: gen_crypto_def toy_crypto_def)

lemma demo_node_sel [simp]:
  "nd_bc (demo_node e) = demo_bc" "nd_netCfg (demo_node e) = demo_net" "nd_engine (demo_node e) = e"
  "nd_state (demo_node e) = NewState mem_db 0 None" "nd_sent (demo_node e) = []" "nd_saving (demo_node e) = None"
  "nd_locked (demo_node e) = False" "nd_pool (demo_node e) = []" "nd_waiting (demo_node e) = None"
  "currentBlock demo_bc = Some demo_gen" "nd_saving (demo_after e) = Some (demo_mined, [])" "nd_locked (demo_after e)"
  by (simp_all add: demo_node_def demo_bc_def demo_after_def)

lemma demo_processed:
  assumes "privKey e = Some 2"
  shows "processBatch demo_evm gen_crypto J mem_db (\<lambda>_. 0) I (\<lambda>txs. txs) 5 [] (demo_node e) = Some (demo_after e)"
proof -
  have next_root: "(new_header gen_crypto demo_net 5 demo_gen 1000000000)\<lparr>VerkleRoot := 0\<rparr> = demo_next"
    by (simp add: demo_next_def new_header_def)
  show ?thesis
    using processBatch_empty [where n = "demo_node e" and par = demo_gen and fee = 1000000000 and W = "\<lambda>txs. txs" and key = 2
        and C = gen_crypto and now = 5 and R = "\<lambda>_. 0" and E = demo_evm and J = J and D = mem_db and I = I
        and sig = "hash_Bytes 2 @ hash_Bytes (header_Hash gen_crypto (Some demo_next)) @ [0]"] demo_fee assms
    by (simp add: IntermediateRoot_zero next_root demo_after_def demo_paid_def demo_mined_def)
qed

lemma gen_sign: "sign_ok gen_crypto" "\<forall>h key. SignHash gen_crypto h key \<noteq> None"
  using sign_ok_toy by (simp_all add: sign_ok_def gen_crypto_def toy_crypto_def)

lemma toy_encode_length: "length (toy_encode h) = 49 + length (ExtraData h)"
  by (simp add: toy_encode_def)

lemma demo_engine_leads: "fst (GetLeader gen_crypto demo_engine 1) = Some 2"
proof -
  have "toy_encode (Header demo_gen) \<noteq> [1]"
    using toy_encode_length [of "Header demo_gen"] by auto
  then have "Keccak gen_crypto (bytes_of_nat 1) = Keccak toy_crypto (bytes_of_nat 1)"
    by (simp add: gen_crypto_def bytes_of_nat.simps)
  then have "fst (GetLeader gen_crypto demo_engine 1) = fst (GetLeader toy_crypto demo_engine 1)"
    by (simp add: GetLeader_def view_target_def Let_def split: option.split)
  then show ?thesis using demo_leader by simp
qed

lemma demo_tick:
  "tick demo_evm gen_crypto J mem_db (\<lambda>_. 0) I (\<lambda>txs. txs) 5 (demo_node demo_engine)
     = Some (demo_after (snd (GetLeader gen_crypto demo_engine 1)))"
proof -
  have "SyncValidators (Some (GetState (Keccak gen_crypto) (NewState mem_db 0 None))) demo_engine = Some (None, demo_engine)"
    by (simp add: SyncValidators_def GetState_def fresh_reads Let_def hash_Big_def)
  moreover have "big_Uint64 (Number (Header demo_gen) + 1) = 1" by (simp add: demo_gen_def big_Uint64_def)
  ultimately have "tick_leader gen_crypto (demo_node demo_engine) = Some (Some 2, snd (GetLeader gen_crypto demo_engine 1))"
    using demo_engine_leads by (simp add: tick_leader_def prod_eq_iff)
  moreover have key: "privKey (snd (GetLeader gen_crypto demo_engine 1)) = Some 2"
    using GetLeader_engine(3) demo_key(1) by (metis prod.collapse)
  moreover have "(demo_node demo_engine)\<lparr>nd_engine := e, nd_pool := []\<rparr> = demo_node e" "(demo_after e)\<lparr>nd_round := 0\<rparr> = demo_after e" for e
    by (simp_all add: demo_node_def demo_after_def)
  ultimately show ?thesis
    by (simp add: tick_def demo_processed [OF key])
qed


theorem produced_block_valid_witness:
  "\<exists>par. currentBlock (nd_bc (demo_node demo_engine)) = Some par \<and> ParentHash (Header demo_mined) = block_Hash gen_crypto par \<and>
     Number (Header demo_mined) = Number (Header par) + 1"
proof -
  have "interleavings gen_crypto (node_executor demo_codec mem_db (demo_node demo_engine)) (Transactions demo_mined) (\<lambda>_. [])"
    by (simp add: interleavings_def demo_mined_def schedule_def schedule_loop.simps Let_def)
  with produced_block_valid [OF _ demo_processed [OF demo_key(1)], of demo_mined "[]" demo_codec] show ?thesis by auto
qed


theorem failed_seal_freezes_witness:
  "\<exists>n1. processBatch demo_evm (gen_crypto\<lparr>SignHash := \<lambda>h k. None\<rparr>) demo_codec mem_db (\<lambda>_. 0) (\<lambda>_. []) (\<lambda>txs. txs) 5 []
      (demo_node demo_engine) = Some n1 \<and> nd_locked n1 \<and> nd_saving n1 = None"
proof -
  let ?C = "gen_crypto\<lparr>SignHash := \<lambda>h k. None\<rparr>"
  obtain n1 where n1: "processBatch demo_evm ?C demo_codec mem_db (\<lambda>_. 0) (\<lambda>_. []) (\<lambda>txs. txs) 5 [] (demo_node demo_engine) = Some n1"
    "nd_saving n1 = None"
    using demo_fee by (simp add: processBatch_def Let_def valid_txs_def ApplyBlock_empty Seal_def demo_key)
  from failed_seal_freezes [OF _ _ _ n1(1) run_refl] demo_key(1) have "nd_locked n1" by simp
  with n1 show ?thesis by blast
qed

lemma demo_hash_new:
  "block_Hash gen_crypto demo_gen = n_GenesisHash demo_net" "n_GenesisHash demo_net \<noteq> 0"
  "block_Hash gen_crypto demo_mined \<noteq> 0" "block_Hash gen_crypto demo_mined \<noteq> n_GenesisHash demo_net"
proof -
  have e: "EncodeHeader gen_crypto = toy_encode" by (simp add: gen_crypto_def toy_crypto_def)
  show "block_Hash gen_crypto demo_gen = n_GenesisHash demo_net"
    by (simp add: block_Hash_def header_Hash_Some e) (simp add: gen_crypto_def)
  have g: "n_GenesisHash demo_net = 0x8cdc37cd690b6c953ea305b357eba4b443a844932e6bf99ccc06f659e6e10b5a"
    by (simp add: demo_net_def GetNetworkConfig_def network_base_def Let_def hex_eval HexToHash_def BytesToHash_def)
  then show "n_GenesisHash demo_net \<noteq> 0" by simp
  let ?x = "toy_encode (Header demo_mined)"
  have len: "length ?x = 114" by (simp add: toy_encode_length demo_mined_def)
  have "length (toy_encode (Header demo_gen)) = 49" by (simp add: toy_encode_length demo_gen_def demo_header_def)
  then have ne: "?x \<noteq> toy_encode (Header demo_gen)" using len by auto
  then have h: "block_Hash gen_crypto demo_mined = toy_hash ?x"
    by (simp add: block_Hash_def header_Hash_Some e) (simp add: gen_crypto_def)
  show "block_Hash gen_crypto demo_mined \<noteq> 0"
    using toy_hash_nonzero [of ?x] len unfolding h by fastforce
  have "unat (toy_hash ?x) mod 65536 = 114" using toy_hash_unat [of ?x] len by simp
  then show "block_Hash gen_crypto demo_mined \<noteq> n_GenesisHash demo_net"
    unfolding h g by auto
qed

lemma demo_bc_ok:
  "chain_ok gen_crypto mined_codec mem_db demo_bc" "state_table_ok mem_db (bc_db demo_bc)"
  "in_sync mem_db (bc_db demo_bc) (NewState mem_db 0 None)" "GetBlockByNumber mined_codec mem_db demo_bc 0 = Some demo_gen"
proof -
  have r: "ReadHeadBlockHash mem_db (bc_db demo_bc) = n_GenesisHash demo_net"
    "ReadCanonicalHash mem_db (bc_db demo_bc) 0 = n_GenesisHash demo_net"
    "ReadBlock mined_codec mem_db (bc_db demo_bc) (n_GenesisHash demo_net) = Some demo_gen"
    by (simp_all add: ReadHeadBlockHash_def ReadCanonicalHash_def ReadBlock_def demo_bc_def eadBlock_def toy_codec_def)
  show "chain_ok gen_crypto mined_codec mem_db demo_bc" "GetBlockByNumber mined_codec mem_db demo_bc 0 = Some demo_gen"
    using demo_hash_new(1,2) r by (simp_all add: chain_ok_def GetBlockByNumber_def)
  have none: "db_Get mem_db (bc_db demo_bc) (key_bytes (StateKey k)) = None" for k by (simp add: demo_bc_def)
  show "state_table_ok mem_db (bc_db demo_bc)" using none by (simp add: state_table_ok_def)
  show "in_sync mem_db (bc_db demo_bc) (NewState mem_db 0 None)"
    using none by (simp add: in_sync_def persisted_def fresh_reads)
qed

lemma demo_stored:
  "currentBlock (nd_bc (persist gen_crypto mined_codec mem_db (\<lambda>_. 0) (demo_after e))) = Some demo_mined"
proof -
  let ?s = "nd_state (demo_after e)" and ?bc = "nd_bc (demo_after e)"
  obtain d1 where d1: "db_Write mem_db (bc_db ?bc) (commit_batch ?s) = Some d1"
    using db_writable_mem unfolding db_writable_def by blast
  have bc: "?bc = demo_bc" by (simp add: demo_after_def)
  have "ReadBlock mined_codec mem_db d1 (block_Hash gen_crypto demo_mined) = ReadBlock mined_codec mem_db (bc_db demo_bc) (block_Hash gen_crypto demo_mined)"
    by (rule commit_batch_reads(1) [OF leveldb_ok_mem d1 [unfolded bc]])
  also have "\<dots> = None" using demo_hash_new(4) by (simp add: ReadBlock_def demo_bc_def)
  finally have new: "ReadBlock mined_codec mem_db d1 (block_Hash gen_crypto demo_mined) = None" .
  have num: "Number (Header demo_mined) = 1" "Number (Header demo_gen) = 0"
    by (simp_all add: demo_mined_def demo_next_def new_header_def demo_gen_def)
  have m: "MarshalBlock mined_codec demo_mined \<noteq> None" "Transactions demo_mined = []" "MarshalReceipts mined_codec [] = Some []"
    by (simp_all add: toy_codec_def demo_mined_def)
  have "currentBlock (fst (AddBlock gen_crypto mined_codec mem_db (demo_bc\<lparr>bc_db := d1\<rparr>) demo_mined (Some []))) = Some demo_mined"
    using m new num
    by (auto simp: AddBlock_def writeBlockData_def WriteBlock_def WriteReceipts_def WriteTxLookupEntries_def Let_def)
  then show ?thesis
    using d1 by (simp add: persist_def commit_block_def CommitState_def Let_def write_batch_def bc)
qed

theorem block_survives_restart_witness:
  "\<exists>k. Start gen_crypto mined_codec mem_db (\<lambda>_. 0) 2 DefaultConfig
      (bc_db (nd_bc (persist gen_crypto mined_codec mem_db (\<lambda>_. 0) (demo_after demo_engine)))) = Inr k \<and>
    currentBlock (nd_bc k) = Some demo_mined \<and> getVerkleValue (nd_state k) = getVerkleValue demo_paid"
proof -
  have num: "big_Uint64 (Number (Header demo_mined)) \<notin> {0, eadBlock}"
    by (simp add: demo_mined_def demo_next_def new_header_def demo_gen_def big_Uint64_def eadBlock_def)
  have net: "block_Hash gen_crypto demo_gen = n_GenesisHash (GetNetworkConfig (Network DefaultConfig))"
    using demo_hash_new(1) by (simp add: demo_net_def DefaultConfig_def)
  have st: "statedb_ok (nd_state (demo_node demo_engine))" "parent (nd_state (demo_node demo_engine)) = None"
    by (simp_all add: NewState_None_ok) (simp add: NewState_def)
  have "nd_state (demo_after demo_engine) = demo_paid" by (simp add: demo_after_def)
  with block_survives_restart [OF leveldb_ok_mem db_writable_mem codec_ok_toy evm_keeps_demo _ _ st _ _ net
      demo_processed [OF demo_key(1)] _ _ demo_stored demo_hash_new(3) num] demo_bc_ok
  show ?thesis by simp
qed

text \<open>A hash that tells the two genesis headers apart, and a codec that writes every block.\<close>

definition fee_crypto :: crypto where
  "fee_crypto = toy_crypto\<lparr>EncodeHeader := \<lambda>h. case BaseFee h of None \<Rightarrow> [1] | Some _ \<Rightarrow> [1, 2]\<rparr>"

theorem one_genesis_hash_witness:
  "\<exists>J. Start fee_crypto J mem_db (\<lambda>_. 0) 2 (DefaultConfig\<lparr>Network := ''mainnet''\<rparr>) [] = Inl GenesisMismatch \<or>
     Start fee_crypto J mem_db (\<lambda>_. 0) 2 (DefaultConfig\<lparr>Network := ''testnet''\<rparr>) [] = Inl GenesisMismatch"
proof -
  let ?h = "genesis_header fee_crypto mem_db (\<lambda>_. 0) []"
  let ?J = "toy_codec (NewBlock (?h ''mainnet'') []) (NewBlock (?h ''testnet'') [])"
  have fee: "BaseFee (?h ''mainnet'') = Some 1000000000" "BaseFee (?h ''testnet'') = None"
    by (simp_all add: genesis_header_def GenerateGenesisBlock_def GetNetworkConfig_def network_base_def Let_def)
  then have hs: "header_Hash fee_crypto (Some (?h ''mainnet'')) = toy_hash [1, 2]"
    "header_Hash fee_crypto (Some (?h ''testnet'')) = toy_hash [1]"
    by (simp_all add: header_Hash_Some fee_crypto_def)
  have ne: "toy_hash [1, 2] \<noteq> toy_hash [1]" "toy_hash [1, 2] \<noteq> 0" "toy_hash [1] \<noteq> 0"
    using toy_hash_length [of "[1, 2]" "[1]"] toy_hash_nonzero by auto
  have inj: "header_hash_inj fee_crypto {?h ''mainnet'', ?h ''testnet''}"
    unfolding header_hash_inj_def by (rule inj_onI) (use hs ne in auto)
  have "Start fee_crypto ?J mem_db (\<lambda>_. 0) 2 (DefaultConfig\<lparr>Network := ''mainnet''\<rparr>) [] = Inl GenesisMismatch \<or>
     Start fee_crypto ?J mem_db (\<lambda>_. 0) 2 (DefaultConfig\<lparr>Network := ''testnet''\<rparr>) [] = Inl GenesisMismatch"
    by (rule one_genesis_hash [OF leveldb_ok_mem db_writable_mem codec_ok_toy _ _ inj])
      (simp_all add: toy_codec_def hs ne)
  then show ?thesis by blast
qed

end
