(* ===== verification/P2P.thy ===== *)
theory P2P
  imports NodeCorrect
begin

text \<open>
  \<open>p2p/message.go\<close>, \<open>p2p/peer.go\<close>, \<open>p2p/server.go\<close>: peers, their messages and
  the server that ties them to the chain.

  A peer is the record \<open>peer\<close>: its send buffer, the rate limiter of its read loop, what it
  told about its head, and the progress of its two goroutines.  The server holds the set of connected
  peers, all peer objects ever made (a goroutine keeps using its peer after the peer has left the set)
  and the peer lock with its holder.  The chain is the one of the node, which is passed along; the block
  handler registered by the node is an argument.  RLP is the parameter \<open>wire\<close>; connections are
  represented by the envelopes written to them and by the choice whether a read or write
  succeeds.  A result \<open>None\<close> is a panic.

  \<open>net_step\<close> interleaves the goroutines of all peers with the loop of the node.  Removing a peer
  takes the peer lock and then waits for both loops of the peer to return, so it is split into
  the steps before, inside and after the critical section.
\<close>

subsection \<open>Messages\<close>

record StatusMsg =
  ProtocolVersion :: "32 word"
  NetworkID :: uint64
  st_GenesisHash :: hash
  st_HeadHash :: hash
  st_HeadNumber :: uint64
  st_Challenge :: bytes

record GetBlocksMsg =
  StartHash :: hash
  Limit :: uint64

record AuthMsg =
  Signature :: bytes
  PublicKey :: bytes

datatype msg = Status StatusMsg | NewBlockMsg block | GetBlocks GetBlocksMsg | BlocksMsg "block list" | Auth AuthMsg

definition MsgStatus :: uint64 where "MsgStatus = 0"
definition MsgNewBlock :: uint64 where "MsgNewBlock = 1"
definition MsgGetBlocks :: uint64 where "MsgGetBlocks = 2"
definition MsgBlocks :: uint64 where "MsgBlocks = 3"
definition MsgAuth :: uint64 where "MsgAuth = 4"

lemmas msg_codes = MsgStatus_def MsgNewBlock_def MsgGetBlocks_def MsgBlocks_def MsgAuth_def

text \<open>The RLP encoding of the messages and what decoding promises.\<close>

record wire =
  EncodeMsg :: "msg \<Rightarrow> bytes option"
  DecodeStatus :: "bytes \<Rightarrow> StatusMsg option"
  DecodeNewBlock :: "bytes \<Rightarrow> block option"
  DecodeGetBlocks :: "bytes \<Rightarrow> GetBlocksMsg option"
  DecodeBlocks :: "bytes \<Rightarrow> block list option"
  DecodeAuth :: "bytes \<Rightarrow> AuthMsg option"

definition wire_ok :: "wire \<Rightarrow> bool" where
  "wire_ok X \<longleftrightarrow>
     (\<forall>m d. EncodeMsg X (Status m) = Some d \<longrightarrow> DecodeStatus X d = Some m) \<and>
     (\<forall>b d. EncodeMsg X (NewBlockMsg b) = Some d \<longrightarrow> DecodeNewBlock X d = Some b) \<and>
     (\<forall>m d. EncodeMsg X (GetBlocks m) = Some d \<longrightarrow> DecodeGetBlocks X d = Some m) \<and>
     (\<forall>bs d. EncodeMsg X (BlocksMsg bs) = Some d \<longrightarrow> DecodeBlocks X d = Some bs) \<and>
     (\<forall>m d. EncodeMsg X (Auth m) = Some d \<longrightarrow> DecodeAuth X d = Some m)"

subsection \<open>Text\<close>

text \<open>The verb \<open>%d\<close> for a number that is not negative, and \<open>common.Hash.Hex\<close>.\<close>

fun show_nat :: "nat \<Rightarrow> string" where
  "show_nat n = (if n < 10 then [char_of (48 + n)] else show_nat (n div 10) @ [char_of (48 + n mod 10)])"

declare show_nat.simps [simp del]

definition hex_digit :: "nat \<Rightarrow> char" where
  "hex_digit n = (if n < 10 then char_of (48 + n) else char_of (87 + n))"

definition hash_Hex :: "hash \<Rightarrow> string" where
  "hash_Hex h = ''0x'' @ concat (map (\<lambda>b. [hex_digit (unat b div 16), hex_digit (unat b mod 16)]) (hash_Bytes h))"

subsection \<open>Peers\<close>

text \<open>
  Where a goroutine of a peer is: in its loop, before the peer lock in \<open>RemovePeer\<close>, inside
  \<open>RemovePeer\<close> waiting for the loops, or returned.  The flag says whether the loop ends after
  \<open>RemovePeer\<close> or goes on.
\<close>

datatype loop_state = Looping | AtLock bool | Removing bool | Returned

record peer =
  p_outbound :: bool
  p_sendCh :: "msg list"
  p_quit :: bool
  p_HeadHash :: string
  p_HeadNumber :: uint64
  p_Challenge :: bytes
  p_IsTrusted :: bool
  p_lastMsgTime :: int
  p_msgsThisSec :: int
  p_read :: loop_state
  p_write :: loop_state
  p_out :: "(uint64 \<times> bytes) list"

definition NewPeer :: "bool \<Rightarrow> int \<Rightarrow> peer" where
  "NewPeer outbound now = \<lparr>p_outbound = outbound, p_sendCh = [], p_quit = False, p_HeadHash = '''', p_HeadNumber = 0,
     p_Challenge = [], p_IsTrusted = False, p_lastMsgTime = now, p_msgsThisSec = 0, p_read = Looping, p_write = Looping,
     p_out = []\<rparr>"

text \<open>
  A full buffer drops the message.  After \<open>quitCh\<close> was closed the connection is closed as well, and
  the message is not kept.
\<close>

definition Send :: "msg \<Rightarrow> peer \<Rightarrow> peer" where
  "Send m p = (if p_quit p then p else if length (p_sendCh p) < 100 then p\<lparr>p_sendCh := p_sendCh p @ [m]\<rparr> else p)"

text \<open>The rate limiter of the read loop, for a message that arrives at \<open>now\<close> (nanoseconds).\<close>

definition rate_update :: "int \<Rightarrow> peer \<Rightarrow> peer" where
  "rate_update now p =
     (let p1 = (if now - p_lastMsgTime p > 1000000000 then p\<lparr>p_lastMsgTime := now, p_msgsThisSec := 0\<rparr> else p)
      in p1\<lparr>p_msgsThisSec := p_msgsThisSec p1 + 1\<rparr>)"

definition rate_limit :: "peer \<Rightarrow> int" where
  "rate_limit p = (if p_IsTrusted p then 10000 else 100)"

text \<open>The code of a message; authentication messages have no case in the write loop.\<close>

fun msg_code :: "msg \<Rightarrow> uint64 option" where
  "msg_code (Status _) = Some MsgStatus"
| "msg_code (NewBlockMsg _) = Some MsgNewBlock"
| "msg_code (GetBlocks _) = Some MsgGetBlocks"
| "msg_code (BlocksMsg _) = Some MsgBlocks"
| "msg_code (Auth _) = None"

text \<open>One round of the write loop; \<open>ok\<close> tells whether the connection takes the envelope.\<close>

definition write_round :: "wire \<Rightarrow> bool \<Rightarrow> peer \<Rightarrow> peer option" where
  "write_round X ok p =
     (case p_sendCh p of
        [] \<Rightarrow> None
      | m # ms \<Rightarrow>
          (let p1 = p\<lparr>p_sendCh := ms\<rparr> in
           case msg_code m of
             None \<Rightarrow> Some p1
           | Some mc \<Rightarrow>
               (case EncodeMsg X m of
                  None \<Rightarrow> Some p1
                | Some payload \<Rightarrow>
                    Some (if ok then p1\<lparr>p_out := p_out p1 @ [(mc, payload)]\<rparr>
                          else p1\<lparr>p_write := AtLock True\<rparr>))))"

subsection \<open>The server\<close>

datatype loop = ReadLoop | WriteLoop

datatype holder = InRemove nat loop | InStop

record server =
  s_peers :: "nat list"
  s_obj :: "nat \<Rightarrow> peer option"
  s_lock :: "holder option"
  s_stopping :: "nat list"

definition NewServer :: server where
  "NewServer = \<lparr>s_peers = [], s_obj = (\<lambda>_. None), s_lock = None, s_stopping = []\<rparr>"

definition upd_peer :: "nat \<Rightarrow> (peer \<Rightarrow> peer) \<Rightarrow> server \<Rightarrow> server" where
  "upd_peer i f s = s\<lparr>s_obj := (s_obj s)(i := map_option f (s_obj s i))\<rparr>"

definition status_msg :: "crypto \<Rightarrow> 'd blockchain \<Rightarrow> block \<Rightarrow> bytes \<Rightarrow> StatusMsg" where
  "status_msg C bc current challenge = \<lparr>ProtocolVersion = 1, NetworkID = big_Uint64 (n_ChainID (bc_config bc)),
     st_GenesisHash = n_GenesisHash (bc_config bc), st_HeadHash = block_Hash C current,
     st_HeadNumber = big_Uint64 (Number (Header current)), st_Challenge = challenge\<rparr>"

definition setupPeer :: "crypto \<Rightarrow> nat \<Rightarrow> bool \<Rightarrow> int \<Rightarrow> 'd node \<Rightarrow> server \<Rightarrow> server option" where
  "setupPeer C i outbound now n s =
     (let s1 = s\<lparr>s_peers := s_peers s @ [i], s_obj := (s_obj s)(i \<mapsto> NewPeer outbound now)\<rparr> in
      case currentBlock (nd_bc n) of
        None \<Rightarrow> None
      | Some current \<Rightarrow>
          (let challenge = bytes_of_string (''CHALLENGE_'' @ show_nat (nat now));
               s2 = upd_peer i (\<lambda>p. p\<lparr>p_Challenge := challenge\<rparr>) s1
           in Some (upd_peer i (Send (Status (status_msg C (nd_bc n) current challenge))) s2)))"

definition BroadcastBlock :: "block \<Rightarrow> server \<Rightarrow> server" where
  "BroadcastBlock b s = fold (\<lambda>i. upd_peer i (Send (NewBlockMsg b))) (s_peers s) s"

definition PeerCount :: "server \<Rightarrow> nat" where
  "PeerCount s = length (s_peers s)"

subsection \<open>Handlers\<close>

text \<open>
  A handler gives the server and the node afterwards and whether it called \<open>RemovePeer\<close>.
  \<open>recv\<close> is the registered block handler.
\<close>

type_synonym 'd recv = "(block \<Rightarrow> 'd node \<Rightarrow> 'd node option) option"

definition on_block :: "'d recv \<Rightarrow> block \<Rightarrow> 'd node \<Rightarrow> 'd node option" where
  "on_block recv b n = (case recv of None \<Rightarrow> Some n | Some f \<Rightarrow> f b n)"

definition handleStatus ::
    "crypto \<Rightarrow> nat \<Rightarrow> StatusMsg \<Rightarrow> server \<Rightarrow> 'd node \<Rightarrow> (server \<times> 'd node \<times> bool) option" where
  "handleStatus C i m s n =
     (let cfg = bc_config (nd_bc n) in
      if st_GenesisHash m \<noteq> n_GenesisHash cfg \<or> NetworkID m \<noteq> big_Uint64 (n_ChainID cfg) then Some (s, n, True)
      else
        (let s1 = upd_peer i (\<lambda>p. p\<lparr>p_HeadHash := hash_Hex (st_HeadHash m), p_HeadNumber := st_HeadNumber m\<rparr>) s in
         case currentBlock (nd_bc n) of
           None \<Rightarrow> None
         | Some head \<Rightarrow>
             (let current = big_Uint64 (Number (Header head)) in
              if st_HeadNumber m > current
              then Some (upd_peer i (Send (GetBlocks \<lparr>StartHash = block_Hash C head, Limit = 100\<rparr>)) s1, n, False)
              else Some (s1, n, False))))"

definition handleNewBlock ::
    "crypto \<Rightarrow> codec \<Rightarrow> 'd leveldb \<Rightarrow> 'd recv \<Rightarrow> block \<Rightarrow> 'd node \<Rightarrow> 'd node option" where
  "handleNewBlock C J D recv b n =
     (if GetBlockByHash J D (nd_bc n) (block_Hash C b) \<noteq> None then Some n else on_block recv b n)"

text \<open>The blocks of the index from \<open>number\<close> on, up to the first gap.\<close>

primrec blocks_from :: "codec \<Rightarrow> 'd leveldb \<Rightarrow> 'd blockchain \<Rightarrow> uint64 \<Rightarrow> nat \<Rightarrow> block list" where
  "blocks_from J D bc number 0 = []"
| "blocks_from J D bc number (Suc k) =
     (case GetBlockByNumber J D bc number of
        None \<Rightarrow> []
      | Some b \<Rightarrow> b # blocks_from J D bc (number + 1) k)"

definition handleGetBlocks ::
    "codec \<Rightarrow> 'd leveldb \<Rightarrow> nat \<Rightarrow> GetBlocksMsg \<Rightarrow> 'd node \<Rightarrow> server \<Rightarrow> server" where
  "handleGetBlocks J D i m n s =
     (let blocks = (case GetBlockByHash J D (nd_bc n) (StartHash m) of
                      None \<Rightarrow> []
                    | Some startBlock \<Rightarrow>
                        (let startNum = big_Uint64 (Number (Header startBlock))
                         in blocks_from J D (nd_bc n) (startNum + 1) (unat (Limit m))))
      in upd_peer i (Send (BlocksMsg blocks)) s)"

primrec handleBlocks :: "'d recv \<Rightarrow> block list \<Rightarrow> 'd node \<Rightarrow> 'd node option" where
  "handleBlocks recv [] n = Some n"
| "handleBlocks recv (b # bs) n =
     (case on_block recv b n of None \<Rightarrow> None | Some n' \<Rightarrow> handleBlocks recv bs n')"

definition handleAuth :: "crypto \<Rightarrow> nat \<Rightarrow> AuthMsg \<Rightarrow> server \<Rightarrow> 'd node \<Rightarrow> server \<times> 'd node \<times> bool" where
  "handleAuth C i m s n =
     (let challenge = (case s_obj s i of None \<Rightarrow> [] | Some p \<Rightarrow> p_Challenge p);
          hash = Keccak C challenge
      in case SigToAddr C hash (Signature m) of
           None \<Rightarrow> (s, n, True)
         | Some addr \<Rightarrow>
             (let isValidator = list_ex (\<lambda>v. v_Address v = addr) (n_Validators (bc_config (nd_bc n)))
              in (upd_peer i (\<lambda>p. p\<lparr>p_IsTrusted := isValidator\<rparr>) s, n, False)))"

definition handleMessage ::
    "crypto \<Rightarrow> codec \<Rightarrow> 'd leveldb \<Rightarrow> wire \<Rightarrow> 'd recv \<Rightarrow> nat \<Rightarrow> uint64 \<Rightarrow> bytes \<Rightarrow> server \<Rightarrow> 'd node
      \<Rightarrow> (server \<times> 'd node \<times> bool) option" where
  "handleMessage C J D X recv i mc payload s n =
     (if mc = MsgStatus then
        (case DecodeStatus X payload of None \<Rightarrow> Some (s, n, False) | Some m \<Rightarrow> handleStatus C i m s n)
      else if mc = MsgNewBlock then
        (case DecodeNewBlock X payload of None \<Rightarrow> Some (s, n, False)
         | Some b \<Rightarrow> map_option (\<lambda>n'. (s, n', False)) (handleNewBlock C J D recv b n))
      else if mc = MsgGetBlocks then
        (case DecodeGetBlocks X payload of None \<Rightarrow> Some (s, n, False)
         | Some m \<Rightarrow> Some (handleGetBlocks J D i m n s, n, False))
      else if mc = MsgBlocks then
        (case DecodeBlocks X payload of None \<Rightarrow> Some (s, n, False)
         | Some bs \<Rightarrow> map_option (\<lambda>n'. (s, n', False)) (handleBlocks recv bs n))
      else if mc = MsgAuth then
        (case DecodeAuth X payload of None \<Rightarrow> Some (s, n, False) | Some m \<Rightarrow> Some (handleAuth C i m s n))
      else Some (s, n, False))"

text \<open>One round of the read loop for an envelope that arrived at \<open>now\<close>.\<close>

definition read_round ::
    "crypto \<Rightarrow> codec \<Rightarrow> 'd leveldb \<Rightarrow> wire \<Rightarrow> 'd recv \<Rightarrow> int \<Rightarrow> nat \<Rightarrow> uint64 \<Rightarrow> bytes \<Rightarrow> peer \<Rightarrow> server \<Rightarrow> 'd node
      \<Rightarrow> (server \<times> 'd node) option" where
  "read_round C J D X recv now i mc payload p s n =
     (let p1 = rate_update now p;
          s1 = s\<lparr>s_obj := (s_obj s)(i \<mapsto> p1)\<rparr>;
          leave = upd_peer i (\<lambda>p. p\<lparr>p_read := AtLock True\<rparr>) s1
      in if p_msgsThisSec p1 > rate_limit p1 then Some (leave, n)
         else if length payload > 10485760 then Some (leave, n)
         else map_option (\<lambda>(s2, n', remove). (if remove then upd_peer i (\<lambda>p. p\<lparr>p_read := AtLock False\<rparr>) s2 else s2, n'))
                (handleMessage C J D X recv i mc payload s1 n))"

subsection \<open>Removing peers\<close>

definition loop_at :: "loop \<Rightarrow> peer \<Rightarrow> loop_state" where
  "loop_at k p = (case k of ReadLoop \<Rightarrow> p_read p | WriteLoop \<Rightarrow> p_write p)"

definition set_loop :: "loop \<Rightarrow> loop_state \<Rightarrow> peer \<Rightarrow> peer" where
  "set_loop k l p = (case k of ReadLoop \<Rightarrow> p\<lparr>p_read := l\<rparr> | WriteLoop \<Rightarrow> p\<lparr>p_write := l\<rparr>)"

definition after_remove :: "bool \<Rightarrow> loop_state" where
  "after_remove return = (if return then Returned else Looping)"

text \<open>
  \<open>RemovePeer\<close> from the moment the lock is free: the peer leaves the set, \<open>Stop\<close> closes its
  channel and its connection and starts to wait; or nothing is to be done.
\<close>

definition remove_enter :: "nat \<Rightarrow> loop \<Rightarrow> bool \<Rightarrow> server \<Rightarrow> server" where
  "remove_enter i k return s =
     (if i \<in> set (s_peers s)
      then upd_peer i (\<lambda>p. set_loop k (Removing return) (p\<lparr>p_quit := True\<rparr>))
             (s\<lparr>s_peers := filter (\<lambda>j. j \<noteq> i) (s_peers s), s_lock := Some (InRemove i k)\<rparr>)
      else upd_peer i (set_loop k (after_remove return)) s)"

text \<open>The end of the wait: both loops of the peer have returned.\<close>

definition loops_done :: "nat \<Rightarrow> server \<Rightarrow> bool" where
  "loops_done i s = (case s_obj s i of None \<Rightarrow> False | Some p \<Rightarrow> p_read p = Returned \<and> p_write p = Returned)"

definition remove_leave :: "nat \<Rightarrow> loop \<Rightarrow> bool \<Rightarrow> server \<Rightarrow> server" where
  "remove_leave i k return s = upd_peer i (set_loop k (after_remove return)) (s\<lparr>s_lock := None\<rparr>)"

text \<open>\<open>Server.Stop\<close> holds the lock and stops the peers one by one.\<close>

definition stop_enter :: "server \<Rightarrow> server" where
  "stop_enter s = s\<lparr>s_lock := Some InStop, s_stopping := s_peers s\<rparr>"

definition stop_peer :: "nat \<Rightarrow> server \<Rightarrow> server" where
  "stop_peer i s = upd_peer i (\<lambda>p. p\<lparr>p_quit := True\<rparr>) s"

subsection \<open>The network of one node\<close>

record 'd net =
  n_srv :: server
  n_node :: "'d node"
  n_bcast :: "block option"

text \<open>
  A produced block is broadcast, which takes the peer lock, before its persistence starts.
  While the state lock is held, only messages that do not reach the block handler are handled.
\<close>

inductive net_step ::
    "evm \<Rightarrow> crypto \<Rightarrow> codec \<Rightarrow> 'd leveldb \<Rightarrow> (vtree \<Rightarrow> hash) \<Rightarrow> wire \<Rightarrow> 'd net \<Rightarrow> 'd net \<Rightarrow> bool"
  for E C J D R X where
  net_tick: "\<not> nd_locked (n_node x) \<Longrightarrow> nd_waiting (n_node x) = None \<Longrightarrow> n_bcast x = None \<Longrightarrow>
    tick E C J D R I W now (n_node x) = Some n' \<Longrightarrow>
    net_step E C J D R X x (x\<lparr>n_node := n', n_bcast := map_option fst (nd_saving n')\<rparr>)"
| net_bcast: "n_bcast x = Some b \<Longrightarrow> s_lock (n_srv x) = None \<Longrightarrow>
    net_step E C J D R X x (x\<lparr>n_srv := BroadcastBlock b (n_srv x), n_bcast := None\<rparr>)"
| net_persist: "n_bcast x = None \<Longrightarrow> nd_saving (n_node x) \<noteq> None \<Longrightarrow>
    net_step E C J D R X x (x\<lparr>n_node := persist C J D R (n_node x)\<rparr>)"
| net_wait: "wait_end (n_node x) = Some n' \<Longrightarrow> net_step E C J D R X x (x\<lparr>n_node := n'\<rparr>)"
| net_receive: "nd_waiting (n_node x) = None \<Longrightarrow> n_bcast x = None \<Longrightarrow> receive (n_node x) = Some n' \<Longrightarrow>
    net_step E C J D R X x (x\<lparr>n_node := n'\<rparr>)"
| net_submit: "SubmitTx tx (n_node x) = Some n' \<Longrightarrow> net_step E C J D R X x (x\<lparr>n_node := n'\<rparr>)"
| net_connect: "s_lock (n_srv x) = None \<Longrightarrow> s_obj (n_srv x) i = None \<Longrightarrow>
    setupPeer C i outbound now (n_node x) (n_srv x) = Some s' \<Longrightarrow> net_step E C J D R X x (x\<lparr>n_srv := s'\<rparr>)"
| net_read: "s_obj (n_srv x) i = Some p \<Longrightarrow> p_read p = Looping \<Longrightarrow>
    read_round C J D X (Some (\<lambda>b. importBlock E C J D R (I b) b)) now i mc payload p (n_srv x) (n_node x) = Some (s', n') \<Longrightarrow>
    (nd_locked (n_node x) \<Longrightarrow> n' = n_node x) \<Longrightarrow> net_step E C J D R X x (x\<lparr>n_srv := s', n_node := n'\<rparr>)"
| net_read_error: "s_obj (n_srv x) i = Some p \<Longrightarrow> p_read p = Looping \<Longrightarrow>
    net_step E C J D R X x (x\<lparr>n_srv := upd_peer i (set_loop ReadLoop (AtLock True)) (n_srv x)\<rparr>)"
| net_write: "s_obj (n_srv x) i = Some p \<Longrightarrow> p_write p = Looping \<Longrightarrow> write_round X ok p = Some p' \<Longrightarrow>
    net_step E C J D R X x (x\<lparr>n_srv := (n_srv x)\<lparr>s_obj := (s_obj (n_srv x))(i \<mapsto> p')\<rparr>\<rparr>)"
| net_quit: "s_obj (n_srv x) i = Some p \<Longrightarrow> loop_at k p = Looping \<Longrightarrow> p_quit p \<Longrightarrow>
    net_step E C J D R X x (x\<lparr>n_srv := upd_peer i (set_loop k Returned) (n_srv x)\<rparr>)"
| net_remove: "s_obj (n_srv x) i = Some p \<Longrightarrow> loop_at k p = AtLock return \<Longrightarrow> s_lock (n_srv x) = None \<Longrightarrow>
    net_step E C J D R X x (x\<lparr>n_srv := remove_enter i k return (n_srv x)\<rparr>)"
| net_removed: "s_lock (n_srv x) = Some (InRemove i k) \<Longrightarrow> s_obj (n_srv x) i = Some p \<Longrightarrow> loop_at k p = Removing return \<Longrightarrow>
    loops_done i (n_srv x) \<Longrightarrow> net_step E C J D R X x (x\<lparr>n_srv := remove_leave i k return (n_srv x)\<rparr>)"
| net_stop: "s_lock (n_srv x) = None \<Longrightarrow> net_step E C J D R X x (x\<lparr>n_srv := stop_enter (n_srv x)\<rparr>)"
| net_stop_peer: "s_lock (n_srv x) = Some InStop \<Longrightarrow> s_stopping (n_srv x) = i # is \<Longrightarrow>
    net_step E C J D R X x (x\<lparr>n_srv := stop_peer i (n_srv x)\<rparr>)"
| net_stop_next: "s_lock (n_srv x) = Some InStop \<Longrightarrow> s_stopping (n_srv x) = i # is \<Longrightarrow> loops_done i (n_srv x) \<Longrightarrow>
    net_step E C J D R X x (x\<lparr>n_srv := (n_srv x)\<lparr>s_stopping := is\<rparr>\<rparr>)"
| net_stopped: "s_lock (n_srv x) = Some InStop \<Longrightarrow> s_stopping (n_srv x) = [] \<Longrightarrow>
    net_step E C J D R X x (x\<lparr>n_srv := (n_srv x)\<lparr>s_lock := None\<rparr>\<rparr>)"

inductive net_run ::
    "evm \<Rightarrow> crypto \<Rightarrow> codec \<Rightarrow> 'd leveldb \<Rightarrow> (vtree \<Rightarrow> hash) \<Rightarrow> wire \<Rightarrow> 'd net \<Rightarrow> 'd net \<Rightarrow> bool"
  for E C J D R X x where
  net_refl: "net_run E C J D R X x x"
| net_next: "net_run E C J D R X x y \<Longrightarrow> net_step E C J D R X y z \<Longrightarrow> net_run E C J D R X x z"

subsection \<open>What the handlers leave alone\<close>

text \<open>
  A handler may queue messages for its peer and change what is known about it; the progress
  of the loops, the connection and the other peers stay as they are.
\<close>

definition touched :: "peer \<Rightarrow> peer \<Rightarrow> bool" where
  "touched p p' \<longleftrightarrow> p_read p' = p_read p \<and> p_write p' = p_write p \<and> p_quit p' = p_quit p \<and> p_out p' = p_out p \<and>
     length (p_sendCh p') \<le> max 100 (length (p_sendCh p)) \<and>
     (\<forall>m \<in> set (p_sendCh p'). m \<in> set (p_sendCh p) \<or> msg_code m \<noteq> None)"

definition frame_peer :: "nat \<Rightarrow> server \<Rightarrow> server \<Rightarrow> bool" where
  "frame_peer i s s' \<longleftrightarrow> s_lock s' = s_lock s \<and> s_peers s' = s_peers s \<and> s_stopping s' = s_stopping s \<and>
     (\<forall>j. j \<noteq> i \<longrightarrow> s_obj s' j = s_obj s j) \<and> rel_option touched (s_obj s i) (s_obj s' i)"

lemma touched_refl [simp]: "touched p p"
  by (simp add: touched_def)

lemma touched_trans: "touched p q \<Longrightarrow> touched q r \<Longrightarrow> touched p r"
  unfolding touched_def by (auto simp: max_def split: if_splits)

lemma touched_Send: "msg_code m \<noteq> None \<Longrightarrow> touched p (Send m p)"
  by (auto simp: touched_def Send_def)

lemma frame_peer_refl [simp]: "frame_peer i s s"
  by (simp add: frame_peer_def option.rel_refl)

lemma frame_peer_upd:
  assumes "\<And>p. touched p (f p)"
  shows "frame_peer i s (upd_peer i f s)"
  using assms by (simp add: frame_peer_def upd_peer_def option.rel_map option.rel_refl)

lemma frame_peer_trans:
  assumes "frame_peer i s s'" "frame_peer i s' s''"
  shows "frame_peer i s s''"
proof -
  have "rel_option touched (s_obj s i) (s_obj s'' i)"
    using assms touched_trans unfolding frame_peer_def by (auto simp: option.rel_sel)
  with assms show ?thesis by (simp add: frame_peer_def)
qed

lemma upd_peer_sel [simp]:
  "s_lock (upd_peer i f s) = s_lock s" "s_peers (upd_peer i f s) = s_peers s" "s_stopping (upd_peer i f s) = s_stopping s"
  "s_obj (upd_peer i f s) j = (if j = i then map_option f (s_obj s i) else s_obj s j)"
  by (simp_all add: upd_peer_def)

lemma handleMessage_frame:
  assumes "handleMessage C J D X recv i mc payload s n = Some (s', n', rm)"
  shows "frame_peer i s s'"
proof -
  have status: "frame_peer i s s'" if "handleStatus C i m s n = Some (s', n', rm)" for m
  proof -
    let ?s1 = "upd_peer i (\<lambda>p. p\<lparr>p_HeadHash := hash_Hex (st_HeadHash m), p_HeadNumber := st_HeadNumber m\<rparr>) s"
    have s1: "frame_peer i s ?s1" by (rule frame_peer_upd) (simp add: touched_def)
    moreover have "frame_peer i ?s1 (upd_peer i (Send (GetBlocks g)) ?s1)" for g
      by (rule frame_peer_upd) (simp add: touched_Send)
    ultimately show ?thesis
      using that frame_peer_trans by (fastforce simp: handleStatus_def Let_def split: if_splits option.splits)
  qed
  have blocks: "frame_peer i s (handleGetBlocks J D i m n s)" for m
    unfolding handleGetBlocks_def Let_def by (rule frame_peer_upd) (simp add: touched_Send)
  have auth: "frame_peer i s s'" if "handleAuth C i m s n = (s', n', rm)" for m
  proof -
    have "frame_peer i s (upd_peer i (\<lambda>p. p\<lparr>p_IsTrusted := v\<rparr>) s)" for v
      by (rule frame_peer_upd) (simp add: touched_def)
    then show ?thesis using that by (auto simp: handleAuth_def Let_def split: option.splits)
  qed
  show ?thesis
    using assms blocks status auth by (auto simp: handleMessage_def split: if_splits option.splits)
qed

text \<open>A round of the read loop.\<close>

definition read_frame :: "nat \<Rightarrow> server \<Rightarrow> server \<Rightarrow> bool" where
  "read_frame i s s' \<longleftrightarrow> s_lock s' = s_lock s \<and> s_peers s' = s_peers s \<and> s_stopping s' = s_stopping s \<and>
     (\<forall>j. j \<noteq> i \<longrightarrow> s_obj s' j = s_obj s j) \<and>
     (\<forall>p. s_obj s i = Some p \<longrightarrow> (\<exists>p'. s_obj s' i = Some p' \<and> touched (p\<lparr>p_read := p_read p'\<rparr>) p' \<and>
        p_read p' \<in> {p_read p, AtLock True, AtLock False}))"

lemma read_round_frame:
  assumes "read_round C J D X recv now i mc payload p s n = Some (s', n')" "s_obj s i = Some p"
  shows "read_frame i s s'"
proof -
  let ?p1 = "rate_update now p"
  let ?s1 = "s\<lparr>s_obj := (s_obj s)(i \<mapsto> ?p1)\<rparr>"
  have p1: "touched p ?p1" by (simp add: touched_def rate_update_def Let_def)
  have t: "touched (p\<lparr>p_read := l\<rparr>) (q\<lparr>p_read := l\<rparr>)" if "touched p q" for q l using that by (simp add: touched_def)
  show ?thesis
  proof (cases "p_msgsThisSec ?p1 > rate_limit ?p1 \<or> length payload > 10485760")
    case True
    then have "s' = upd_peer i (\<lambda>p. p\<lparr>p_read := AtLock True\<rparr>) ?s1" using assms(1) by (auto simp: read_round_def Let_def split: if_splits)
    then show ?thesis using assms(2) t [OF p1] by (simp add: read_frame_def)
  next
    case False
    with assms(1) obtain z where z: "handleMessage C J D X recv i mc payload ?s1 n = Some z"
      "(\<lambda>(s2, n', remove). (if remove then upd_peer i (\<lambda>p. p\<lparr>p_read := AtLock False\<rparr>) s2 else s2, n')) z = (s', n')"
      by (auto simp: read_round_def Let_def)
    obtain s2 n2 rm where "z = (s2, n2, rm)" by (rule prod_cases3)
    with z have handled: "handleMessage C J D X recv i mc payload ?s1 n = Some (s2, n2, rm)"
      "s' = (if rm then upd_peer i (\<lambda>p. p\<lparr>p_read := AtLock False\<rparr>) s2 else s2)" by simp_all
    note f = handleMessage_frame [OF handled(1)]
    then obtain q where q: "s_obj s2 i = Some q" "touched ?p1 q" by (auto simp: frame_peer_def option_rel_Some1)
    have pq: "touched p q" using p1 q(2) by (rule touched_trans)
    then have "p\<lparr>p_read := p_read q\<rparr> = p" "p_read q = p_read p" by (simp_all add: touched_def)
    then show ?thesis
      using f handled(2) assms(2) q(1) pq t [OF pq] by (auto simp: read_frame_def frame_peer_def)
  qed
qed

subsection \<open>Removing a peer never ends\<close>

text \<open>Somebody removes peer \<open>i\<close> from its own loop \<open>k\<close>.\<close>

definition in_remove :: "nat \<Rightarrow> loop \<Rightarrow> server \<Rightarrow> bool" where
  "in_remove i k s \<longleftrightarrow> s_lock s = Some (InRemove i k) \<and>
     (\<exists>p r. s_obj s i = Some p \<and> loop_at k p = Removing r)"

lemma loop_simps [simp]:
  "loop_at k (set_loop k' l p) = (if k = k' then l else loop_at k p)"
  "p_sendCh (set_loop k l p) = p_sendCh p" "p_out (set_loop k l p) = p_out p" "p_quit (set_loop k l p) = p_quit p"
  by (cases k; cases k'; simp add: loop_at_def set_loop_def)
    (cases k; simp add: set_loop_def)+

lemma loop_at_read: "loop_at ReadLoop p = p_read p" "loop_at WriteLoop p = p_write p"
  by (simp_all add: loop_at_def)

lemma in_remove_upd:
  assumes "in_remove i k s" "s_obj s j = Some p" "loop_at k' p = l" "\<forall>r. l \<noteq> Removing r"
  shows "in_remove i k (upd_peer j (set_loop k' l') s)"
  using assms by (auto simp: in_remove_def)

lemma in_remove_step:
  assumes "net_step E C J D R X x y" "in_remove i k (n_srv x)"
  shows "in_remove i k (n_srv y) \<and> s_peers (n_srv y) = s_peers (n_srv x) \<and>
    (n_bcast x = Some b \<and> nd_locked (n_node x) \<longrightarrow> n_bcast y = Some b \<and> nd_locked (n_node y) \<and>
       nd_bc (n_node y) = nd_bc (n_node x) \<and> nd_state (n_node y) = nd_state (n_node x))"
  using assms
proof (cases rule: net_step.cases)
  case (net_read j p I now mc payload s' n')
  have f: "read_frame j (n_srv x) s'" by (rule read_round_frame [OF net_read(4,2)])
  obtain q r where q: "s_obj (n_srv x) i = Some q" "loop_at k q = Removing r" "s_lock (n_srv x) = Some (InRemove i k)"
    using assms(2) by (auto simp: in_remove_def)
  have "in_remove i k s'"
  proof (cases "i = j")
    case True
    obtain p' where p': "s_obj s' i = Some p'" "p_write p' = p_write p"
      using f net_read(2) True by (auto simp: read_frame_def touched_def)
    have "k = WriteLoop" using q net_read(2,3) True by (cases k) (auto simp: loop_at_def)
    then show ?thesis using q p' f net_read(2) True by (auto simp: in_remove_def loop_at_def read_frame_def)
  qed (use f q in \<open>auto simp: in_remove_def read_frame_def\<close>)
  then show ?thesis using net_read f by (auto simp: read_frame_def)
next
  case (net_write j p ok p')
  have "p_write p' = p_write p \<or> p_write p' = AtLock True" "p_read p' = p_read p"
    using net_write(4) by (auto simp: write_round_def Let_def split: list.splits option.splits if_splits)
  then show ?thesis using net_write assms(2) by (cases k) (auto simp: in_remove_def loop_at_def)
next
  case (net_removed j k' p r)
  then show ?thesis using assms(2) by (cases k) (auto simp: in_remove_def loops_done_def loop_at_def)
next
  case net_persist
  then show ?thesis using assms(2) by auto
next
  case (net_wait n')
  then show ?thesis using assms(2) by (auto simp: wait_end_def Let_def split: option.splits if_splits)
next
  case (net_submit tx n')
  then show ?thesis using assms(2) by (auto simp: SubmitTx_def split: if_splits)
qed (auto simp: in_remove_def loop_at_read)

lemma in_remove_run:
  assumes "net_run E C J D R X x y" "in_remove i k (n_srv x)"
  shows "in_remove i k (n_srv y) \<and> s_peers (n_srv y) = s_peers (n_srv x) \<and>
    (n_bcast x = Some b \<and> nd_locked (n_node x) \<longrightarrow> n_bcast y = Some b \<and> nd_locked (n_node y) \<and>
       nd_bc (n_node y) = nd_bc (n_node x) \<and> nd_state (n_node y) = nd_state (n_node x))"
  using assms
proof induction
  case (net_next y z)
  then show ?case using in_remove_step [OF net_next(2), of i k b] by auto
qed auto

text \<open>What a production leaves of the chain.\<close>

lemma tick_produced:
  assumes "tick E C J D R I W now n = Some n'" "nd_saving n = None" "nd_saving n' = Some (b, rs)"
  shows "nd_locked n' \<and> nd_bc n' = nd_bc n"
  using assms(1)
proof (cases rule: tick_cases)
  case (propose e key m)
  let ?n = "n\<lparr>nd_engine := e, nd_pool := drop (min 2800 (length (nd_pool n))) (nd_pool n)\<rparr>"
  have m: "nd_saving m = Some (b, rs)" "nd_saving ?n = None" using propose(3) assms(2,3) by simp_all
  have "nd_bc m = nd_bc ?n" by (rule mined_block [OF propose(2) m]) simp
  then show ?thesis using propose(3) processBatch_lock(1) [OF propose(2)] by simp
next
  case wait
  then show ?thesis using assms(2,3) by simp
qed

text \<open>C9. One lost connection stops the node: the read loop that removes its own peer waits for itself
  while it holds the peer lock.  Whenever a peer is connected and the node is about to produce a
  block, the connection can fail such that the block is produced but from then on, in every run,
  the state lock stays taken, the chain never gets the block and the peer lock is never free.\<close>

theorem disconnect_stops_node:
  assumes peer: "i \<in> set (s_peers (n_srv x))" "s_obj (n_srv x) i = Some p" "p_read p = Looping" "s_lock (n_srv x) = None"
    and node: "\<not> nd_locked (n_node x)" "nd_waiting (n_node x) = None" "n_bcast x = None" "nd_saving (n_node x) = None"
    and tick: "tick E C J D R I W now (n_node x) = Some n'" "nd_saving n' = Some (b, rs)"
  shows "\<exists>y. net_run E C J D R X x y \<and> n_node y = n' \<and> (\<forall>z. net_run E C J D R X y z \<longrightarrow>
    nd_locked (n_node z) \<and> nd_bc (n_node z) = nd_bc (n_node x) \<and> nd_state (n_node z) = nd_state n' \<and>
    s_lock (n_srv z) \<noteq> None)"
proof -
  let ?s1 = "upd_peer i (set_loop ReadLoop (AtLock True)) (n_srv x)"
  let ?s2 = "remove_enter i ReadLoop True ?s1"
  let ?y = "x\<lparr>n_srv := ?s2, n_node := n', n_bcast := Some b\<rparr>"
  have "net_step E C J D R X x (x\<lparr>n_srv := ?s1\<rparr>)" by (rule net_read_error [OF peer(2,3)])
  moreover have "net_step E C J D R X (x\<lparr>n_srv := ?s1\<rparr>) (x\<lparr>n_srv := ?s2\<rparr>)"
    using net_remove [of "x\<lparr>n_srv := ?s1\<rparr>" i "set_loop ReadLoop (AtLock True) p" ReadLoop True] peer by simp
  moreover have "net_step E C J D R X (x\<lparr>n_srv := ?s2\<rparr>) ?y"
    using net_tick [of "x\<lparr>n_srv := ?s2\<rparr>" E C J D R I W now n'] node tick by simp
  ultimately have run: "net_run E C J D R X x ?y" by (meson net_refl net_next)
  have rem: "in_remove i ReadLoop (n_srv ?y)" using peer by (auto simp: in_remove_def remove_enter_def)
  have n': "nd_locked n'" "nd_bc n' = nd_bc (n_node x)" using tick_produced [OF tick(1) node(4) tick(2)] by simp_all
  have "nd_locked (n_node z) \<and> nd_bc (n_node z) = nd_bc (n_node x) \<and> nd_state (n_node z) = nd_state n' \<and> s_lock (n_srv z) \<noteq> None"
    if "net_run E C J D R X ?y z" for z
    using in_remove_run [OF that rem, of b] n' by (simp add: in_remove_def)
  with run show ?thesis by (intro exI [of _ ?y]) simp
qed

subsection \<open>Send buffers and authentication\<close>

definition peer_ok :: "peer \<Rightarrow> bool" where
  "peer_ok p \<longleftrightarrow> length (p_sendCh p) \<le> 100 \<and> (\<forall>m \<in> set (p_sendCh p). msg_code m \<noteq> None) \<and>
     (\<forall>c \<in> fst ` set (p_out p). c < MsgAuth)"

definition server_ok :: "server \<Rightarrow> bool" where
  "server_ok s \<longleftrightarrow> (\<forall>i p. s_obj s i = Some p \<longrightarrow> peer_ok p)"

lemma peer_ok_Send: "peer_ok p \<Longrightarrow> msg_code m \<noteq> None \<Longrightarrow> peer_ok (Send m p)"
  by (auto simp: peer_ok_def Send_def)

lemma peer_ok_touched: "peer_ok p \<Longrightarrow> touched (p\<lparr>p_read := l\<rparr>) p' \<Longrightarrow> peer_ok p'"
  by (auto simp: peer_ok_def touched_def)

lemma server_ok_upd: "server_ok s \<Longrightarrow> (\<And>p. peer_ok p \<Longrightarrow> peer_ok (f p)) \<Longrightarrow> server_ok (upd_peer i f s)"
  by (auto simp: server_ok_def)

lemma peer_ok_simps [simp]:
  "peer_ok (set_loop k l p) \<longleftrightarrow> peer_ok p" "peer_ok (p\<lparr>p_quit := q\<rparr>) \<longleftrightarrow> peer_ok p"
  "peer_ok (p\<lparr>p_Challenge := c\<rparr>) \<longleftrightarrow> peer_ok p"
  by (simp_all add: peer_ok_def)

lemma server_ok_sel [simp]:
  "server_ok (s\<lparr>s_lock := l\<rparr>) = server_ok s" "server_ok (s\<lparr>s_peers := ps\<rparr>) = server_ok s"
  "server_ok (s\<lparr>s_stopping := ps\<rparr>) = server_ok s"
  by (simp_all add: server_ok_def)

lemma server_ok_setup:
  assumes "server_ok s" "setupPeer C i outbound now n s = Some s'"
  shows "server_ok s'"
proof -
  have "peer_ok (NewPeer outbound now)" by (simp add: peer_ok_def NewPeer_def)
  then have "server_ok (s\<lparr>s_peers := s_peers s @ [i], s_obj := (s_obj s)(i \<mapsto> NewPeer outbound now)\<rparr>)"
    using assms(1) by (simp add: server_ok_def)
  then show ?thesis
    using assms(2) by (auto simp: setupPeer_def Let_def peer_ok_Send split: option.splits intro!: server_ok_upd)
qed

lemma server_ok_broadcast: "server_ok s \<Longrightarrow> server_ok (BroadcastBlock b s)"
proof -
  have "server_ok s \<Longrightarrow> server_ok (fold (\<lambda>i. upd_peer i (Send (NewBlockMsg b))) is s)" for "is"
    by (induction "is" arbitrary: s) (simp_all add: server_ok_upd peer_ok_Send)
  then show "server_ok s \<Longrightarrow> server_ok (BroadcastBlock b s)" by (simp add: BroadcastBlock_def)
qed

lemma server_ok_read:
  assumes "read_frame i s s'" "server_ok s" "s_obj s i = Some p"
  shows "server_ok s'"
  unfolding server_ok_def
proof (intro allI impI)
  fix j q assume q: "s_obj s' j = Some q"
  show "peer_ok q"
  proof (cases "j = i")
    case True
    then show ?thesis using assms q peer_ok_touched unfolding read_frame_def server_ok_def by (metis option.inject)
  qed (use assms q in \<open>auto simp: read_frame_def server_ok_def\<close>)
qed

lemma peer_ok_write: "peer_ok p \<Longrightarrow> write_round X ok p = Some p' \<Longrightarrow> peer_ok p'"
proof -
  have "c < MsgAuth" if "msg_code m = Some c" for m c using that by (cases m) (auto simp: msg_codes)
  then show "peer_ok p \<Longrightarrow> write_round X ok p = Some p' \<Longrightarrow> peer_ok p'"
    by (auto simp: peer_ok_def write_round_def Let_def split: list.splits option.splits if_splits)
qed

lemma server_ok_step:
  assumes "net_step E C J D R X x y" "server_ok (n_srv x)"
  shows "server_ok (n_srv y)"
  using assms
proof (cases rule: net_step.cases)
  case (net_read j p I now mc payload s' n')
  then show ?thesis using server_ok_read [OF read_round_frame [OF net_read(4,2)] assms(2)] by simp
next
  case (net_write j p ok p')
  then show ?thesis using assms(2) peer_ok_write [of p X ok p'] by (auto simp: server_ok_def)
next
  case (net_connect j outbound now s')
  then show ?thesis using server_ok_setup [OF assms(2) net_connect(4)] by simp
qed (simp_all add: assms(2) server_ok_broadcast stop_enter_def stop_peer_def remove_enter_def remove_leave_def server_ok_upd)

lemma server_ok_run:
  assumes "net_run E C J D R X x y" "server_ok (n_srv x)"
  shows "server_ok (n_srv y)"
  using assms by induction (auto dest: server_ok_step)

text \<open>C32. Send buffers are bounded and authentication is never sent: in every run of a server started without
  peers, no buffer holds more than 100 messages and no envelope written to a connection carries the
  code of an authentication message, so that a peer running the same program is never
  recognised as a validator.\<close>

theorem auth_never_sent:
  assumes "n_srv x = NewServer" "net_run E C J D R X x y" "s_obj (n_srv y) i = Some p"
  shows "length (p_sendCh p) \<le> 100 \<and> MsgAuth \<notin> fst ` set (p_out p)"
proof -
  have "server_ok (n_srv y)" by (rule server_ok_run [OF assms(2)]) (simp add: assms(1) server_ok_def NewServer_def)
  then have "peer_ok p" using assms(3) by (simp add: server_ok_def)
  then show ?thesis by (auto simp: peer_ok_def)
qed

subsection \<open>The rate limiter\<close>

text \<open>The read loop takes messages that arrive at these times, one after the other.\<close>

fun rate_ok :: "int list \<Rightarrow> peer \<Rightarrow> bool" where
  "rate_ok [] p \<longleftrightarrow> True"
| "rate_ok (t # ts) p \<longleftrightarrow>
     (let p1 = rate_update t p in p_msgsThisSec p1 \<le> rate_limit p1 \<and> rate_ok ts p1)"

lemma rate_update_sel:
  "p_IsTrusted (rate_update t p) = p_IsTrusted p"
  "p_lastMsgTime (rate_update t p) = (if t - p_lastMsgTime p > 1000000000 then t else p_lastMsgTime p)"
  "p_msgsThisSec (rate_update t p) = (if t - p_lastMsgTime p > 1000000000 then 1 else p_msgsThisSec p + 1)"
  by (simp_all add: rate_update_def Let_def)

lemma rate_ok_window:
  assumes "rate_ok ts p" "\<not> p_IsTrusted p" "\<forall>t \<in> set ts. t \<le> p_lastMsgTime p + 1000000000" "p_msgsThisSec p \<le> 100"
  shows "int (length ts) \<le> 100 - p_msgsThisSec p"
  using assms
proof (induction ts arbitrary: p)
  case (Cons t ts)
  then show ?case
    using Cons.IH [of "rate_update t p"] by (simp add: rate_update_sel rate_limit_def Let_def)
qed simp

lemma rate_ok_interval:
  assumes "rate_ok ts p" "\<not> p_IsTrusted p" "\<forall>t \<in> set ts. t0 \<le> t \<and> t \<le> t0 + 1000000000" "p_msgsThisSec p \<le> 100"
  shows "int (length ts) \<le> 200 - p_msgsThisSec p"
  using assms
proof (induction ts arbitrary: p)
  case (Cons t ts)
  let ?p1 = "rate_update t p"
  have p1: "rate_ok ts ?p1" "\<not> p_IsTrusted ?p1" "p_msgsThisSec ?p1 \<le> 100"
    using Cons.prems by (simp_all add: rate_update_sel rate_limit_def Let_def)
  show ?case
  proof (cases "t - p_lastMsgTime p > 1000000000")
    case True
    then have "\<forall>t' \<in> set ts. t' \<le> p_lastMsgTime ?p1 + 1000000000" using Cons.prems(3) by (auto simp: rate_update_sel)
    from rate_ok_window [OF p1(1,2) this p1(3)] show ?thesis using True Cons.prems(4) by (simp add: rate_update_sel)
  next
    case False
    then show ?thesis using Cons.IH [OF p1(1,2) _ p1(3)] Cons.prems(3) by (simp add: rate_update_sel)
  qed
qed simp

lemma rate_ok_append: "rate_ok (ts @ us) p \<longleftrightarrow> rate_ok ts p \<and> rate_ok us (fold rate_update ts p)"
  by (induction ts arbitrary: p) (auto simp: Let_def)

lemma rate_fold:
  assumes "rate_ok (ts @ us) p" "\<not> p_IsTrusted p" "p_msgsThisSec p \<le> 100"
  shows "\<not> p_IsTrusted (fold rate_update ts p) \<and> p_msgsThisSec (fold rate_update ts p) \<le> 100"
  using assms by (induction ts arbitrary: p) (auto simp: Let_def rate_update_sel rate_limit_def split: if_splits)

text \<open>C33. The shield bounds the load: as long as the read loop of a peer that is not trusted goes on, the
  messages it handles in any interval of one second are at most 200 (the limit of 100 holds
  per window, and an interval can meet two windows); the first message over the limit
  ends the loop.\<close>

theorem rate_bounded:
  assumes "\<not> p_IsTrusted p" "0 \<le> p_msgsThisSec p" "p_msgsThisSec p \<le> 100"
    and "rate_ok (before @ ts @ later) p" "\<forall>t \<in> set ts. t0 \<le> t \<and> t \<le> t0 + 1000000000"
  shows "length ts \<le> 200 \<and> (\<not> rate_ok [now] q \<longrightarrow> (\<exists>s'. read_round C J D X recv now i mc payload q s n = Some (s', n) \<and>
    map_option p_read (s_obj s' i) = Some (AtLock True)))"
proof -
  let ?q = "fold rate_update before p"
  have q: "\<not> p_IsTrusted ?q" "p_msgsThisSec ?q \<le> 100" using rate_fold [OF assms(4,1,3)] by simp_all
  have nonneg: "0 \<le> p_msgsThisSec p \<Longrightarrow> 0 \<le> p_msgsThisSec (fold rate_update us p)" for us p
    by (induction us arbitrary: p) (simp_all add: rate_update_sel)
  have "rate_ok ts ?q" using assms(4) by (simp add: rate_ok_append)
  from rate_ok_interval [OF this q(1) assms(5) q(2)] nonneg [OF assms(2), of before] have "length ts \<le> 200" by simp
  moreover have "\<exists>s'. read_round C J D X recv now i mc payload q s n = Some (s', n) \<and>
    map_option p_read (s_obj s' i) = Some (AtLock True)" if "\<not> rate_ok [now] q"
    using that by (simp add: read_round_def Let_def)
  ultimately show ?thesis by blast
qed


subsection \<open>Catching up\<close>

text \<open>Two nodes that agree on chain, state and configuration.\<close>

definition same_chain :: "'d node \<Rightarrow> 'd node \<Rightarrow> bool" where
  "same_chain n m \<longleftrightarrow> nd_bc m = nd_bc n \<and> nd_state m = nd_state n \<and> nd_netCfg m = nd_netCfg n"

text \<open>
  The blocks produced from \<open>n\<close> on, by whichever node was the leader of each: every producer
  starts from the chain and the state the previous one reached, and its block became the head.
\<close>

inductive history ::
    "evm \<Rightarrow> crypto \<Rightarrow> codec \<Rightarrow> 'd leveldb \<Rightarrow> (vtree \<Rightarrow> hash) \<Rightarrow> (block \<Rightarrow> nat \<Rightarrow> wave_event list)
      \<Rightarrow> (uint64 \<Rightarrow> address option) \<Rightarrow> 'd node \<Rightarrow> block list \<Rightarrow> 'd node \<Rightarrow> bool"
  for E C J D R I L n where
  history_start: "same_chain n n' \<Longrightarrow> history E C J D R I L n [] n'"
| history_block: "history E C J D R I L n bs p \<Longrightarrow> processBatch E C J D R (I b) W now batch p = Some p1 \<Longrightarrow>
    nd_saving p = None \<Longrightarrow> nd_saving p1 = Some (b, rs) \<Longrightarrow> privKey (nd_engine p) = Some key \<Longrightarrow>
    L (big_Uint64 (Number (Header b))) = Some (PrivToAddr C key) \<Longrightarrow>
    same_chain (persist C J D R p1) p' \<Longrightarrow> currentBlock (nd_bc p') = Some b \<Longrightarrow> block_Hash C b \<noteq> 0 \<Longrightarrow>
    history E C J D R I L n (bs @ [b]) p'"

lemma handleBlocks_append: "handleBlocks recv (bs @ cs) n = Option.bind (handleBlocks recv bs n) (handleBlocks recv cs)"
  by (induction bs arbitrary: n) (auto split: option.split)

lemma Verify_Validators: "Validators (snd (Verify C e b)) = Validators e"
proof -
  obtain r e' where l: "GetLeader C e (big_Uint64 (Number (Header b))) = (r, e')" by (cases "GetLeader C e (big_Uint64 (Number (Header b)))")
  show ?thesis using GetLeader_engine(1) [OF l] by (simp add: Verify_def Let_def l split: option.split)
qed

lemma history_import:
  assumes "history E C J D R I (leader_of C vs) n bs n'" "sign_ok C"
    and "same_chain n m" "engine_ok C (nd_engine m)" "Validators (nd_engine m) = vs"
  shows "\<exists>m'. handleBlocks (Some (\<lambda>b. importBlock E C J D R (I b) b)) bs m = Some m' \<and> same_chain n' m' \<and>
    engine_ok C (nd_engine m') \<and> Validators (nd_engine m') = vs"
  using assms
proof induction
  case (history_start n')
  then show ?case by (auto simp: same_chain_def)
next
  case (history_block bs p b W now batch p1 rs key p')
  then obtain m1 where m1: "handleBlocks (Some (\<lambda>b. importBlock E C J D R (I b) b)) bs m = Some m1" "same_chain p m1"
    "engine_ok C (nd_engine m1)" "Validators (nd_engine m1) = vs" by blast
  have same: "nd_bc m1 = nd_bc p" "nd_state m1 = nd_state p" "nd_netCfg m1 = nd_netCfg p" using m1(2) by (simp_all add: same_chain_def)
  have "fst (GetLeader C (nd_engine m1) (big_Uint64 (Number (Header b)))) = Some (PrivToAddr C key)"
    using GetLeader_leader_of m1(3,4) history_block.hyps(6) by (simp add: engine_ok_def)
  from import_mined [OF history_block.prems(1) history_block.hyps(5,2,4,3) same this]
  obtain m' where m': "importBlock E C J D R (I b) b m1 = Some m'" "nd_state m' = nd_state (persist C J D R p1)"
    "nd_bc m' = nd_bc (persist C J D R p1)" "nd_engine m' = snd (Verify C (nd_engine m1) b)" "nd_netCfg m' = nd_netCfg m1" by blast
  have "nd_netCfg (persist C J D R p1) = nd_netCfg p"
    by (rule mined_block [OF history_block.hyps(2,4,3)]) (simp add: persist_def commit_block_def Let_def split: prod.split)
  then show ?case
    using m1 m' same history_block.hyps(7)
    by (simp add: handleBlocks_append on_block_def same_chain_def engine_ok_Verify Verify_Validators)
qed


text \<open>What storing a new head leaves in the tables.\<close>

lemma persist_adds:
  assumes "db_writable D"
    and mined: "processBatch E C J D R I W now batch n = Some n1" "nd_saving n1 = Some (b, rs)" "nd_saving n = None"
    and stored: "currentBlock (nd_bc (persist C J D R n1)) = Some b"
  obtains par d1 where "currentBlock (nd_bc n) = Some par" "Number (Header b) = Number (Header par) + 1"
    "db_Write D (bc_db (nd_bc n)) (commit_batch (nd_state n1)) = Some d1"
    "AddBlock C J D ((nd_bc n)\<lparr>bc_db := d1\<rparr>) b (Some rs) = (nd_bc (persist C J D R n1), None)"
proof (rule mined_block [OF mined])
  fix par baseFee txs e root s sig
  assume p: "currentBlock (nd_bc n) = Some par"
    "b = NewBlock (sealed_header (new_header C (nd_netCfg n) now par baseFee) root (getGasUsed rs) sig) txs"
    "n1 = n\<lparr>nd_engine := e, nd_state := s, nd_locked := True, nd_saving := Some (b, rs), nd_sent := nd_sent n @ [b]\<rparr>"
  obtain d1 where d1: "db_Write D (bc_db (nd_bc n)) (commit_batch s) = Some d1"
    using assms(1) unfolding db_writable_def by blast
  let ?bc1 = "(nd_bc n)\<lparr>bc_db := d1\<rparr>" and ?bc' = "nd_bc (persist C J D R n1)"
  have num: "Number (Header b) = Number (Header par) + 1" unfolding p(2) by (simp add: sealed_header_def new_header_def)
  have bc': "?bc' = fst (AddBlock C J D ?bc1 b (Some rs))"
    by (simp add: persist_def mined(2) commit_block_def CommitState_def Let_def write_batch_def d1 p(3))
  have add: "AddBlock C J D ?bc1 b (Some rs) = (?bc', None)"
    unfolding bc' by (rule AddBlock_new_head [OF stored [unfolded bc'], of par]) (use p(1) num in auto)
  have "db_Write D (bc_db (nd_bc n)) (commit_batch (nd_state n1)) = Some d1" using d1 by (simp add: p(3))
  then show thesis by (rule that [OF p(1) num _ add])
qed

lemma persist_reads:
  assumes env: "leveldb_ok D" "db_writable D" "codec_ok J"
    and mined: "processBatch E C J D R I W now batch n = Some n1" "nd_saving n1 = Some (b, rs)" "nd_saving n = None"
    and stored: "currentBlock (nd_bc (persist C J D R n1)) = Some b"
  obtains par where "currentBlock (nd_bc n) = Some par" "Number (Header b) = Number (Header par) + 1"
    "bc_config (nd_bc (persist C J D R n1)) = bc_config (nd_bc n)"
    "ReadBlock J D (bc_db (nd_bc n)) (block_Hash C b) = None"
    "\<And>h. ReadBlock J D (bc_db (nd_bc (persist C J D R n1))) h = (if h = block_Hash C b then Some b else ReadBlock J D (bc_db (nd_bc n)) h)"
    "\<And>k. k \<noteq> eadBlock \<Longrightarrow> ReadCanonicalHash D (bc_db (nd_bc (persist C J D R n1))) k =
      (if k = big_Uint64 (Number (Header b)) then block_Hash C b else ReadCanonicalHash D (bc_db (nd_bc n)) k)"
proof (rule persist_adds [OF env(2) mined stored])
  fix par d1
  assume p: "currentBlock (nd_bc n) = Some par" "Number (Header b) = Number (Header par) + 1"
    "db_Write D (bc_db (nd_bc n)) (commit_batch (nd_state n1)) = Some d1"
    "AddBlock C J D ((nd_bc n)\<lparr>bc_db := d1\<rparr>) b (Some rs) = (nd_bc (persist C J D R n1), None)"
  note r = AddBlock_reads [OF env p(4)] commit_batch_reads [OF env(1) p(3)]
  have "bc_config (nd_bc (persist C J D R n1)) = bc_config (nd_bc n)"
    by (rule AddBlock_None [OF p(4)]) simp
  then show thesis by (rule that [OF p(1,2)]) (use r in simp_all)
qed

text \<open>The index ends at this number.\<close>

definition index_ends :: "'d leveldb \<Rightarrow> 'd \<Rightarrow> nat \<Rightarrow> bool" where
  "index_ends D d n \<longleftrightarrow> (\<forall>k. n < k \<longrightarrow> k < unat eadBlock \<longrightarrow> ReadCanonicalHash D d (of_nat k) = 0)"

lemma below_eadBlock:
  assumes "k < unat eadBlock"
  shows "(of_nat k :: uint64) \<noteq> eadBlock" "j < unat eadBlock \<Longrightarrow> (of_nat k :: uint64) = of_nat j \<longleftrightarrow> k = j"
    "big_Uint64 (int k) = of_nat k" "j < k \<Longrightarrow> (of_nat j :: uint64) < of_nat k"
proof -
  have lt: "j < 2 ^ 64" if "j < unat eadBlock" for j using that by (simp add: eadBlock_def)
  have u: "unat (of_nat j :: uint64) = j" if "j < unat eadBlock" for j using lt [OF that] by (simp add: unsigned_of_nat take_bit_nat_eq_self)
  show "(of_nat k :: uint64) \<noteq> eadBlock" using u [OF assms] assms by auto
  show "(of_nat k :: uint64) = of_nat j \<longleftrightarrow> k = j" if "j < unat eadBlock" using u [OF assms] u [OF that] by metis
  show "big_Uint64 (int k) = of_nat k" by (simp add: big_Uint64_def)
  show "(of_nat j :: uint64) < of_nat k" if "j < k" using u [OF assms] u [of j] that assms by (simp add: word_less_nat_alt)
qed

lemma history_index:
  assumes "history E C J D R I L n bs n'" and env: "leveldb_ok D" "db_writable D" "codec_ok J"
    and "currentBlock (nd_bc n) = Some head" "Number (Header head) = int N" "N + length bs < unat eadBlock"
    and "ReadBlock J D (bc_db (nd_bc n)) h = Some g" "index_ends D (bc_db (nd_bc n)) N"
  shows "(\<exists>head'. currentBlock (nd_bc n') = Some head' \<and> Number (Header head') = int (N + length bs)) \<and>
    bc_config (nd_bc n') = bc_config (nd_bc n) \<and> ReadBlock J D (bc_db (nd_bc n')) h = Some g \<and> index_ends D (bc_db (nd_bc n')) (N + length bs) \<and>
    (\<forall>i < length bs. GetBlockByNumber J D (nd_bc n') (of_nat (N + 1 + i)) = Some (bs ! i))"
  using assms(1,7)
proof induction
  case (history_start n')
  then show ?case using assms by (simp add: same_chain_def)
next
  case (history_block bs p b W now batch p1 rs key p')
  have bc: "nd_bc p' = nd_bc (persist C J D R p1)" using history_block.hyps(7) by (simp add: same_chain_def)
  have lt: "N + length bs < unat eadBlock" "Suc (N + length bs) < unat eadBlock" using history_block.prems by simp_all
  from history_block.IH [OF lt(1)] obtain head' where head': "currentBlock (nd_bc p) = Some head'"
    "Number (Header head') = int (N + length bs)" "ReadBlock J D (bc_db (nd_bc p)) h = Some g"
    "bc_config (nd_bc p) = bc_config (nd_bc n)"
    "index_ends D (bc_db (nd_bc p)) (N + length bs)"
    "\<And>i. i < length bs \<Longrightarrow> GetBlockByNumber J D (nd_bc p) (of_nat (N + 1 + i)) = Some (bs ! i)" by blast
  show ?case
  proof (rule persist_reads [OF env history_block.hyps(2,4,3)])
    show "currentBlock (nd_bc (persist C J D R p1)) = Some b" using history_block.hyps(8) bc by simp
  next
    fix par
    assume p: "currentBlock (nd_bc p) = Some par" "Number (Header b) = Number (Header par) + 1"
      "bc_config (nd_bc (persist C J D R p1)) = bc_config (nd_bc p)"
      "ReadBlock J D (bc_db (nd_bc p)) (block_Hash C b) = None"
      "\<And>h. ReadBlock J D (bc_db (nd_bc (persist C J D R p1))) h = (if h = block_Hash C b then Some b else ReadBlock J D (bc_db (nd_bc p)) h)"
      "\<And>k. k \<noteq> eadBlock \<Longrightarrow> ReadCanonicalHash D (bc_db (nd_bc (persist C J D R p1))) k =
        (if k = big_Uint64 (Number (Header b)) then block_Hash C b else ReadCanonicalHash D (bc_db (nd_bc p)) k)"
    have num: "Number (Header b) = int (N + length (bs @ [b]))" using p(1,2) head'(1,2) by simp
    have can: "ReadCanonicalHash D (bc_db (nd_bc p')) (of_nat k) =
        (if k = Suc (N + length bs) then block_Hash C b else ReadCanonicalHash D (bc_db (nd_bc p)) (of_nat k))" if "k < unat eadBlock" for k
      using p(6) [OF below_eadBlock(1) [OF that]] below_eadBlock(2) [OF that lt(2)] below_eadBlock(3) [OF lt(2)] num bc by simp
    have keep: "ReadBlock J D (bc_db (nd_bc p')) h' = Some g'" if "ReadBlock J D (bc_db (nd_bc p)) h' = Some g'" for h' g'
      using p(4,5) that bc by auto
    have "GetBlockByNumber J D (nd_bc p') (of_nat (N + 1 + i)) = Some ((bs @ [b]) ! i)" if "i < length (bs @ [b])" for i
    proof (cases "i < length bs")
      case True
      then show ?thesis using head'(6) [OF True] can [of "N + 1 + i"] lt keep
        by (auto simp: GetBlockByNumber_def Let_def nth_append split: if_splits)
    next
      case False
      then have "i = length bs" using that by simp
      then show ?thesis using can [OF lt(2)] p(5) bc history_block.hyps(9) by (simp add: GetBlockByNumber_def Let_def)
    qed
    moreover have "index_ends D (bc_db (nd_bc p')) (N + length (bs @ [b]))"
      using head'(5) can by (auto simp: index_ends_def)
    ultimately show ?thesis using history_block.hyps(8) num keep [OF head'(3)] head'(4) p(3) unfolding bc by simp
  qed
qed


lemma blocks_from_index:
  assumes "\<forall>i < length bs. GetBlockByNumber J D bc (num + of_nat i) = Some (bs ! i)"
    and "length bs \<le> k" "length bs = k \<or> GetBlockByNumber J D bc (num + of_nat (length bs)) = None"
  shows "blocks_from J D bc num k = bs"
  using assms
proof (induction bs arbitrary: num k)
  case Nil
  then show ?case by (cases k) auto
next
  case (Cons b bs)
  then obtain k' where k: "k = Suc k'" by (cases k) auto
  have "GetBlockByNumber J D bc num = Some b" using Cons.prems(1) by force
  moreover have "blocks_from J D bc (num + 1) k' = bs"
    using Cons.prems unfolding k by (intro Cons.IH) (force simp: add.assoc)+
  ultimately show ?case by (simp add: k)
qed

lemma wire_okD:
  assumes "wire_ok X"
  shows "EncodeMsg X (Status m) = Some d \<Longrightarrow> DecodeStatus X d = Some m"
    and "EncodeMsg X (GetBlocks r) = Some d \<Longrightarrow> DecodeGetBlocks X d = Some r"
    and "EncodeMsg X (BlocksMsg bs) = Some d \<Longrightarrow> DecodeBlocks X d = Some bs"
  using assms by (simp_all add: wire_ok_def)


subsection \<open>Replays\<close>

lemma GetLeader_again: "GetLeader C e view = (Some a, e') \<Longrightarrow> GetLeader C e' view = (Some a, e')"
  by (auto simp: GetLeader_def Let_def split: option.splits if_splits)

lemma Verify_again:
  assumes "Verify C e b = (None, e')"
  shows "Verify C e' b = (None, e')"
proof -
  obtain r e1 where l: "GetLeader C e (big_Uint64 (Number (Header b))) = (r, e1)"
    by (cases "GetLeader C e (big_Uint64 (Number (Header b)))")
  from assms obtain a where a: "r = Some a" "e1 = e'"
    by (cases r) (simp_all add: Verify_def Let_def l split: if_splits option.splits)
  note again = GetLeader_again [OF l [unfolded a]]
  show ?thesis using assms by (simp add: Verify_def Let_def l a again split: if_splits option.splits)
qed

lemma clear_dirty_kept:
  assumes "statedb_ok s" "parent s = None" "length k = 32" "length v \<le> 32" "v \<noteq> []"
  shows "statedb_ok (clear_dirty (setVerkleValue s k v))" "parent (clear_dirty (setVerkleValue s k v)) = None"
    "getVerkleValue (clear_dirty (setVerkleValue s k v)) k = v"
proof -
  let ?s = "setVerkleValue s k v"
  have ok: "statedb_ok ?s" "parent ?s = None" using statedb_ok_set [OF assms(1,3,4)] assms(2) by simp_all
  then obtain t where t: "tree (statedb.fields ?s) = Some t" by (cases ?s) (auto simp: base_ok_def split: option.splits)
  have "map_of (dirty (statedb.fields ?s)) k = Some v" by (simp add: setVerkleValue_def Let_def update_conv split: option.split)
  then show "statedb_ok (clear_dirty ?s)" "parent (clear_dirty ?s) = None" "getVerkleValue (clear_dirty ?s) k = v"
    using clear_dirty_reads [OF ok t] get_setVerkleValue [OF assms(1,3,4)] assms(5) ok(2) by (simp_all add: clear_dirty_def)
qed

lemma import_empty_credits:
  assumes "Verify C (nd_engine n) b = (None, e)" "Transactions b = []"
    and "statedb_ok (nd_state n)" "parent (nd_state n) = None"
    and "uint (GetBalance (Keccak C) (nd_state n) (Coinbase (Header b))) + 10 ^ 19 < 2 ^ 256"
  obtains n' where "importBlock E C J D R I b n = Some n'" "nd_engine n' = e" "statedb_ok (nd_state n')"
    "parent (nd_state n') = None"
    "uint (GetBalance (Keccak C) (nd_state n') (Coinbase (Header b))) =
       uint (GetBalance (Keccak C) (nd_state n) (Coinbase (Header b))) + 10 ^ 19"
proof -
  let ?K = "Keccak C" and ?a = "Coinbase (Header b)" and ?v = "GetBalance (Keccak C) (nd_state n) (Coinbase (Header b)) + 10 ^ 19"
  let ?s = "SetBalance ?K (nd_state n) ?a ?v"
  have s: "AddBalanceReward ?K (nd_state n) ?a 10000000000000000000 = ?s"
    by (simp add: AddBalanceReward_def AddBalance_def addBalance_h_def Let_def)
  have v: "uint ?v = uint (GetBalance ?K (nd_state n) ?a) + 10 ^ 19" using assms(5) by (simp add: uint_word_ariths)
  have "0 < uint ?v" using uint_nonnegative [of "GetBalance ?K (nd_state n) ?a"] unfolding v by (simp add: add_nonneg_pos)
  then have "?v \<noteq> 0" by (metis less_irrefl unsigned_0)
  then have "u256_Bytes ?v \<noteq> []" by simp
  note cl = clear_dirty_kept [OF assms(3,4) length_slotKey [of ?K "BalanceOf ?a"] length_u256_Bytes this]
  obtain n' where n': "importBlock E C J D R I b n = Some n'" "nd_engine n' = e" "nd_state n' = clear_dirty ?s"
    by (simp add: importBlock_def assms(1,2) ApplyBlock_empty s Let_def commit_block_def CommitState_def)
  moreover have "GetBalance ?K (clear_dirty ?s) ?a = ?v" using cl(3) by (simp add: setters_as_slots getters_as_slots read_slot_def)
  ultimately show thesis using cl(1,2) v by (intro that [of n']) (simp_all add: setters_as_slots)
qed

text \<open>C29. Replayed blocks mint coins: the blocks of a sync answer are imported without a check that they
  are new or extend the chain, so that a peer who repeats one valid empty block \<open>k\<close> times
  makes the node credit the reward to its coinbase \<open>k\<close> times.\<close>

theorem replay_mints:
  assumes "Verify C (nd_engine n) b = (None, e)" "Transactions b = []"
    and "statedb_ok (nd_state n)" "parent (nd_state n) = None"
    and "uint (GetBalance (Keccak C) (nd_state n) (Coinbase (Header b))) + int k * 10 ^ 19 < 2 ^ 256"
  shows "\<exists>n'. handleBlocks (Some (importBlock E C J D R I)) (replicate k b) n = Some n' \<and>
    uint (GetBalance (Keccak C) (nd_state n') (Coinbase (Header b))) =
      uint (GetBalance (Keccak C) (nd_state n) (Coinbase (Header b))) + int k * 10 ^ 19"
  using assms
proof (induction k arbitrary: n)
  case (Suc k)
  have room: "uint (GetBalance (Keccak C) (nd_state n) (Coinbase (Header b))) + 10 ^ 19 < 2 ^ 256"
    using Suc.prems(5) by (simp add: algebra_simps)
  obtain n1 where n1: "importBlock E C J D R I b n = Some n1" "nd_engine n1 = e" "statedb_ok (nd_state n1)"
    "parent (nd_state n1) = None"
    "uint (GetBalance (Keccak C) (nd_state n1) (Coinbase (Header b))) =
       uint (GetBalance (Keccak C) (nd_state n) (Coinbase (Header b))) + 10 ^ 19"
    by (rule import_empty_credits [OF Suc.prems(1-4) room])
  have "Verify C (nd_engine n1) b = (None, e)" using Verify_again [OF Suc.prems(1)] n1(2) by simp
  from Suc.IH [OF this Suc.prems(2) n1(3,4)] show ?case
    using n1(1,5) Suc.prems(5) by (auto simp: on_block_def algebra_simps)
qed simp


subsection \<open>Witnesses\<close>

definition demo_server :: server where
  "demo_server = NewServer\<lparr>s_peers := [0], s_obj := [0 \<mapsto> NewPeer True 0]\<rparr>"

definition demo_net_state :: "server \<Rightarrow> (bytes \<times> bytes) list net" where
  "demo_net_state s = \<lparr>n_srv = s, n_node = demo_node demo_engine, n_bcast = None\<rparr>"

definition no_wire :: wire where
  "no_wire = \<lparr>EncodeMsg = \<lambda>m. None, DecodeStatus = \<lambda>d. None, DecodeNewBlock = \<lambda>d. None, DecodeGetBlocks = \<lambda>d. None,
     DecodeBlocks = \<lambda>d. None, DecodeAuth = \<lambda>d. None\<rparr>"

theorem disconnect_stops_node_witness:
  "\<exists>y. net_run demo_evm gen_crypto demo_codec mem_db (\<lambda>_. 0) no_wire (demo_net_state demo_server) y \<and>
     (\<forall>z. net_run demo_evm gen_crypto demo_codec mem_db (\<lambda>_. 0) no_wire y z \<longrightarrow> nd_locked (n_node z))"
proof -
  have p: "0 \<in> set (s_peers (n_srv (demo_net_state demo_server)))" "s_obj (n_srv (demo_net_state demo_server)) 0 = Some (NewPeer True 0)"
    "p_read (NewPeer True 0) = Looping" "s_lock (n_srv (demo_net_state demo_server)) = None"
    by (simp_all add: demo_net_state_def demo_server_def NewServer_def NewPeer_def)
  have n: "n_node (demo_net_state demo_server) = demo_node demo_engine" "n_bcast (demo_net_state demo_server) = None"
    by (simp_all add: demo_net_state_def)
  from disconnect_stops_node [OF p, where n' = "demo_after (snd (GetLeader gen_crypto demo_engine 1))", unfolded n(1),
      OF _ _ n(2) _ demo_tick] show ?thesis by fastforce
qed

theorem auth_never_sent_witness:
  "\<exists>s p. setupPeer gen_crypto 0 True 7 (demo_node demo_engine) NewServer = Some s \<and> s_obj s 0 = Some p \<and>
     length (p_sendCh p) \<le> 100 \<and> MsgAuth \<notin> fst ` set (p_out p)"
proof -
  obtain s p where s: "setupPeer gen_crypto 0 True 7 (demo_node demo_engine) NewServer = Some s" "s_obj s 0 = Some p"
    by (simp add: setupPeer_def Let_def)
  have "net_step demo_evm gen_crypto demo_codec mem_db (\<lambda>_. 0) no_wire (demo_net_state NewServer)
      ((demo_net_state NewServer)\<lparr>n_srv := s\<rparr>)"
    by (rule net_connect [where i = 0 and outbound = True and now = 7]) (simp_all add: demo_net_state_def NewServer_def s(1) [unfolded NewServer_def])
  from auth_never_sent [OF _ net_next [OF net_refl this], of 0 p] s show ?thesis by (auto simp: demo_net_state_def)
qed

theorem rate_bounded_witness:
  "length [1, 2, 3 :: int] \<le> 200 \<and>
   (\<exists>s'. read_round gen_crypto demo_codec mem_db no_wire None 9 0 MsgStatus [] ((NewPeer True 0)\<lparr>p_msgsThisSec := 100\<rparr>)
      demo_server (demo_node demo_engine) = Some (s', demo_node demo_engine) \<and> map_option p_read (s_obj s' 0) = Some (AtLock True))"
proof -
  have "\<not> rate_ok [9] ((NewPeer True 0)\<lparr>p_msgsThisSec := 100\<rparr>)"
    by (simp add: rate_update_def rate_limit_def NewPeer_def)
  moreover have "rate_ok ([] @ [1, 2, 3] @ []) (NewPeer True 0)" by (simp add: rate_update_def rate_limit_def NewPeer_def Let_def)
  ultimately show ?thesis
    using rate_bounded [of "NewPeer True 0" "[]" "[1, 2, 3]" "[]" 1 9 "(NewPeer True 0)\<lparr>p_msgsThisSec := 100\<rparr>"
        gen_crypto demo_codec mem_db no_wire None 0 MsgStatus "[]" demo_server "demo_node demo_engine"]
    by (simp del: rate_ok.simps option.map_sel add: NewPeer_def)
qed

lemma demo_mined_number: "big_Uint64 (Number (Header demo_mined)) = 1"
  by (simp add: demo_mined_def demo_next_def new_header_def demo_gen_def big_Uint64_def)

lemma demo_verified: "\<exists>e. Verify gen_crypto demo_engine demo_mined = (None, e)"
proof -
  have lead: "fst (GetLeader gen_crypto demo_engine (big_Uint64 (Number (Header demo_mined)))) = Some (PrivToAddr gen_crypto 2)"
    using demo_engine_leads by (simp add: demo_mined_number)
  show ?thesis
    using Verify_mined [OF gen_sign(1) _ demo_processed [OF demo_key(1), of demo_codec "\<lambda>_. []"] _ _ lead] demo_key(1) by auto
qed

theorem replay_mints_witness:
  "\<exists>n'. handleBlocks (Some (importBlock demo_evm gen_crypto demo_codec mem_db (\<lambda>_. 0) (\<lambda>_. []))) [demo_mined, demo_mined, demo_mined]
      (demo_node demo_engine) = Some n' \<and>
    uint (GetBalance (Keccak gen_crypto) (nd_state n') (Coinbase (Header demo_mined))) = 3 * 10 ^ 19"
proof -
  obtain e where e: "Verify gen_crypto (nd_engine (demo_node demo_engine)) demo_mined = (None, e)" using demo_verified by auto
  have "GetBalance (Keccak gen_crypto) (NewState mem_db 0 None) a = 0" for a
    by (simp add: GetBalance_def fresh_reads Let_def)
  moreover have "statedb_ok (NewState mem_db 0 None)" "parent (NewState mem_db 0 None) = None"
    by (rule NewState_None_ok) (simp add: NewState_def)
  ultimately show ?thesis
    using replay_mints [OF e, of 3 demo_evm demo_codec mem_db "\<lambda>_. 0" "\<lambda>_. []"]
    by (simp add: demo_mined_def numeral_3_eq_3)
qed


text \<open>A codec of messages that knows one message of each kind used in a synchronisation.\<close>

definition sync_wire :: "StatusMsg \<Rightarrow> GetBlocksMsg \<Rightarrow> block list \<Rightarrow> wire" where
  "sync_wire st r bs = no_wire\<lparr>EncodeMsg := \<lambda>m. if m = Status st then Some [0] else if m = GetBlocks r then Some [1]
       else if m = BlocksMsg bs then Some [2] else None,
     DecodeStatus := \<lambda>d. Some st, DecodeGetBlocks := \<lambda>d. Some r, DecodeBlocks := \<lambda>d. Some bs\<rparr>"

lemma demo_history:
  "history demo_evm gen_crypto mined_codec mem_db (\<lambda>_. 0) (\<lambda>_ _. []) (leader_of gen_crypto (Validators demo_engine))
     (demo_node demo_engine) [demo_mined] (persist gen_crypto mined_codec mem_db (\<lambda>_. 0) (demo_after demo_engine))"
proof -
  let ?H = "history demo_evm gen_crypto mined_codec mem_db (\<lambda>_. 0) (\<lambda>_ _. []) (leader_of gen_crypto (Validators demo_engine)) (demo_node demo_engine)"
  have "engine_ok gen_crypto demo_engine" by (simp add: demo_engine_def engine_ok_NewZelius)
  then have lead: "leader_of gen_crypto (Validators demo_engine) 1 = Some (PrivToAddr gen_crypto 2)"
    using GetLeader_leader_of demo_engine_leads by (simp add: engine_ok_def)
  have "?H ([] @ [demo_mined]) (persist gen_crypto mined_codec mem_db (\<lambda>_. 0) (demo_after demo_engine))"
    by (rule history_block [OF history_start demo_processed [OF demo_key(1)], where key = 2 and rs = "[]"])
      (use lead demo_stored demo_hash_new(3) demo_key(1) in \<open>simp_all add: same_chain_def demo_mined_number\<close>)
  then show ?thesis by simp
qed


end
