(* ===== verification/RPC.thy ===== *)
theory RPC
  imports P2P
begin

text \<open>
  \<open>rpc/types.go\<close>, \<open>rpc/eth_api.go\<close>, \<open>rpc/eth_filters.go\<close>, \<open>rpc/eth_tx.go\<close>,
  \<open>rpc/net_api.go\<close>, \<open>rpc/zelius_api.go\<close>: the methods a client calls.

  The API objects hold the chain, the state, the executor and the transaction channel of the node by
  reference, so every method takes the node.  A result is an error or a value; the objects
  returned as maps from names to values are association lists over \<open>json\<close> in the order of
  the source, and the value \<open>nil\<close> is \<open>None\<close>.  A panic inside a method is
  caught by the server that dispatches it and appears as the error \<open>RpcPanic\<close>.  The methods
  change nothing, except that an accepted transaction is sent to the channel by a goroutine
  of its own.

  Parameters: the decoding of a transaction from its RLP list and from the string of a typed
  envelope, and the root of the transaction trie (\<open>types.DeriveSha\<close>).
\<close>

subsection \<open>Arguments and results\<close>

text \<open>\<open>rpc.BlockNumber\<close> with its names for blocks, and \<open>rpc.BlockNumberOrHash\<close>.\<close>

definition EarliestBlockNumber :: int where "EarliestBlockNumber = - 5"
definition SafeBlockNumber :: int where "SafeBlockNumber = - 4"
definition FinalizedBlockNumber :: int where "FinalizedBlockNumber = - 3"
definition LatestBlockNumber :: int where "LatestBlockNumber = - 2"
definition PendingBlockNumber :: int where "PendingBlockNumber = - 1"

lemmas block_tags = EarliestBlockNumber_def SafeBlockNumber_def FinalizedBlockNumber_def LatestBlockNumber_def PendingBlockNumber_def

record BlockNumberOrHash =
  q_BlockNumber :: "int option"
  q_BlockHash :: "hash option"

datatype rpc_error = BlockNotFound | DecodeError | InvalidChainId int int | InvalidTxSignature | OversizedTx
  | NodeNotReady | NonceTooLow | InsufficientFunds | SimulationFailed vm_error | Reverted vm_error
  | ExecutionError core_error | FeeHistoryNotSupported | TooManyResults | BackendError send_error | RpcPanic

datatype json = JUint uint64 | JBig "int option" | JHash hash | JAddress address | JAddressOpt "address option"
  | JBytes bytes | JHashes "hash list" | JTxs "transaction list" | JLogs "log list"

type_synonym json_object = "(string \<times> json) list"

record CallArgs =
  a_From :: "address option"
  a_To :: "address option"
  a_Gas :: "uint64 option"
  a_GasPrice :: "int option"
  a_MaxFeePerGas :: "int option"
  a_MaxPriorityFeePerGas :: "int option"
  a_Value :: "int option"
  a_Data :: "bytes option"
  a_Input :: "bytes option"
  a_Nonce :: "uint64 option"
  a_AccessList :: "(address \<times> hash list) list option"

text \<open>
  The message of a call.  When neither a price nor a base fee is known the fee caps are \<open>nil\<close>
  and appear as 0; the checks of London, the only place where this could matter, panic on the
  missing cap as they do on the missing base fee.
\<close>

definition ToMessage :: "CallArgs \<Rightarrow> uint64 \<Rightarrow> int option \<Rightarrow> message" where
  "ToMessage args globalGasCap baseFee =
     (let from = (case a_From args of None \<Rightarrow> 0 | Some a \<Rightarrow> a);
          gas0 = (case a_Gas args of None \<Rightarrow> 0 | Some g \<Rightarrow> g);
          gas = (if gas0 = 0 then globalGasCap else gas0);
          (gasPrice, gasFeeCap, gasTipCap) =
            (case a_GasPrice args of
               Some p \<Rightarrow> (p, p, p)
             | None \<Rightarrow>
                 (case baseFee of
                    Some b \<Rightarrow>
                      (let feeCap = (case a_MaxFeePerGas args of None \<Rightarrow> b + 1000000000 | Some f \<Rightarrow> f);
                           tipCap = (case a_MaxPriorityFeePerGas args of None \<Rightarrow> 1000000000 | Some t \<Rightarrow> t)
                       in (feeCap, feeCap, tipCap))
                  | None \<Rightarrow> (0, 0, 0)));
          value = (case a_Value args of None \<Rightarrow> 0 | Some v \<Rightarrow> v);
          data = (case a_Data args of Some d \<Rightarrow> d | None \<Rightarrow> (case a_Input args of Some d \<Rightarrow> d | None \<Rightarrow> []));
          accessList = (case a_AccessList args of None \<Rightarrow> [] | Some al \<Rightarrow> al);
          nonce = (case a_Nonce args of None \<Rightarrow> 0 | Some n \<Rightarrow> n)
      in \<lparr>m_From = from, m_To = a_To args, m_Value = value, m_Nonce = nonce, m_GasLimit = gas, m_GasPrice = gasPrice,
           m_GasFeeCap = gasFeeCap, m_GasTipCap = gasTipCap, m_Data = data, m_AccessList = accessList,
           m_BlobHashes = None, m_BlobGasFeeCap = None, m_SkipNonceChecks = False, m_SkipTransactionChecks = False\<rparr>)"

subsection \<open>The chain and its blocks\<close>

definition eth_BlockNumber :: "'d node \<Rightarrow> rpc_error + int" where
  "eth_BlockNumber n = (case currentBlock (nd_bc n) of None \<Rightarrow> Inl RpcPanic | Some b \<Rightarrow> Inr (Number (Header b)))"

definition eth_ChainId :: "'d node \<Rightarrow> int" where
  "eth_ChainId n = n_ChainID (bc_config (nd_bc n))"

text \<open>The balance is read from the state the node works on, whatever block is asked for.\<close>

definition eth_GetBalance :: "crypto \<Rightarrow> 'd node \<Rightarrow> address \<Rightarrow> BlockNumberOrHash \<Rightarrow> rpc_error + int" where
  "eth_GetBalance C n addr q = Inr (u256_ToBig (GetBalance (Keccak C) (nd_state n) addr))"

definition headerByRpcBlock :: "codec \<Rightarrow> 'd leveldb \<Rightarrow> 'd node \<Rightarrow> BlockNumberOrHash \<Rightarrow> rpc_error + header" where
  "headerByRpcBlock J D n q =
     (let found = (\<lambda>bo e. case bo of None \<Rightarrow> Inl e | Some b \<Rightarrow> Inr (Header b)) in
      case q_BlockHash q of
        Some h \<Rightarrow> found (GetBlockByHash J D (nd_bc n) h) BlockNotFound
      | None \<Rightarrow>
          (case q_BlockNumber q of
             Some nr \<Rightarrow>
               (if nr = LatestBlockNumber then found (currentBlock (nd_bc n)) RpcPanic
                else if nr = PendingBlockNumber then found (currentBlock (nd_bc n)) RpcPanic
                else if nr = EarliestBlockNumber then found (GenesisBlock J D (nd_bc n)) RpcPanic
                else found (GetBlockByNumber J D (nd_bc n) (of_int nr)) BlockNotFound)
           | None \<Rightarrow> found (currentBlock (nd_bc n)) RpcPanic))"

definition eth_GetTransactionCount ::
    "crypto \<Rightarrow> codec \<Rightarrow> 'd leveldb \<Rightarrow> 'd node \<Rightarrow> address \<Rightarrow> BlockNumberOrHash \<Rightarrow> rpc_error + uint64" where
  "eth_GetTransactionCount C J D n addr q =
     (case headerByRpcBlock J D n q of
        Inl e \<Rightarrow> Inl e
      | Inr h \<Rightarrow> Inr (GetNonce (Keccak C) (StateAt D (nd_bc n) (VerkleRoot h)) addr))"

definition eth_GetCode ::
    "crypto \<Rightarrow> codec \<Rightarrow> 'd leveldb \<Rightarrow> 'd node \<Rightarrow> address \<Rightarrow> BlockNumberOrHash \<Rightarrow> rpc_error + bytes" where
  "eth_GetCode C J D n addr q =
     (case headerByRpcBlock J D n q of
        Inl e \<Rightarrow> Inl e
      | Inr h \<Rightarrow> Inr (fst (GetCode (Keccak C) D (bc_db (nd_bc n)) (StateAt D (nd_bc n) (VerkleRoot h)) addr)))"

definition eth_GetStorageAt ::
    "crypto \<Rightarrow> codec \<Rightarrow> 'd leveldb \<Rightarrow> 'd node \<Rightarrow> address \<Rightarrow> string \<Rightarrow> BlockNumberOrHash \<Rightarrow> rpc_error + bytes" where
  "eth_GetStorageAt C J D n addr slot q =
     (case headerByRpcBlock J D n q of
        Inl e \<Rightarrow> Inl e
      | Inr h \<Rightarrow> Inr (hash_Bytes (GetState (Keccak C) (StateAt D (nd_bc n) (VerkleRoot h)) addr (HexToHash slot))))"

definition EmptyUncleHash :: hash where
  "EmptyUncleHash = 0x1dcc4de8dec75d7aab85b567b6ccd41ad312451b948a7413f0a142fd40d49347"

definition EmptyRootHash :: hash where
  "EmptyRootHash = 0x56e81f171bcc55a6ff8345e692c0f86e5b48e01b996cadc001622fb5e363b421"

definition block_fields :: "crypto \<Rightarrow> (transaction list \<Rightarrow> hash) \<Rightarrow> block \<Rightarrow> json_object" where
  "block_fields C DeriveSha b =
     [(''number'', JUint (big_Uint64 (Number (Header b)))),
      (''hash'', JHash (block_Hash C b)),
      (''parentHash'', JHash (ParentHash (Header b))),
      (''nonce'', JBytes (replicate 8 0)),
      (''sha3Uncles'', JHash EmptyUncleHash),
      (''logsBloom'', JBytes (replicate 256 0)),
      (''transactionsRoot'', JHash (DeriveSha (Transactions b))),
      (''stateRoot'', JHash (VerkleRoot (Header b))),
      (''receiptsRoot'', JHash EmptyRootHash),
      (''miner'', JAddress (Coinbase (Header b))),
      (''difficulty'', JBig (Difficulty (Header b))),
      (''totalDifficulty'', JBig (Difficulty (Header b))),
      (''extraData'', JBytes (ExtraData (Header b))),
      (''size'', JUint 1000),
      (''gasLimit'', JUint (GasLimit (Header b))),
      (''gasUsed'', JUint (GasUsed (Header b))),
      (''timestamp'', JUint (Time (Header b))),
      (''uncles'', JHashes [])]"

definition block_txs :: "bool \<Rightarrow> block \<Rightarrow> json_object" where
  "block_txs fullTx b =
     [(''transactions'', if fullTx then JTxs (Transactions b) else JHashes (map tx_Hash (Transactions b)))]"

definition eth_GetBlockByNumber ::
    "crypto \<Rightarrow> codec \<Rightarrow> 'd leveldb \<Rightarrow> (transaction list \<Rightarrow> hash) \<Rightarrow> 'd node \<Rightarrow> int \<Rightarrow> bool \<Rightarrow> json_object option" where
  "eth_GetBlockByNumber C J D DeriveSha n blockNr fullTx =
     (let block = (if blockNr = LatestBlockNumber then currentBlock (nd_bc n)
                   else if blockNr = PendingBlockNumber then None
                   else (let hash = ReadCanonicalHash D (bc_db (nd_bc n)) (of_int blockNr)
                         in if hash \<noteq> 0 then ReadBlock J D (bc_db (nd_bc n)) hash else None))
      in case block of
           None \<Rightarrow> None
         | Some b \<Rightarrow> Some (block_fields C DeriveSha b @ [(''mixHash'', JHash 0)] @ block_txs fullTx b))"

definition eth_GetBlockByHash ::
    "crypto \<Rightarrow> codec \<Rightarrow> 'd leveldb \<Rightarrow> (transaction list \<Rightarrow> hash) \<Rightarrow> 'd node \<Rightarrow> hash \<Rightarrow> bool \<Rightarrow> json_object option" where
  "eth_GetBlockByHash C J D DeriveSha n hash fullTx =
     (case ReadBlock J D (bc_db (nd_bc n)) hash of
        None \<Rightarrow> None
      | Some b \<Rightarrow> Some (block_fields C DeriveSha b @ block_txs fullTx b))"

subsection \<open>Submitting\<close>

text \<open>
  \<open>rlp.DecodeBytes\<close> into a transaction: a list is a legacy transaction, a string holds a typed
  one, and a single byte below \<open>0x80\<close> is its own encoding and too short for a transaction.
\<close>

record tx_codec =
  DecodeLegacy :: "bytes \<Rightarrow> transaction option"
  DecodeTyped :: "bytes \<Rightarrow> transaction option"

definition decode_tx :: "tx_codec \<Rightarrow> bytes \<Rightarrow> transaction option" where
  "decode_tx T data =
     (case data of
        [] \<Rightarrow> None
      | b # _ \<Rightarrow> (if b < 0x80 then None else if b < 0xC0 then DecodeTyped T data else DecodeLegacy T data))"

text \<open>An accepted transaction: the hash that is returned and what the goroutine sends to the channel.\<close>

definition eth_SendRawTransaction ::
    "crypto \<Rightarrow> tx_codec \<Rightarrow> 'd leveldb \<Rightarrow> 'd node \<Rightarrow> bytes \<Rightarrow> rpc_error + hash \<times> transaction" where
  "eth_SendRawTransaction C T D n data =
     (case decode_tx T data of
        None \<Rightarrow> Inl DecodeError
      | Some tx \<Rightarrow>
          (let chainID = n_ChainID (bc_config (nd_bc n)) in
           if tx_ChainId tx > 0 \<and> tx_ChainId tx \<noteq> chainID then Inl (InvalidChainId (tx_ChainId tx) chainID)
           else case Sender C (c_ChainID (ChainConfigOf (bc_config (nd_bc n)))) tx of
                  None \<Rightarrow> Inl InvalidTxSignature
                | Some from \<Rightarrow>
                    (if tx_Size tx > 524288 then Inl OversizedTx
                     else case currentBlock (nd_bc n) of
                            None \<Rightarrow> Inl NodeNotReady
                          | Some b \<Rightarrow>
                              (let s = StateAt D (nd_bc n) (VerkleRoot (Header b));
                                   cost = int (unat (tx_Gas tx)) * tx_GasPrice tx + tx_Value tx
                               in if tx_Nonce tx < GetNonce (Keccak C) s from then Inl NonceTooLow
                                  else if u256_ToBig (GetBalance (Keccak C) s from) < cost then Inl InsufficientFunds
                                  else Inr (tx_Hash tx, tx)))))"

subsection \<open>Prices and simulation\<close>

definition eth_GasPrice :: "'d node \<Rightarrow> rpc_error + int" where
  "eth_GasPrice n =
     (case currentBlock (nd_bc n) of
        None \<Rightarrow> Inl RpcPanic
      | Some b \<Rightarrow> Inr (case BaseFee (Header b) of None \<Rightarrow> 20000000000 | Some f \<Rightarrow> f + 2000000000))"

definition eth_MaxPriorityFeePerGas :: int where
  "eth_MaxPriorityFeePerGas = 2000000000"

text \<open>
  Running the message of a call on the state of the chain, with the nonce of the state when none is
  given.
\<close>

definition simulate ::
    "evm \<Rightarrow> crypto \<Rightarrow> codec \<Rightarrow> 'd leveldb \<Rightarrow> 'd node \<Rightarrow> header \<Rightarrow> CallArgs \<Rightarrow> rpc_error + execution_result" where
  "simulate E C J D n header args =
     (let s = StateAt D (nd_bc n) (VerkleRoot header);
          e = node_executor J D n;
          msg = ToMessage args (GasLimit header) (BaseFee header);
          msg1 = (if a_Nonce args = None then msg\<lparr>m_Nonce := GetNonce (Keccak C) s (m_From msg)\<rparr> else msg)
      in case Call E C D (bc_db (nd_bc n)) e s header msg1 of
           Inl err \<Rightarrow> Inl (if err = Panic then RpcPanic else ExecutionError err)
         | Inr res \<Rightarrow> Inr res)"

definition eth_EstimateGas ::
    "evm \<Rightarrow> crypto \<Rightarrow> codec \<Rightarrow> 'd leveldb \<Rightarrow> 'd node \<Rightarrow> CallArgs \<Rightarrow> rpc_error + uint64" where
  "eth_EstimateGas E C J D n args =
     (case currentBlock (nd_bc n) of
        None \<Rightarrow> Inl RpcPanic
      | Some b \<Rightarrow>
          (case simulate E C J D n (Header b) args of
             Inl e \<Rightarrow> Inl e
           | Inr res \<Rightarrow>
               (case Err res of
                  Some err \<Rightarrow> Inl (SimulationFailed err)
                | None \<Rightarrow>
                    (let estimated = UsedGas res + UsedGas res div 5
                     in Inr (if estimated > GasLimit (Header b) then GasLimit (Header b) else estimated)))))"

definition eth_Call ::
    "evm \<Rightarrow> crypto \<Rightarrow> codec \<Rightarrow> 'd leveldb \<Rightarrow> 'd node \<Rightarrow> CallArgs \<Rightarrow> BlockNumberOrHash \<Rightarrow> rpc_error + bytes" where
  "eth_Call E C J D n args q =
     (case headerByRpcBlock J D n q of
        Inl e \<Rightarrow> Inl e
      | Inr header \<Rightarrow>
          (case simulate E C J D n header args of
             Inl e \<Rightarrow> Inl e
           | Inr res \<Rightarrow> (case Err res of Some err \<Rightarrow> Inl (Reverted err) | None \<Rightarrow> Inr (ReturnData res))))"

definition eth_Coinbase :: "'d node \<Rightarrow> rpc_error + address" where
  "eth_Coinbase n = (case currentBlock (nd_bc n) of None \<Rightarrow> Inl RpcPanic | Some b \<Rightarrow> Inr (Coinbase (Header b)))"

subsection \<open>Transactions and receipts\<close>

definition tx_from :: "crypto \<Rightarrow> 'd node \<Rightarrow> transaction \<Rightarrow> address" where
  "tx_from C n tx = (case Sender C (c_ChainID (ChainConfigOf (bc_config (nd_bc n)))) tx of None \<Rightarrow> 0 | Some a \<Rightarrow> a)"

definition eth_GetTransactionByHash ::
    "crypto \<Rightarrow> codec \<Rightarrow> 'd leveldb \<Rightarrow> 'd node \<Rightarrow> hash \<Rightarrow> json_object option" where
  "eth_GetTransactionByHash C J D n hash =
     (case ReadTxLookupEntry J D (bc_db (nd_bc n)) hash of
        None \<Rightarrow> None
      | Some entry \<Rightarrow>
          (case ReadBlock J D (bc_db (nd_bc n)) (e_BlockHash entry) of
             None \<Rightarrow> None
           | Some b \<Rightarrow>
               (if unat (e_TxIndex entry) \<ge> length (Transactions b) then None
                else
                  (let tx = Transactions b ! unat (e_TxIndex entry)
                   in Some [(''hash'', JHash (tx_Hash tx)), (''nonce'', JUint (tx_Nonce tx)),
                        (''blockHash'', JHash (e_BlockHash entry)), (''blockNumber'', JUint (e_BlockIndex entry)),
                        (''transactionIndex'', JUint (e_TxIndex entry)), (''from'', JAddress (tx_from C n tx)),
                        (''to'', JAddressOpt (tx_To tx)), (''value'', JBig (Some (tx_Value tx))),
                        (''gas'', JUint (tx_Gas tx)), (''gasPrice'', JBig (Some (tx_GasPrice tx))),
                        (''input'', JBytes (tx_Data tx)), (''v'', JBig (Some (tx_V tx))), (''r'', JBig (Some (tx_R tx))),
                        (''s'', JBig (Some (tx_S tx))), (''type'', JUint (ucast (tx_Type tx))),
                        (''chainId'', JBig (Some (tx_ChainId tx)))]))))"

text \<open>The logs of a receipt with their position; the index counts within the transaction.\<close>

fun hydrate :: "TxLookupEntry \<Rightarrow> hash \<Rightarrow> nat \<Rightarrow> log list \<Rightarrow> log list" where
  "hydrate entry hash i [] = []"
| "hydrate entry hash i (l # ls) =
     l\<lparr>log_BlockNumber := e_BlockIndex entry, log_BlockHash := e_BlockHash entry, log_TxHash := hash,
       log_TxIndex := unat (e_TxIndex entry), log_Index := i, log_Removed := False\<rparr> # hydrate entry hash (Suc i) ls"

definition effectiveGasPrice :: "header \<Rightarrow> transaction \<Rightarrow> int" where
  "effectiveGasPrice h tx =
     (case BaseFee h of
        None \<Rightarrow> tx_GasPrice tx
      | Some b \<Rightarrow> (let priority = b + tx_GasTipCap tx in if priority < tx_GasPrice tx then priority else tx_GasPrice tx))"

definition eth_GetTransactionReceipt ::
    "crypto \<Rightarrow> codec \<Rightarrow> 'd leveldb \<Rightarrow> 'd node \<Rightarrow> hash \<Rightarrow> rpc_error + json_object option" where
  "eth_GetTransactionReceipt C J D n hash =
     (case ReadTxLookupEntry J D (bc_db (nd_bc n)) hash of
        None \<Rightarrow> Inr None
      | Some entry \<Rightarrow>
          (case ReadBlock J D (bc_db (nd_bc n)) (e_BlockHash entry) of
             None \<Rightarrow> Inr None
           | Some b \<Rightarrow>
               (case ReadReceipts J D (bc_db (nd_bc n)) (e_BlockHash entry) of
                  None \<Rightarrow> Inr None
                | Some rs \<Rightarrow>
                    (if unat (e_TxIndex entry) \<ge> length rs then Inr None
                     else if unat (e_TxIndex entry) \<ge> length (Transactions b) then Inl RpcPanic
                     else
                       (let receipt = rs ! unat (e_TxIndex entry);
                            tx = Transactions b ! unat (e_TxIndex entry)
                        in Inr (Some
                             [(''transactionHash'', JHash hash), (''transactionIndex'', JUint (e_TxIndex entry)),
                              (''blockHash'', JHash (e_BlockHash entry)), (''blockNumber'', JUint (e_BlockIndex entry)),
                              (''from'', JAddress (tx_from C n tx)), (''to'', JAddressOpt (tx_To tx)),
                              (''cumulativeGasUsed'', JUint (CumulativeGasUsed receipt)),
                              (''gasUsed'', JUint (r_GasUsed receipt)),
                              (''effectiveGasPrice'', JBig (Some (effectiveGasPrice (Header b) tx))),
                              (''contractAddress'', JAddressOpt (if ContractAddress receipt \<noteq> 0 then Some (ContractAddress receipt) else None)),
                              (''logs'', JLogs (hydrate entry hash 0 (Logs receipt))),
                              (''logsBloom'', JBytes (Bloom receipt)), (''status'', JUint (receipt.Status receipt)),
                              (''type'', JUint (ucast (tx_Type tx)))]))))))"

subsection \<open>Log filters\<close>

record FilterCriteria =
  f_BlockHash :: "hash option"
  f_FromBlock :: "int option"
  f_ToBlock :: "int option"
  f_Addresses :: "address list"
  f_Topics :: "hash list list"

text \<open>The loop over the topic positions, from position \<open>i\<close> on.\<close>

fun topics_match :: "log \<Rightarrow> nat \<Rightarrow> hash list list \<Rightarrow> bool" where
  "topics_match l i [] \<longleftrightarrow> True"
| "topics_match l i (sub # rest) \<longleftrightarrow>
     (if i \<ge> length (log_Topics l) then False
      else if sub = [] then topics_match l (Suc i) rest
      else if list_ex (\<lambda>topic. log_Topics l ! i = topic) sub then topics_match l (Suc i) rest
      else False)"

definition filterLog :: "log \<Rightarrow> address list \<Rightarrow> hash list list \<Rightarrow> bool" where
  "filterLog l addresses topics =
     (if length addresses > 0 \<and> \<not> list_ex (\<lambda>addr. log_Address l = addr) addresses then False
      else topics_match l 0 topics)"

text \<open>The loops over the logs of a receipt, the receipts of a block and the blocks.\<close>

fun logs_of_receipt ::
    "address list \<Rightarrow> hash list list \<Rightarrow> uint64 \<Rightarrow> hash \<Rightarrow> block option \<Rightarrow> nat \<Rightarrow> nat \<Rightarrow> log list \<Rightarrow> log list" where
  "logs_of_receipt as ts number hash bo ti li [] = []"
| "logs_of_receipt as ts number hash bo ti li (l # ls) =
     (let rest = logs_of_receipt as ts number hash bo ti (Suc li) ls in
      if filterLog l as ts then
        (let l1 = l\<lparr>log_BlockNumber := number, log_BlockHash := hash\<rparr>;
             l2 = (case bo of
                     Some b \<Rightarrow> (if ti < length (Transactions b)
                                then l1\<lparr>log_TxHash := tx_Hash (Transactions b ! ti), log_TxIndex := ti, log_Index := li\<rparr>
                                else l1)
                   | None \<Rightarrow> l1)
         in l2 # rest)
      else rest)"

fun logs_of_receipts ::
    "address list \<Rightarrow> hash list list \<Rightarrow> uint64 \<Rightarrow> hash \<Rightarrow> block option \<Rightarrow> nat \<Rightarrow> receipt list \<Rightarrow> log list" where
  "logs_of_receipts as ts number hash bo ti [] = []"
| "logs_of_receipts as ts number hash bo ti (r # rs) =
     logs_of_receipt as ts number hash bo ti 0 (Logs r) @ logs_of_receipts as ts number hash bo (Suc ti) rs"

definition logs_of_block ::
    "codec \<Rightarrow> 'd leveldb \<Rightarrow> 'd \<Rightarrow> address list \<Rightarrow> hash list list \<Rightarrow> int \<Rightarrow> log list" where
  "logs_of_block J D d as ts i =
     (let hash = ReadCanonicalHash D d (of_int i) in
      if hash = 0 then []
      else case ReadReceipts J D d hash of
             None \<Rightarrow> []
           | Some rs \<Rightarrow> logs_of_receipts as ts (of_int i) hash (ReadBlock J D d hash) 0 rs)"

text \<open>The loop \<open>for i := begin; i <= end; i++\<close> over \<open>k\<close> blocks.\<close>

primrec collect_logs ::
    "codec \<Rightarrow> 'd leveldb \<Rightarrow> 'd \<Rightarrow> address list \<Rightarrow> hash list list \<Rightarrow> int \<Rightarrow> nat \<Rightarrow> log list" where
  "collect_logs J D d as ts i 0 = []"
| "collect_logs J D d as ts i (Suc k) = logs_of_block J D d as ts i @ collect_logs J D d as ts (i + 1) k"

text \<open>A bound of the range, given the head; the number of a block is converted to \<open>int64\<close>.\<close>

definition block_int64 :: "block \<Rightarrow> int" where
  "block_int64 b = sint (big_Uint64 (Number (Header b)))"

definition resolve_bound :: "int option \<Rightarrow> int option \<Rightarrow> int option" where
  "resolve_bound head bound =
     (let nr = (case bound of None \<Rightarrow> LatestBlockNumber | Some nr \<Rightarrow> nr)
      in if nr = LatestBlockNumber \<or> nr = PendingBlockNumber then head
         else if nr = EarliestBlockNumber then Some 0
         else Some nr)"

text \<open>The range of a filter; no range when it names a block that is not stored.\<close>

definition log_range ::
    "codec \<Rightarrow> 'd leveldb \<Rightarrow> 'd \<Rightarrow> int option \<Rightarrow> FilterCriteria \<Rightarrow> rpc_error + (int \<times> int) option" where
  "log_range J D d head criteria =
     (case f_BlockHash criteria of
        Some h \<Rightarrow> Inr (map_option (\<lambda>b. (block_int64 b, block_int64 b)) (ReadBlock J D d h))
      | None \<Rightarrow>
          (case (resolve_bound head (f_FromBlock criteria), resolve_bound head (f_ToBlock criteria)) of
             (Some begin, Some end0) \<Rightarrow> Inr (Some (begin, end0))
           | _ \<Rightarrow> Inl RpcPanic))"

definition eth_GetLogs ::
    "codec \<Rightarrow> 'd leveldb \<Rightarrow> 'd node \<Rightarrow> FilterCriteria \<Rightarrow> rpc_error + log list" where
  "eth_GetLogs J D n criteria =
     (let d = bc_db (nd_bc n); head = map_option block_int64 (currentBlock (nd_bc n)) in
      case log_range J D d head criteria of
        Inl e \<Rightarrow> Inl e
      | Inr None \<Rightarrow> Inr []
      | Inr (Some (begin, end0)) \<Rightarrow>
          (case head of
             None \<Rightarrow> Inl RpcPanic
           | Some headNum \<Rightarrow>
               (let end1 = (if end0 > headNum then headNum else end0)
                in if begin > headNum then Inr []
                   else if begin > end1 then Inr []
                   else if end1 - begin > 2000 then Inl TooManyResults
                   else Inr (collect_logs J D d (f_Addresses criteria) (f_Topics criteria) begin (nat (end1 - begin + 1))))))"

subsection \<open>Network, hashing and staking\<close>

definition net_PeerCount :: "server option \<Rightarrow> nat" where
  "net_PeerCount p2p = (case p2p of None \<Rightarrow> 0 | Some s \<Rightarrow> PeerCount s)"

text \<open>\<open>net_version\<close> and \<open>eth_netVersion\<close>: the chain id in decimal.\<close>

definition net_Version :: "'d node \<Rightarrow> string" where
  "net_Version n =
     (let cid = n_ChainID (bc_config (nd_bc n))
      in if cid < 0 then CHR ''-'' # show_nat (nat (- cid)) else show_nat (nat cid))"

definition web3_Sha3 :: "crypto \<Rightarrow> bytes \<Rightarrow> bytes" where
  "web3_Sha3 C input = hash_Bytes (Keccak C input)"

definition zelius_Stake ::
    "crypto \<Rightarrow> (int \<Rightarrow> transaction \<Rightarrow> privkey \<Rightarrow> transaction option) \<Rightarrow> address \<Rightarrow> int \<Rightarrow> 'd node \<Rightarrow> rpc_error + 'd node" where
  "zelius_Stake C SignTx author amount n =
     (case SendStakeTx C SignTx amount author n of Inl e \<Rightarrow> Inl (BackendError e) | Inr n' \<Rightarrow> Inr n')"

definition zelius_Unstake ::
    "crypto \<Rightarrow> (int \<Rightarrow> transaction \<Rightarrow> privkey \<Rightarrow> transaction option) \<Rightarrow> address \<Rightarrow> 'd node \<Rightarrow> rpc_error + 'd node" where
  "zelius_Unstake C SignTx author n =
     (case SendUnstakeTx C SignTx author n of Inl e \<Rightarrow> Inl (BackendError e) | Inr n' \<Rightarrow> Inr n')"


subsection \<open>Log filters meet their specification\<close>

text \<open>
  What a client asks for, without the loops: an address among those given, if any are, and at every
  position that is constrained a topic among those given.
\<close>

definition log_matches :: "log \<Rightarrow> address list \<Rightarrow> hash list list \<Rightarrow> bool" where
  "log_matches l addresses topics \<longleftrightarrow> (addresses = [] \<or> log_Address l \<in> set addresses) \<and>
     length topics \<le> length (log_Topics l) \<and>
     (\<forall>i < length topics. topics ! i = [] \<or> log_Topics l ! i \<in> set (topics ! i))"

lemma topics_match_spec:
  "topics_match l i ts \<longleftrightarrow> (ts = [] \<or> i + length ts \<le> length (log_Topics l)) \<and>
     (\<forall>j < length ts. ts ! j = [] \<or> log_Topics l ! (i + j) \<in> set (ts ! j))"
proof (induction ts arbitrary: i)
  case (Cons sub rest)
  then show ?case by (auto simp: All_less_Suc2 list_ex_iff)
qed simp

lemma filterLog_spec: "filterLog l as ts = log_matches l as ts"
  by (auto simp: filterLog_def log_matches_def topics_match_spec list_ex_iff)

text \<open>A log with the metadata of its position.\<close>

definition located_log :: "uint64 \<Rightarrow> hash \<Rightarrow> block option \<Rightarrow> nat \<Rightarrow> nat \<Rightarrow> log \<Rightarrow> log" where
  "located_log number hash bo ti li l =
     (let l1 = l\<lparr>log_BlockNumber := number, log_BlockHash := hash\<rparr>
      in case bo of
           Some b \<Rightarrow> (if ti < length (Transactions b)
                      then l1\<lparr>log_TxHash := tx_Hash (Transactions b ! ti), log_TxIndex := ti, log_Index := li\<rparr> else l1)
         | None \<Rightarrow> l1)"

lemma logs_of_receipt_spec:
  "logs_of_receipt as ts number hash bo ti li ls =
     map (\<lambda>(k, l). located_log number hash bo ti k l) (filter (\<lambda>(k, l). log_matches l as ts) (enumerate li ls))"
  by (induction ls arbitrary: li) (simp_all add: filterLog_spec located_log_def Let_def)

lemma logs_of_receipts_spec:
  "logs_of_receipts as ts number hash bo ti rs =
     concat (map (\<lambda>(k, r). logs_of_receipt as ts number hash bo k 0 (Logs r)) (enumerate ti rs))"
  by (induction rs arbitrary: ti) simp_all

lemma in_logs_of_receipt:
  "l' \<in> set (logs_of_receipt as ts number hash bo ti 0 ls) \<longleftrightarrow>
     (\<exists>li < length ls. log_matches (ls ! li) as ts \<and> l' = located_log number hash bo ti li (ls ! li))"
proof -
  have "(k, l) \<in> set (enumerate 0 ls) \<longleftrightarrow> k < length ls \<and> l = ls ! k" for k l by (auto simp: in_set_enumerate_eq)
  then show ?thesis by (auto simp: logs_of_receipt_spec)
qed

lemma in_logs_of_receipts:
  "l' \<in> set (logs_of_receipts as ts number hash bo 0 rs) \<longleftrightarrow>
     (\<exists>ti < length rs. l' \<in> set (logs_of_receipt as ts number hash bo ti 0 (Logs (rs ! ti))))"
proof -
  have "(k, r) \<in> set (enumerate 0 rs) \<longleftrightarrow> k < length rs \<and> r = rs ! k" for k r by (auto simp: in_set_enumerate_eq)
  then show ?thesis by (auto simp: logs_of_receipts_spec)
qed

lemma collect_logs_spec:
  "collect_logs J D d as ts i k = concat (map (logs_of_block J D d as ts) [i..i + int k - 1])"
proof (induction k arbitrary: i)
  case (Suc k)
  have "[i..i + int (Suc k) - 1] = i # [i + 1..i + 1 + int k - 1]" by (subst upto_rec1) (simp_all add: algebra_simps)
  then show ?case using Suc [of "i + 1"] by simp
qed simp


subsection \<open>Submitted transactions\<close>

text \<open>A transaction with the next nonce whose gas is covered is selected.\<close>

lemma covered_selected:
  assumes "Sender C cid tx = Some a" "tx_Nonce tx = GetNonce (Keccak C) s a"
    and "0 \<le> tx_GasPrice tx" "tx_GasPrice tx * int (unat (tx_Gas tx)) \<le> uint (GetBalance (Keccak C) s a)"
  shows "select_tx C cid s tx"
proof -
  let ?cost = "tx_GasPrice tx * int (unat (tx_Gas tx))"
  have "uint (fst (u256_FromBig ?cost)) = ?cost"
    unfolding u256_FromBig_def fst_conv using assms(3,4) uint_GetBalance [of "Keccak C" s a] by (intro uint_of_int_u256) simp_all
  then show ?thesis using assms by (simp add: select_tx_def Let_def word_less_def)
qed

text \<open>When the methods return a value.\<close>

named_theorems api_iff

lemma SendRaw_iff [api_iff]:
  "eth_SendRawTransaction C T D n data = Inr r \<longleftrightarrow>
     (\<exists>tx a b. decode_tx T data = Some tx \<and> r = (tx_Hash tx, tx) \<and>
        (tx_ChainId tx > 0 \<longrightarrow> tx_ChainId tx = n_ChainID (bc_config (nd_bc n))) \<and>
        Sender C (n_ChainID (bc_config (nd_bc n))) tx = Some a \<and> tx_Size tx \<le> 524288 \<and>
        currentBlock (nd_bc n) = Some b \<and>
        GetNonce (Keccak C) (StateAt D (nd_bc n) (VerkleRoot (Header b))) a \<le> tx_Nonce tx \<and>
        int (unat (tx_Gas tx)) * tx_GasPrice tx + tx_Value tx
          \<le> uint (GetBalance (Keccak C) (StateAt D (nd_bc n) (VerkleRoot (Header b))) a))"
  by (cases "decode_tx T data"; cases "currentBlock (nd_bc n)")
    (auto simp: eth_SendRawTransaction_def Let_def ChainConfigOf_def u256_ToBig_def not_less split: option.splits)


subsection \<open>Gas estimates\<close>

lemma simulate_gas:
  assumes "gas_ok E" "simulate E C J D n header args = Inr res"
  shows "UsedGas res \<le> GasLimit header"
proof -
  obtain s z msg s' where "ApplyMessage E (Keccak C) D (bc_db (nd_bc n)) z msg (GasLimit header) s = Inr (s', res)"
    using assms(2) by (auto simp: simulate_def Call_def Let_def split: sum.splits prod.splits if_splits)
  from ApplyMessage_gas [OF assms(1) this] show ?thesis by force
qed

text \<open>C36. Gas estimates are usable: an estimate is the gas the simulation used plus a fifth of it,
  capped by the gas limit of a block; it is never below what the simulation used, and for the
  limits that fit, the sum does not wrap around.\<close>

theorem estimate_bounds:
  assumes "gas_ok E" "currentBlock (nd_bc n) = Some b" "GasLimit (Header b) \<le> 2 ^ 63"
    and "eth_EstimateGas E C J D n args = Inr g"
  shows "\<exists>res. simulate E C J D n (Header b) args = Inr res \<and> \<not> Failed res \<and> UsedGas res \<le> g \<and> g \<le> GasLimit (Header b) \<and>
    unat g = min (unat (GasLimit (Header b))) (unat (UsedGas res) + unat (UsedGas res) div 5)"
proof -
  obtain res where res: "simulate E C J D n (Header b) args = Inr res" "Err res = None"
    and g: "g = (if UsedGas res + UsedGas res div 5 > GasLimit (Header b) then GasLimit (Header b) else UsedGas res + UsedGas res div 5)"
    using assms(2,4) by (auto simp: eth_EstimateGas_def Let_def split: sum.splits option.splits)
  have used: "UsedGas res \<le> GasLimit (Header b)" by (rule simulate_gas [OF assms(1) res(1)])
  let ?u = "unat (UsedGas res)"
  have u: "?u \<le> unat (GasLimit (Header b))" "unat (GasLimit (Header b)) \<le> 2 ^ 63"
    using used assms(3) by (simp_all add: word_le_nat_alt)
  have "unat (UsedGas res div 5) = ?u div 5" by (simp add: unat_div)
  moreover have "?u + ?u div 5 < 2 ^ 64" using u by simp
  ultimately have "unat (UsedGas res + UsedGas res div 5) = ?u + ?u div 5" by (simp add: unat_word_ariths)
  then have "unat g = min (unat (GasLimit (Header b))) (?u + ?u div 5)" unfolding g by (auto simp: word_less_nat_alt)
  then show ?thesis using res u(1) by (auto simp: Failed_def word_le_nat_alt)
qed

subsection \<open>Finding transactions\<close>

lemma mined_receipts:
  assumes mined: "processBatch E C J D R I W now batch n = Some n1" "nd_saving n1 = Some (b, rs)" "nd_saving n = None"
    and I: "interleavings C (node_executor J D n) (Transactions b) I"
  shows "map r_TxHash rs = map tx_Hash (Transactions b) \<and>
    (\<forall>i < length rs. CumulativeGasUsed (rs ! i) = sum_list (map r_GasUsed (take (Suc i) rs)))"
proof (rule mined_block [OF mined])
  fix par baseFee txs e root s sig
  let ?h = "new_header C (nd_netCfg n) now par baseFee"
  assume p: "ApplyBlock E C D (bc_db (nd_bc n)) R (node_executor J D n) I (nd_state n) ?h txs = Some (rs, root, s)"
    "b = NewBlock (sealed_header ?h root (getGasUsed rs) sig) txs"
  show ?thesis using ApplyBlock_receipts [OF p(1)] I p(2) by simp
qed

text \<open>C22. A produced transaction can be looked up: after a block was persisted, a client finds each
  of its transactions by hash, with the block, the position and the sender, and its receipt
  with the outcome and the gas of the execution.\<close>

theorem produced_tx_visible:
  assumes env: "leveldb_ok D" "db_writable D" "codec_ok J"
    and mined: "processBatch E C J D R I W now batch n = Some n1" "nd_saving n1 = Some (b, rs)" "nd_saving n = None"
    and I: "interleavings C (node_executor J D n) (Transactions b) I"
    and stored: "currentBlock (nd_bc (persist C J D R n1)) = Some b"
    and txs: "distinct (map tx_Hash (Transactions b))" "i < length (Transactions b)" "length (Transactions b) < 2 ^ 64"
    and tx: "tx = Transactions b ! i" "m = persist C J D R n1"
  shows "\<exists>t r. eth_GetTransactionByHash C J D m (tx_Hash tx) = Some t \<and>
      map_of t ''hash'' = Some (JHash (tx_Hash tx)) \<and> map_of t ''blockHash'' = Some (JHash (block_Hash C b)) \<and>
      map_of t ''transactionIndex'' = Some (JUint (of_nat i)) \<and> map_of t ''from'' = Some (JAddress (tx_from C m tx)) \<and>
      eth_GetTransactionReceipt C J D m (tx_Hash tx) = Inr (Some r) \<and>
      map_of r ''status'' = Some (JUint (receipt.Status (rs ! i))) \<and> map_of r ''gasUsed'' = Some (JUint (r_GasUsed (rs ! i))) \<and>
      map_of r ''cumulativeGasUsed'' = Some (JUint (sum_list (map r_GasUsed (take (Suc i) rs)))) \<and>
      r_TxHash (rs ! i) = tx_Hash tx"
proof -
  have rec: "map r_TxHash rs = map tx_Hash (Transactions b)"
    "\<forall>i < length rs. CumulativeGasUsed (rs ! i) = sum_list (map r_GasUsed (take (Suc i) rs))"
    using mined_receipts [OF mined I] by simp_all
  then have len: "length rs = length (Transactions b)" by (metis length_map)
  have ix: "unat (of_nat i :: uint64) = i" using txs(2,3) by (simp add: unsigned_of_nat take_bit_nat_eq_self)
  obtain d1 where add: "AddBlock C J D ((nd_bc n)\<lparr>bc_db := d1\<rparr>) b (Some rs) = (nd_bc m, None)"
    unfolding tx(2) by (rule persist_adds [OF env(2) mined stored])
  note r = AddBlock_reads [OF env add]
  have e: "ReadTxLookupEntry J D (bc_db (nd_bc m)) (tx_Hash tx)
      = Some \<lparr>e_BlockHash = block_Hash C b, e_BlockIndex = big_Uint64 (Number (Header b)), e_TxIndex = of_nat i\<rparr>"
    unfolding tx(1) by (rule r(5) [OF txs(1,2)])
  have "ReadBlock J D (bc_db (nd_bc m)) (block_Hash C b) = Some b" "ReadReceipts J D (bc_db (nd_bc m)) (block_Hash C b) = Some rs"
    using r(2) [of "block_Hash C b"] r(4) by simp_all
  moreover have "r_TxHash (rs ! i) = tx_Hash tx"
    using rec(1) txs(2) len unfolding tx(1) by (metis nth_map)
  ultimately show ?thesis
    using e ix len txs(2) rec(2) tx(1) by (simp add: eth_GetTransactionByHash_def eth_GetTransactionReceipt_def Let_def)
qed

subsection \<open>Names of blocks\<close>

text \<open>The name \<open>earliest\<close> is treated in two ways: while state queries resolve it to the genesis block,
  the block query converts its code \<open>-5\<close> to a number near \<open>2 ^ 64\<close>, finds nothing there
  and answers \<open>null\<close> although the genesis block is stored and found as number 0.\<close>

theorem earliest_block_missing:
  assumes "GenesisBlock J D (nd_bc n) = Some g" "ReadCanonicalHash D (bc_db (nd_bc n)) (of_int EarliestBlockNumber) = 0"
  shows "eth_GetBlockByNumber C J D DS n EarliestBlockNumber full = None \<and>
    eth_GetBlockByNumber C J D DS n 0 full \<noteq> None \<and>
    headerByRpcBlock J D n \<lparr>q_BlockNumber = Some EarliestBlockNumber, q_BlockHash = None\<rparr> = Inr (Header g)"
  using assms
  by (auto simp: eth_GetBlockByNumber_def headerByRpcBlock_def GenesisBlock_def GetBlockByNumber_def Let_def block_tags
      split: if_splits)


subsection \<open>Witnesses\<close>

text \<open>A node on an empty database with a head whose base fee is 0.\<close>

definition free_head :: block where
  "free_head = NewBlock ((demo_header [])\<lparr>BaseFee := Some 0\<rparr>) []"

definition free_node :: "(bytes \<times> bytes) list node" where
  "free_node = (demo_node demo_engine)\<lparr>nd_bc := \<lparr>bc_db = [], bc_config = demo_net, currentBlock = Some free_head\<rparr>,
     nd_state := NewState mem_db 0 (Some [])\<rparr>"

lemma empty_state:
  "statedb_ok (NewState mem_db r (Some []))" "getVerkleValue (NewState mem_db r (Some [])) k = []"
  using NewState_reads [OF leveldb_ok_mem state_table_ok_empty, of r] by (auto simp: persisted_def)

lemma empty_account:
  "GetNonce toy_hash (NewState mem_db r (Some [])) a = 0" "GetBalance toy_hash (NewState mem_db r (Some [])) a = 0"
  "GetCodeHash toy_hash (NewState mem_db r (Some [])) a = 0"
  by (simp_all add: getters_as_slots read_slot_def empty_state(2) u256_SetBytes_def BytesToHash_nat)

definition free_tx :: transaction where
  "free_tx = (demo_tx 0 5 9)\<lparr>tx_GasPrice := 0, tx_ChainId := 0\<rparr>"

definition free_codec :: tx_codec where
  "free_codec = \<lparr>DecodeLegacy = (\<lambda>d. Some free_tx), DecodeTyped = (\<lambda>d. None)\<rparr>"


definition free_call :: CallArgs where
  "free_call = \<lparr>a_From = Some 7, a_To = Some 9, a_Gas = None, a_GasPrice = Some 0, a_MaxFeePerGas = None,
     a_MaxPriorityFeePerGas = None, a_Value = None, a_Data = None, a_Input = None, a_Nonce = None, a_AccessList = None\<rparr>"

theorem estimate_bounds_witness:
  "\<exists>g. eth_EstimateGas demo_evm toy_crypto demo_codec mem_db free_node free_call = Inr g \<and> g \<le> 30000000"
proof -
  let ?msg = "demo_transfer\<lparr>m_Value := 0, m_GasLimit := 30000000, m_GasPrice := 0, m_GasFeeCap := 0, m_GasTipCap := 0\<rparr>"
  let ?h = "(demo_header [])\<lparr>BaseFee := Some 0\<rparr>" and ?s = "NewState mem_db 0 (Some [])"
  have K: "Keccak toy_crypto = toy_hash" by (simp add: toy_crypto_def)
  have "toy_hash [] = 0" by (simp add: toy_hash_def)
  then have "no_code toy_hash mem_db [] (NewOverlay ?s) a" for a
    by (simp add: no_code_def GetCode_def getters_as_slots read_slot_def empty_state(2) BytesToHash_nat)
  then have "transfer_ready demo_evm toy_hash mem_db [] demo_net ?h ?msg (NewOverlay ?s) 7 9 0"
    by (simp add: transfer_ready_def plain_message_def can_pay_def demo_transfer_def demo_header_def demo_evm_def
        empty_state(1) getters_as_slots read_slot_def empty_state(2) u256_SetBytes_def)
  from apply_plain_transfer [OF this _ demo_slots_free, of 30000000 "\<lambda>_. 0"]
  have "ApplyMessage demo_evm toy_hash mem_db [] (NewEVM ?h (ChainConfigOf demo_net) (\<lambda>_. 0)) ?msg 30000000 (NewOverlay ?s)
      = Inr (transfer_result toy_hash ?h ?msg (NewOverlay ?s) 7 9 0, \<lparr>UsedGas = 21000, MaxUsedGas = 21000, Err = None, ReturnData = []\<rparr>)"
    by (simp add: demo_slots_def transfer_slots_def demo_header_def demo_transfer_def)
  then have g: "eth_EstimateGas demo_evm toy_crypto demo_codec mem_db free_node free_call = Inr 25200"
    by (simp add: eth_EstimateGas_def simulate_def free_node_def free_head_def StateAt_def Call_def K node_executor_def NewExecutor_def
        ToMessage_def free_call_def empty_account Let_def demo_header_def demo_transfer_def)
  have "gas_ok demo_evm" by (simp add: gas_ok_def demo_evm_def)
  from estimate_bounds [OF this _ _ g, of free_head] g show ?thesis
    by (simp add: free_node_def free_head_def demo_header_def)
qed

theorem earliest_block_missing_witness:
  "eth_GetBlockByNumber gen_crypto mined_codec mem_db (\<lambda>_. 0) (demo_node demo_engine) EarliestBlockNumber True = None \<and>
   headerByRpcBlock mined_codec mem_db (demo_node demo_engine) \<lparr>q_BlockNumber = Some EarliestBlockNumber, q_BlockHash = None\<rparr>
     = Inr (Header demo_gen)"
proof -
  have a: "GenesisBlock mined_codec mem_db (nd_bc (demo_node demo_engine)) = Some demo_gen"
    using demo_bc_ok(4) by (simp add: GenesisBlock_def)
  have b: "ReadCanonicalHash mem_db (bc_db (nd_bc (demo_node demo_engine))) (of_int EarliestBlockNumber) = 0"
    by (simp add: ReadCanonicalHash_def demo_bc_def block_tags eadBlock_def)
  from earliest_block_missing [OF a b, of gen_crypto "\<lambda>_. 0" True] show ?thesis by blast
qed


text \<open>A receipt with one log in the genesis block.\<close>

definition demo_log :: log where
  "demo_log = \<lparr>log_Address = 9, log_Topics = [1, 2], log_Data = [], log_BlockNumber = 0, log_TxHash = 0, log_TxIndex = 0,
     log_BlockHash = 0, log_Index = 0, log_Removed = False\<rparr>"

definition log_codec :: codec where
  "log_codec = mined_codec\<lparr>UnmarshalReceipts := \<lambda>d. Some [nil_receipt\<lparr>Logs := [demo_log]\<rparr>]\<rparr>"

definition log_node :: "(bytes \<times> bytes) list node" where
  "log_node = (demo_node demo_engine)\<lparr>nd_bc := demo_bc\<lparr>bc_db :=
     (key_bytes (ReceiptsKey (n_GenesisHash demo_net)), [7]) # bc_db demo_bc\<rparr>\<rparr>"

definition log_query :: FilterCriteria where
  "log_query = \<lparr>f_BlockHash = None, f_FromBlock = Some EarliestBlockNumber, f_ToBlock = None, f_Addresses = [8, 9],
     f_Topics = [[], [2, 3]]\<rparr>"


text \<open>A block with one transaction, which the executor skips for its size.\<close>

definition big_tx :: transaction where
  "big_tx = (demo_tx 0 5 9)\<lparr>tx_GasPrice := 0, tx_Size := 600000\<rparr>"

definition big_block :: block where
  "big_block = NewBlock (Header demo_mined) [big_tx]"

definition big_receipt :: receipt where
  "big_receipt = nil_receipt\<lparr>r_TxHash := tx_Hash big_tx\<rparr>"

definition big_codec :: codec where
  "big_codec = (toy_codec demo_gen big_block)\<lparr>MarshalReceipts := \<lambda>rs. if rs = [big_receipt] then Some [3] else None,
     UnmarshalReceipts := \<lambda>d. if d = [3] then Some [big_receipt] else None\<rparr>"

lemma codec_ok_big: "codec_ok big_codec"
  using codec_ok_toy [of demo_gen big_block] by (auto simp: codec_ok_def big_codec_def)

definition big_after :: "(bytes \<times> bytes) list node" where
  "big_after = (demo_node demo_engine)\<lparr>nd_state := demo_paid, nd_locked := True, nd_saving := Some (big_block, [big_receipt]),
     nd_sent := [big_block]\<rparr>"

lemma ApplyBlock_skipped:
  assumes "run_tx E C D d e h s tx = Skipped"
  shows "ApplyBlock E C D d R e (\<lambda>_. [wave_event.Start 0, Finish 0]) s h [tx] =
    (let s' = AddBalanceReward (Keccak C) s (Coinbase h) 10000000000000000000
     in Some ([nil_receipt\<lparr>r_TxHash := tx_Hash tx\<rparr>], IntermediateRoot R s', s'))"
  using assms by (simp add: ApplyBlock_def schedule_single run_wave_def wave_step_def block_start_def u256_MustFromBig_def
      u256_FromBig_def Let_def nil_receipt_def)

lemma big_processed:
  "processBatch demo_evm gen_crypto big_codec mem_db (\<lambda>_. 0) (\<lambda>_. [wave_event.Start 0, Finish 0]) (\<lambda>txs. txs) 5 [big_tx] (demo_node demo_engine)
     = Some big_after"
proof -
  let ?cid = "c_ChainID (ChainConfigOf demo_net)"
  have sender: "Sender gen_crypto c big_tx = Some 5" for c
    by (simp add: Sender_def gen_crypto_def toy_crypto_def big_tx_def demo_tx_def)
  have "select_tx gen_crypto ?cid (NewState mem_db 0 None) big_tx"
    by (simp add: select_tx_def sender GetNonce_def GetBalance_def fresh_reads big_tx_def demo_tx_def u256_FromBig_def Let_def)
  then have txs: "filter (select_tx gen_crypto ?cid (NewState mem_db 0 None)) (valid_txs gen_crypto ?cid (\<lambda>txs. txs) [big_tx]) = [big_tx]"
    by (simp add: valid_txs_def sender)
  have e: "intercept gen_crypto ?cid P big_tx en = en" for P en
    by (simp add: intercept_def big_tx_def demo_tx_def string_of_bytes_def)
  have "run_tx demo_evm gen_crypto mem_db d x h s big_tx = Skipped" for d x h s
    by (simp add: run_tx_def big_tx_def)
  note ap = ApplyBlock_skipped [OF this]
  let ?h = "new_header gen_crypto demo_net 5 demo_gen 1000000000"
  have h: "?h\<lparr>VerkleRoot := 0, GasUsed := getGasUsed [big_receipt]\<rparr> = demo_next" "ExtraData demo_next = []" "Coinbase ?h = n_Coinbase demo_net"
    "demo_next\<lparr>ExtraData := []\<rparr> = demo_next"
    by (simp_all add: demo_next_def new_header_def getGasUsed_def big_receipt_def nil_receipt_def)
  have seal: "Seal gen_crypto demo_engine (NewBlock demo_next [big_tx]) = (big_block, None)"
    using h(2) by (simp add: h(4) Seal_def demo_key Let_def NewBlock_def block_Hash_def big_block_def demo_mined_def)
  show ?thesis
    unfolding processBatch_def Let_def
    by (simp only: demo_node_sel txs demo_fee fold.simps comp_apply id_apply e option.case)
      (simp add: ap h IntermediateRoot_zero demo_paid_def [symmetric] big_receipt_def [symmetric] seal big_after_def Let_def)
qed


lemma big_stored: "currentBlock (nd_bc (persist gen_crypto big_codec mem_db (\<lambda>_. 0) big_after)) = Some big_block"
proof -
  obtain d1 where d1: "db_Write mem_db (bc_db demo_bc) (commit_batch demo_paid) = Some d1"
    using db_writable_mem unfolding db_writable_def by blast
  have hash: "block_Hash gen_crypto big_block = block_Hash gen_crypto demo_mined" by (simp add: big_block_def block_Hash_def)
  have "ReadBlock big_codec mem_db d1 (block_Hash gen_crypto big_block) = ReadBlock big_codec mem_db (bc_db demo_bc) (block_Hash gen_crypto big_block)"
    by (rule commit_batch_reads(1) [OF leveldb_ok_mem d1])
  also have "\<dots> = None" using demo_hash_new(4) unfolding hash by (simp add: ReadBlock_def demo_bc_def)
  finally have new: "ReadBlock big_codec mem_db d1 (block_Hash gen_crypto big_block) = None" .
  have num: "Number (Header big_block) = 1" "Number (Header demo_gen) = 0"
    by (simp_all add: big_block_def demo_mined_def demo_next_def new_header_def demo_gen_def)
  have m: "MarshalBlock big_codec big_block \<noteq> None" "Transactions big_block = [big_tx]" "MarshalReceipts big_codec [big_receipt] = Some [3]"
    by (simp_all add: toy_codec_def big_codec_def big_block_def)
  obtain y where y: "MarshalEntry big_codec \<lparr>e_BlockHash = block_Hash gen_crypto big_block, e_BlockIndex = big_Uint64 1, e_TxIndex = 0\<rparr> = Some y"
    by (simp add: toy_codec_def big_codec_def)
  have "currentBlock (fst (AddBlock gen_crypto big_codec mem_db (demo_bc\<lparr>bc_db := d1\<rparr>) big_block (Some [big_receipt]))) = Some big_block"
    using m new num y
    by (auto simp: AddBlock_def writeBlockData_def WriteBlock_def WriteReceipts_def WriteTxLookupEntries_def Let_def)
  then show ?thesis
    using d1 by (simp add: persist_def commit_block_def CommitState_def Let_def write_batch_def big_after_def)
qed

theorem produced_tx_visible_witness:
  "\<exists>t. eth_GetTransactionByHash gen_crypto big_codec mem_db (persist gen_crypto big_codec mem_db (\<lambda>_. 0) big_after) (tx_Hash big_tx) = Some t \<and>
     map_of t ''transactionIndex'' = Some (JUint 0)"
proof -
  have sel: "nd_saving big_after = Some (big_block, [big_receipt])" "Transactions big_block = [big_tx]"
    by (simp_all add: big_after_def big_block_def)
  have I: "interleavings gen_crypto (node_executor big_codec mem_db (demo_node demo_engine)) (Transactions big_block)
      (\<lambda>_. [wave_event.Start 0, Finish 0])"
    using single_order by (simp add: interleavings_def schedule_single Let_def sel(2))
  from produced_tx_visible [OF leveldb_ok_mem db_writable_mem codec_ok_big big_processed sel(1) _ I big_stored, of 0 big_tx] sel(2)
  show ?thesis by auto
qed

end
