(* ===== verification/Console.thy ===== *)
theory Console
  imports RPC
begin

text \<open>
  \<open>cmd/zephyria/main.go\<close> and the remaining operations of \<open>node/node.go\<close> it calls: from the
  flags to a configuration, the listeners a node opens, and the interactive console.

  \<open>H\<close> is \<open>crypto.HexToECDSA\<close>.  The operating system is the parameter \<open>L held p\<close>: whether
  \<open>net.Listen\<close> on port \<open>p\<close> succeeds for a process that listens on the ports \<open>held\<close>.  What the
  console prints is a list of values of \<open>console_out\<close>.  A command that waits for a lock
  or a channel is \<open>Blocked\<close>: the loop of the console runs in the main goroutine, so no further line is
  read before the command returns.  Lines are ASCII text.
\<close>

section \<open>From flags to a node\<close>

record flags =
  fl_datadir :: string
  fl_port :: int
  fl_network :: string
  fl_mine :: bool
  fl_key :: string
  fl_ipcpath :: string

definition default_flags :: flags where
  "default_flags = \<lparr>fl_datadir = '''', fl_port = 0, fl_network = ''devnet'', fl_mine = False, fl_key = '''', fl_ipcpath = ''''\<rparr>"

definition DefaultDevKey :: string where
  "DefaultDevKey = ''ac0974bec39a17e36ba4a6b4d238ff944bacb478cbed5efcae784d7bf4f2ff80''"

definition TrimPrefix :: "string \<Rightarrow> string \<Rightarrow> string" where
  "TrimPrefix s pre = (if take (length pre) s = pre then drop (length pre) s else s)"

primrec find_port :: "(int \<Rightarrow> bool) \<Rightarrow> int \<Rightarrow> nat \<Rightarrow> int option" where
  "find_port free port 0 = None"
| "find_port free port (Suc k) = (if free port then Some port else find_port free (port + 1) k)"

definition findAvailablePort :: "(int \<Rightarrow> bool) \<Rightarrow> int \<Rightarrow> int" where
  "findAvailablePort free start = (case find_port free start 100 of None \<Rightarrow> start | Some port \<Rightarrow> port)"

datatype main_error = InvalidKey | NoDevKey | StartFailed start_error | HTTPListenFailed

definition main_key :: "(string \<Rightarrow> privkey option) \<Rightarrow> string \<Rightarrow> main_error + privkey" where
  "main_key H keyFlag =
     (if keyFlag \<noteq> '''' then (case H (TrimPrefix keyFlag ''0x'') of None \<Rightarrow> Inl InvalidKey | Some k \<Rightarrow> Inr k)
      else (case H DefaultDevKey of None \<Rightarrow> Inl NoDevKey | Some k \<Rightarrow> Inr k))"

text \<open>The ports for P2P, HTTP and WebSocket.\<close>

definition main_ports :: "(int \<Rightarrow> bool) \<Rightarrow> int \<Rightarrow> int \<times> int \<times> int" where
  "main_ports free portFlag =
     (if portFlag > 0 then (findAvailablePort free 30303, portFlag, portFlag + 1) else (30303, 8545, 8546))"

definition main_config :: "(string \<Rightarrow> privkey option) \<Rightarrow> (int \<Rightarrow> bool) \<Rightarrow> flags \<Rightarrow> main_error + Config" where
  "main_config H free f =
     (case main_key H (fl_key f) of
        Inl e \<Rightarrow> Inl e
      | Inr k \<Rightarrow>
          (let (baseP2P, httpPort, wsPort) = main_ports free (fl_port f);
               dataDir = (if fl_datadir f = '''' then ''zephyria-chaindata'' else fl_datadir f);
               ipcPath = (if fl_ipcpath f = '''' then dataDir @ ''/zephyria.ipc'' else fl_ipcpath f)
           in Inr \<lparr>Network = fl_network f, DataDir = dataDir, HTTPPort = httpPort, ValidatorKey = Some k,
                   P2PPort = baseP2P, WSPort = wsPort, IPCPath = ipcPath, Bootnodes = []\<rparr>))"

text \<open>
  The listeners of a node, in the order \<open>Start\<close> opens them.  Only a failure of the HTTP listener makes
  \<open>Start\<close> fail; \<open>unix\<close> tells whether the socket file can be opened.
\<close>

record endpoints =
  ep_p2p :: "int option"
  ep_http :: int
  ep_ws :: "int option"
  ep_ipc :: "string option"

definition p2p_Start :: "(int list \<Rightarrow> int \<Rightarrow> bool) \<Rightarrow> Config \<Rightarrow> int option" where
  "p2p_Start L config = (if L [] (P2PPort config) then Some (P2PPort config) else None)"

definition start_ws :: "(int list \<Rightarrow> int \<Rightarrow> bool) \<Rightarrow> int list \<Rightarrow> Config \<Rightarrow> int option" where
  "start_ws L held config = (if WSPort config > 0 then (if L held (WSPort config) then Some (WSPort config) else None) else None)"

definition start_ipc :: "(string \<Rightarrow> bool) \<Rightarrow> Config \<Rightarrow> string option" where
  "start_ipc unix config = (if IPCPath config \<noteq> '''' then (if unix (IPCPath config) then Some (IPCPath config) else None) else None)"

definition start_listeners :: "(int list \<Rightarrow> int \<Rightarrow> bool) \<Rightarrow> (string \<Rightarrow> bool) \<Rightarrow> Config \<Rightarrow> main_error + endpoints" where
  "start_listeners L unix config =
     (let p2p = p2p_Start L config;
          held = (case p2p of None \<Rightarrow> [] | Some p \<Rightarrow> [p])
      in if L held (HTTPPort config) then
           Inr \<lparr>ep_p2p = p2p, ep_http = HTTPPort config, ep_ws = start_ws L (HTTPPort config # held) config,
                ep_ipc = start_ipc unix config\<rparr>
         else Inl HTTPListenFailed)"

text \<open>
  \<open>main\<close> up to the console: the node with its server, its endpoints and whether it mines.
\<close>

definition main_start ::
    "crypto \<Rightarrow> codec \<Rightarrow> 'd leveldb \<Rightarrow> (vtree \<Rightarrow> hash) \<Rightarrow> (string \<Rightarrow> privkey option) \<Rightarrow> (int list \<Rightarrow> int \<Rightarrow> bool)
      \<Rightarrow> (string \<Rightarrow> bool) \<Rightarrow> flags \<Rightarrow> (string \<Rightarrow> 'd) \<Rightarrow> main_error + 'd net \<times> endpoints \<times> bool" where
  "main_start C J D R H L unix f disk =
     (case main_config H (L []) f of
        Inl e \<Rightarrow> Inl e
      | Inr config \<Rightarrow>
          (case Start C J D R (case ValidatorKey config of None \<Rightarrow> 0 | Some k \<Rightarrow> k) config (disk (DataDir config)) of
             Inl e \<Rightarrow> Inl (StartFailed e)
           | Inr n \<Rightarrow>
               (case start_listeners L unix config of
                  Inl e \<Rightarrow> Inl e
                | Inr ep \<Rightarrow> Inr (\<lparr>n_srv = NewServer, n_node = n, n_bcast = None\<rparr>, ep, fl_mine f))))"

section \<open>The console\<close>

text \<open>\<open>strings.Fields\<close> on ASCII text.\<close>

definition isSpace :: "char \<Rightarrow> bool" where
  "isSpace c = (let n = (of_char c :: nat) in 9 \<le> n \<and> n \<le> 13 \<or> n = 32)"

function Fields :: "string \<Rightarrow> string list" where
  "Fields s = (let r = dropWhile isSpace s in
     if r = [] then [] else takeWhile (\<lambda>c. \<not> isSpace c) r # Fields (dropWhile (\<lambda>c. \<not> isSpace c) r))"
  by pat_completeness auto
termination
proof (relation "measure length")
  fix s r assume r: "r = dropWhile isSpace s" "r \<noteq> []"
  then have "\<not> isSpace (hd r)" using hd_dropWhile by metis
  then have "length (dropWhile (\<lambda>c. \<not> isSpace c) r) < length r"
    using r(2) by (cases r) (auto simp: length_dropWhile_le less_Suc_eq_le)
  also have "length r \<le> length s" unfolding r(1) by (rule length_dropWhile_le)
  finally show "(dropWhile (\<lambda>c. \<not> isSpace c) r, s) \<in> measure length" by simp
qed simp

declare Fields.simps [simp del]

datatype console_out =
    Info uint64 hash hash
  | BalanceOf address int
  | PeersAt string nat
  | Dialing string
  | DialFailed string
  | AddedAccount address
  | KeyRejected
  | StakeSubmitted
  | UnstakeSubmitted
  | SendFailed send_error
  | Usage string
  | InvalidAddress
  | InvalidAmount
  | UnknownCommand

datatype 'd reply = Reply "console_out list" "'d net" | Blocked | Panicked | Leaving "'d net"

definition cmd_info :: "crypto \<Rightarrow> 'd net \<Rightarrow> 'd reply" where
  "cmd_info C x =
     (case currentBlock (nd_bc (n_node x)) of
        None \<Rightarrow> Panicked
      | Some b \<Rightarrow> Reply [Info (big_Uint64 (Number (Header b))) (block_Hash C b) (VerkleRoot (Header b))] x)"

text \<open>\<open>Node.GetBalance\<close> takes the state lock.\<close>

definition cmd_balance :: "crypto \<Rightarrow> string list \<Rightarrow> 'd net \<Rightarrow> 'd reply" where
  "cmd_balance C parts x =
     (if length parts < 2 then Reply [Usage ''balance''] x
      else if \<not> IsHexAddress (parts ! 1) then Reply [InvalidAddress] x
      else if nd_locked (n_node x) then Blocked
      else (let addr = HexToAddress (parts ! 1) in Reply [BalanceOf addr (node_GetBalance C (n_node x) addr)] x))"

text \<open>\<open>Node.P2PInfo\<close>: the number of peers is read under the peer lock.\<close>

definition P2PInfo :: "Config \<Rightarrow> server \<Rightarrow> (string \<times> nat) option" where
  "P2PInfo config s =
     (if s_lock s \<noteq> None then None else Some ('':'' @ show_nat (nat (P2PPort config)), PeerCount s))"

definition cmd_peers :: "Config \<Rightarrow> 'd net \<Rightarrow> 'd reply" where
  "cmd_peers config x =
     (case P2PInfo config (n_srv x) of None \<Rightarrow> Blocked | Some (addr, peerCount) \<Rightarrow> Reply [PeersAt addr peerCount] x)"

text \<open>
  \<open>Server.Dial\<close>, called by \<open>Node.DialPeer\<close> and \<open>Node.AddPeer\<close>.  \<open>dial\<close> is \<open>net.Dial\<close>: it gives a new
  connection or fails.  Registering the peer takes the peer lock.
\<close>

definition Dial :: "crypto \<Rightarrow> (string \<Rightarrow> nat option) \<Rightarrow> int \<Rightarrow> string \<Rightarrow> 'd net \<Rightarrow> 'd reply" where
  "Dial C dial now addr x =
     (case dial addr of
        None \<Rightarrow> Reply [DialFailed addr] x
      | Some i \<Rightarrow>
          (if s_lock (n_srv x) \<noteq> None then Blocked
           else case setupPeer C i True now (n_node x) (n_srv x) of
                  None \<Rightarrow> Panicked
                | Some s \<Rightarrow> Reply [] (x\<lparr>n_srv := s\<rparr>)))"

definition cmd_addpeer :: "crypto \<Rightarrow> (string \<Rightarrow> nat option) \<Rightarrow> int \<Rightarrow> string list \<Rightarrow> 'd net \<Rightarrow> 'd reply" where
  "cmd_addpeer C dial now parts x =
     (if length parts < 2 then Reply [Usage ''addpeer''] x
      else case Dial C dial now (parts ! 1) x of
             Reply out y \<Rightarrow> Reply (out @ [Dialing (parts ! 1)]) y
           | r \<Rightarrow> r)"

definition cmd_addkey :: "(string \<Rightarrow> privkey option) \<Rightarrow> crypto \<Rightarrow> string list \<Rightarrow> 'd net \<Rightarrow> 'd reply" where
  "cmd_addkey H C parts x =
     (if length parts < 2 then Reply [Usage ''addkey''] x
      else case H (TrimPrefix (parts ! 1) ''0x'') of
             None \<Rightarrow> Reply [KeyRejected] x
           | Some k \<Rightarrow> Reply [AddedAccount (PrivToAddr C k)] (x\<lparr>n_node := AddKey C k (n_node x)\<rparr>))"

text \<open>A full channel blocks the console; the other errors are printed.\<close>

definition sent :: "console_out \<Rightarrow> 'd net \<Rightarrow> send_error + 'd node \<Rightarrow> 'd reply" where
  "sent out x r =
     (case r of
        Inl ChannelFull \<Rightarrow> Blocked
      | Inl e \<Rightarrow> Reply [SendFailed e] x
      | Inr n \<Rightarrow> Reply [out] (x\<lparr>n_node := n\<rparr>))"

definition cmd_stake ::
    "crypto \<Rightarrow> (int \<Rightarrow> transaction \<Rightarrow> privkey \<Rightarrow> transaction option) \<Rightarrow> string list \<Rightarrow> 'd net \<Rightarrow> 'd reply" where
  "cmd_stake C SignTx parts x =
     (if length parts < 3 then Reply [Usage ''stake''] x
      else case big_SetString (parts ! 1) 10 of
             None \<Rightarrow> Reply [InvalidAmount] x
           | Some amt \<Rightarrow>
               (if \<not> IsHexAddress (parts ! 2) then Reply [InvalidAddress] x
                else sent StakeSubmitted x (SendStakeTx C SignTx amt (HexToAddress (parts ! 2)) (n_node x))))"

definition cmd_unstake ::
    "crypto \<Rightarrow> (int \<Rightarrow> transaction \<Rightarrow> privkey \<Rightarrow> transaction option) \<Rightarrow> string list \<Rightarrow> 'd net \<Rightarrow> 'd reply" where
  "cmd_unstake C SignTx parts x =
     (if length parts < 2 then Reply [Usage ''unstake''] x
      else if \<not> IsHexAddress (parts ! 1) then Reply [InvalidAddress] x
      else sent UnstakeSubmitted x (SendUnstakeTx C SignTx (HexToAddress (parts ! 1)) (n_node x)))"

text \<open>\<open>Node.Stop\<close> begins with the server, which takes the peer lock.\<close>

definition cmd_exit :: "'d net \<Rightarrow> 'd reply" where
  "cmd_exit x = (if s_lock (n_srv x) \<noteq> None then Blocked else Leaving (x\<lparr>n_srv := stop_enter (n_srv x)\<rparr>))"

text \<open>What a console works with: the keys, the signer, the network, the clock and the configuration.\<close>

record console_env =
  ce_H :: "string \<Rightarrow> privkey option"
  ce_SignTx :: "int \<Rightarrow> transaction \<Rightarrow> privkey \<Rightarrow> transaction option"
  ce_dial :: "string \<Rightarrow> nat option"
  ce_now :: int
  ce_config :: Config

definition run_command :: "crypto \<Rightarrow> console_env \<Rightarrow> string \<Rightarrow> 'd net \<Rightarrow> 'd reply" where
  "run_command C A line x =
     (let parts = Fields line in
      if parts = [] then Reply [] x
      else if hd parts \<in> {''exit'', ''quit''} then cmd_exit x
      else if hd parts = ''info'' then cmd_info C x
      else if hd parts = ''balance'' then cmd_balance C parts x
      else if hd parts = ''peers'' then cmd_peers (ce_config A) x
      else if hd parts = ''addpeer'' then cmd_addpeer C (ce_dial A) (ce_now A) parts x
      else if hd parts = ''addkey'' then cmd_addkey (ce_H A) C parts x
      else if hd parts = ''stake'' then cmd_stake C (ce_SignTx A) parts x
      else if hd parts = ''unstake'' then cmd_unstake C (ce_SignTx A) parts x
      else Reply [UnknownCommand] x)"

section \<open>The console as a transition system\<close>

text \<open>
  The main goroutine reads a line, is inside \<open>Node.Stop\<close>, or has returned from \<open>main\<close> after
  a command or at the end of the input.  All other goroutines take steps of \<open>net_step\<close>; of
  these, \<open>Stop\<close> is entered and left by the console only.  A dialled connection is a new one.
\<close>

datatype phase = Prompt | Stopping | Stopped | Ended

record 'd console =
  cn_net :: "'d net"
  cn_out :: "console_out list"
  cn_phase :: phase

inductive console_step ::
    "evm \<Rightarrow> crypto \<Rightarrow> codec \<Rightarrow> 'd leveldb \<Rightarrow> (vtree \<Rightarrow> hash) \<Rightarrow> wire \<Rightarrow> 'd console \<Rightarrow> 'd console \<Rightarrow> bool"
  for E C J D R X where
  con_net: "cn_phase c \<in> {Prompt, Stopping} \<Longrightarrow> net_step E C J D R X (cn_net c) y \<Longrightarrow>
    (s_lock (n_srv y) = Some InStop) = (s_lock (n_srv (cn_net c)) = Some InStop) \<Longrightarrow>
    console_step E C J D R X c (c\<lparr>cn_net := y\<rparr>)"
| con_line: "cn_phase c = Prompt \<Longrightarrow> (\<And>addr i. ce_dial A addr = Some i \<Longrightarrow> s_obj (n_srv (cn_net c)) i = None) \<Longrightarrow>
    run_command C A line (cn_net c) = Reply out y \<Longrightarrow>
    console_step E C J D R X c (c\<lparr>cn_net := y, cn_out := cn_out c @ out\<rparr>)"
| con_exit: "cn_phase c = Prompt \<Longrightarrow> run_command C A line (cn_net c) = Leaving y \<Longrightarrow>
    console_step E C J D R X c (c\<lparr>cn_net := y, cn_phase := Stopping\<rparr>)"
| con_stopped: "cn_phase c = Stopping \<Longrightarrow> s_lock (n_srv (cn_net c)) = Some InStop \<Longrightarrow> s_stopping (n_srv (cn_net c)) = [] \<Longrightarrow>
    console_step E C J D R X c (c\<lparr>cn_net := (cn_net c)\<lparr>n_srv := (n_srv (cn_net c))\<lparr>s_lock := None\<rparr>\<rparr>, cn_phase := Stopped\<rparr>)"
| con_eof: "cn_phase c = Prompt \<Longrightarrow> console_step E C J D R X c (c\<lparr>cn_phase := Ended\<rparr>)"

inductive console_run ::
    "evm \<Rightarrow> crypto \<Rightarrow> codec \<Rightarrow> 'd leveldb \<Rightarrow> (vtree \<Rightarrow> hash) \<Rightarrow> wire \<Rightarrow> 'd console \<Rightarrow> 'd console \<Rightarrow> bool"
  for E C J D R X c where
  con_refl: "console_run E C J D R X c c"
| con_next: "console_run E C J D R X c d \<Longrightarrow> console_step E C J D R X d e \<Longrightarrow> console_run E C J D R X c e"

lemma console_run_trans:
  assumes "console_run E C J D R X d e" "console_run E C J D R X c d"
  shows "console_run E C J D R X c e"
  using assms by induction (auto intro: con_next)

subsection \<open>Commands and the peer lock\<close>

lemma Fields_words [simp]:
  "Fields [] = []"
  "w \<noteq> [] \<Longrightarrow> list_all (\<lambda>c. \<not> isSpace c) w \<Longrightarrow> Fields w = [w]"
  "w \<noteq> [] \<Longrightarrow> list_all (\<lambda>c. \<not> isSpace c) w \<Longrightarrow> Fields (w @ CHR '' '' # r) = w # Fields r"
proof -
  show "Fields [] = []" by (simp add: Fields.simps)
  assume w: "w \<noteq> []" "list_all (\<lambda>c. \<not> isSpace c) w"
  then obtain a v where a: "w = a # v" "\<not> isSpace a" by (cases w) auto
  have drop: "dropWhile isSpace (w @ r) = w @ r" for r using a by simp
  have sp: "isSpace (CHR '' '')" by (simp add: isSpace_def)
  have all: "\<forall>c \<in> set w. \<not> isSpace c" using w(2) by (simp add: list_all_iff)
  have rest: "dropWhile (\<lambda>c. \<not> isSpace c) w = []" using all by simp
  show "Fields w = [w]" using drop [of "[]"] w(1) all by (subst Fields.simps) (simp add: Let_def rest \<open>Fields [] = []\<close>)
  have "Fields (CHR '' '' # r) = Fields r" by (subst (1 2) Fields.simps) (simp add: sp)
  then show "Fields (w @ CHR '' '' # r) = w # Fields r"
    using drop [of "CHR '' '' # r"] w(1) all sp by (subst Fields.simps) (simp add: Let_def)
qed

lemma run_exit: "run_command C A ''exit'' x = cmd_exit x" "run_command C A ''peers'' x = cmd_peers (ce_config A) x"
  by (simp_all add: run_command_def isSpace_def)

lemma Dial_locked: "s_lock (n_srv x) \<noteq> None \<Longrightarrow> Dial C dial now addr x = Reply out y \<Longrightarrow> y = x"
  by (auto simp: Dial_def split: option.splits)

lemmas commands = run_command_def Let_def cmd_exit_def cmd_info_def cmd_balance_def cmd_peers_def cmd_addpeer_def cmd_addkey_def
  cmd_stake_def cmd_unstake_def sent_def

lemmas command_splits = if_splits option.splits sum.splits send_error.splits prod.splits reply.splits

text \<open>While the peer lock is taken, a command leaves the server as it is.\<close>

lemma run_command_locked:
  assumes "s_lock (n_srv x) \<noteq> None" "run_command C A line x = Reply out y"
  shows "n_srv y = n_srv x"
  using assms by (auto simp: commands split: command_splits dest: Dial_locked [OF assms(1)])

lemma run_command_leaving: "run_command C A line x = Leaving y \<Longrightarrow> s_lock (n_srv x) = None"
  by (auto simp: commands Dial_def split: command_splits)

lemma con_line_locked:
  assumes "console_step E C J D R X c d" "in_remove i k (n_srv (cn_net c))"
  shows "in_remove i k (n_srv (cn_net d)) \<and> (cn_phase c \<in> {Prompt, Ended} \<longrightarrow> cn_phase d \<in> {Prompt, Ended})"
  using assms(1)
proof (cases rule: console_step.cases)
  case (con_net y)
  then show ?thesis using in_remove_step [OF con_net(3) assms(2)] by auto
next
  case (con_line A line out y)
  have "n_srv y = n_srv (cn_net c)" using assms(2) by (intro run_command_locked [OF _ con_line(4)]) (simp add: in_remove_def)
  then show ?thesis using con_line(1) assms(2) by simp
next
  case (con_exit A line y)
  then show ?thesis using run_command_leaving [OF con_exit(3)] assms(2) by (simp add: in_remove_def)
qed (use assms(2) in \<open>simp_all add: in_remove_def\<close>)

lemma con_run_locked:
  assumes "console_run E C J D R X c d" "in_remove i k (n_srv (cn_net c))" "cn_phase c \<in> {Prompt, Ended}"
  shows "in_remove i k (n_srv (cn_net d)) \<and> cn_phase d \<in> {Prompt, Ended}"
  using assms
proof induction
  case (con_next d e)
  then show ?case using con_line_locked [OF con_next(2)] by blast
qed simp

text \<open>C31. A lost connection takes the console with it: whenever a peer is connected, its connection can fail such
  that from then on, in every run, \<open>exit\<close> and \<open>peers\<close> wait for the peer lock for ever and the node is never
  stopped in an orderly way, whatever commands are given.\<close>

theorem disconnect_blocks_exit:
  assumes peer: "i \<in> set (s_peers (n_srv (cn_net c)))" "s_obj (n_srv (cn_net c)) i = Some p" "p_read p = Looping"
      "s_lock (n_srv (cn_net c)) = None"
    and phase: "cn_phase c = Prompt"
  shows "\<exists>d. console_run E C J D R X c d \<and> cn_phase d = Prompt \<and> n_node (cn_net d) = n_node (cn_net c) \<and>
    (\<forall>e A. console_run E C J D R X d e \<longrightarrow> cn_phase e \<notin> {Stopping, Stopped} \<and>
       run_command C A ''exit'' (cn_net e) = Blocked \<and> run_command C A ''peers'' (cn_net e) = Blocked)"
proof -
  let ?x = "cn_net c"
  let ?s1 = "upd_peer i (set_loop ReadLoop (AtLock True)) (n_srv ?x)"
  let ?s2 = "remove_enter i ReadLoop True ?s1"
  let ?c1 = "c\<lparr>cn_net := ?x\<lparr>n_srv := ?s1\<rparr>\<rparr>"
  let ?d = "?c1\<lparr>cn_net := (cn_net ?c1)\<lparr>n_srv := ?s2\<rparr>\<rparr>"
  have "console_step E C J D R X c ?c1"
    by (rule con_net [OF _ net_read_error [OF peer(2,3)]]) (use phase in simp_all)
  moreover have "net_step E C J D R X (cn_net ?c1) ((cn_net ?c1)\<lparr>n_srv := ?s2\<rparr>)"
    using net_remove [of "cn_net ?c1" i "set_loop ReadLoop (AtLock True) p" ReadLoop True] peer by simp
  then have "console_step E C J D R X ?c1 ?d"
    by (rule con_net [rotated]) (use phase peer in \<open>simp_all add: remove_enter_def\<close>)
  ultimately have run: "console_run E C J D R X c ?d" by (meson con_refl con_next)
  have rem: "in_remove i ReadLoop (n_srv (cn_net ?d))" using peer by (auto simp: in_remove_def remove_enter_def)
  have "cn_phase e \<notin> {Stopping, Stopped} \<and> run_command C A ''exit'' (cn_net e) = Blocked \<and> run_command C A ''peers'' (cn_net e) = Blocked"
    if "console_run E C J D R X ?d e" for e A
    using con_run_locked [OF that rem] phase
    by (auto simp: run_exit cmd_exit_def cmd_peers_def P2PInfo_def in_remove_def)
  with run phase show ?thesis by (intro exI [of _ ?d]) simp
qed

subsection \<open>Stopping\<close>

text \<open>One peer is stopped: its channel is closed, both loops return, and the next one follows.\<close>

lemma stop_one:
  assumes phase: "cn_phase c = Stopping"
    and srv: "s_lock (n_srv (cn_net c)) = Some InStop" "s_stopping (n_srv (cn_net c)) = i # is"
      "s_obj (n_srv (cn_net c)) i = Some p" "p_read p = Looping" "p_write p = Looping"
  shows "\<exists>p'. p_read p' = Returned \<and> p_write p' = Returned \<and> console_run E C J D R X c
    (c\<lparr>cn_net := (cn_net c)\<lparr>n_srv := (n_srv (cn_net c))\<lparr>s_obj := (s_obj (n_srv (cn_net c)))(i \<mapsto> p'), s_stopping := is\<rparr>\<rparr>\<rparr>)"
proof -
  let ?at = "\<lambda>s. c\<lparr>cn_net := (cn_net c)\<lparr>n_srv := s\<rparr>\<rparr>"
  let ?s = "n_srv (cn_net c)"
  let ?p1 = "p\<lparr>p_quit := True\<rparr>" let ?p2 = "set_loop ReadLoop Returned ?p1" let ?p3 = "set_loop WriteLoop Returned ?p2"
  let ?s1 = "stop_peer i ?s" let ?s2 = "upd_peer i (set_loop ReadLoop Returned) ?s1"
  let ?s3 = "upd_peer i (set_loop WriteLoop Returned) ?s2" let ?s4 = "?s3\<lparr>s_stopping := is\<rparr>"
  have o: "s_obj ?s1 i = Some ?p1" "s_obj ?s2 i = Some ?p2" "s_obj ?s3 i = Some ?p3"
    using srv(3) by (simp_all add: stop_peer_def)
  have l: "loop_at ReadLoop ?p1 = Looping" "loop_at WriteLoop ?p2 = Looping" "p_quit ?p2"
    using srv(4,5) by (simp_all add: loop_at_def set_loop_def)
  have k: "s_lock ?s1 = Some InStop" "s_lock ?s2 = Some InStop" "s_lock ?s3 = Some InStop" "s_stopping ?s3 = i # is"
    using srv(1,2) by (simp_all add: stop_peer_def)
  have step: "console_step E C J D R X (?at s) (?at s')"
    if "net_step E C J D R X ((cn_net c)\<lparr>n_srv := s\<rparr>) ((cn_net c)\<lparr>n_srv := s'\<rparr>)" "s_lock s = Some InStop" "s_lock s' = Some InStop" for s s'
    using con_net [of "?at s" E C J D R X "(cn_net c)\<lparr>n_srv := s'\<rparr>"] that phase by simp
  have "console_step E C J D R X c (?at ?s1)"
    using con_net [OF _ net_stop_peer [of "cn_net c" i "is"]] phase srv k(1) by simp
  moreover have "console_step E C J D R X (?at ?s1) (?at ?s2)"
    by (rule step [OF net_quit [of "cn_net (?at ?s1)" i ?p1 ReadLoop, simplified]]) (use o l k in simp_all)
  moreover have "console_step E C J D R X (?at ?s2) (?at ?s3)"
    by (rule step [OF net_quit [of "cn_net (?at ?s2)" i ?p2 WriteLoop, simplified]]) (use o l k in simp_all)
  moreover have "console_step E C J D R X (?at ?s3) (?at ?s4)"
    by (rule step [OF net_stop_next [of "cn_net (?at ?s3)" i "is", simplified]])
      (use o k in \<open>simp_all add: loops_done_def set_loop_def\<close>)
  ultimately have "console_run E C J D R X c (?at ?s4)" by (meson con_refl con_next)
  moreover have "?s4 = ?s\<lparr>s_obj := (s_obj ?s)(i \<mapsto> ?p3), s_stopping := is\<rparr>"
    using srv(3) by (simp add: stop_peer_def upd_peer_def)
  ultimately have "p_read ?p3 = Returned \<and> p_write ?p3 = Returned \<and> console_run E C J D R X c
      (c\<lparr>cn_net := (cn_net c)\<lparr>n_srv := ?s\<lparr>s_obj := (s_obj ?s)(i \<mapsto> ?p3), s_stopping := is\<rparr>\<rparr>\<rparr>)"
    by (simp add: set_loop_def)
  then show ?thesis by blast
qed

lemma stop_all:
  assumes "cn_phase c = Stopping" "s_lock (n_srv (cn_net c)) = Some InStop" "s_stopping (n_srv (cn_net c)) = is" "distinct is"
    and "\<forall>i \<in> set is. \<exists>p. s_obj (n_srv (cn_net c)) i = Some p \<and> p_read p = Looping \<and> p_write p = Looping"
  shows "\<exists>d. console_run E C J D R X c d \<and> cn_phase d = Stopping \<and> s_lock (n_srv (cn_net d)) = Some InStop \<and>
    s_stopping (n_srv (cn_net d)) = [] \<and> n_node (cn_net d) = n_node (cn_net c) \<and>
    (\<forall>i. if i \<in> set is then loops_done i (n_srv (cn_net d)) else s_obj (n_srv (cn_net d)) i = s_obj (n_srv (cn_net c)) i)"
  using assms
proof (induction "is" arbitrary: c)
  case Nil
  then show ?case by (intro exI [of _ c]) (auto intro: con_refl)
next
  case (Cons i "is")
  obtain p where p: "s_obj (n_srv (cn_net c)) i = Some p" "p_read p = Looping" "p_write p = Looping" using Cons.prems(5) by auto
  obtain p' where p': "p_read p' = Returned" "p_write p' = Returned" and run: "console_run E C J D R X c
      (c\<lparr>cn_net := (cn_net c)\<lparr>n_srv := (n_srv (cn_net c))\<lparr>s_obj := (s_obj (n_srv (cn_net c)))(i \<mapsto> p'), s_stopping := is\<rparr>\<rparr>\<rparr>)"
    (is "console_run _ _ _ _ _ _ c ?c1")
    using stop_one [OF Cons.prems(1-3) p] by blast
  have "\<exists>d. console_run E C J D R X ?c1 d \<and> cn_phase d = Stopping \<and> s_lock (n_srv (cn_net d)) = Some InStop \<and>
    s_stopping (n_srv (cn_net d)) = [] \<and> n_node (cn_net d) = n_node (cn_net ?c1) \<and>
    (\<forall>j. if j \<in> set is then loops_done j (n_srv (cn_net d)) else s_obj (n_srv (cn_net d)) j = s_obj (n_srv (cn_net ?c1)) j)"
    by (rule Cons.IH) (use Cons.prems in auto)
  then obtain d where d: "console_run E C J D R X ?c1 d" "cn_phase d = Stopping" "s_lock (n_srv (cn_net d)) = Some InStop"
    "s_stopping (n_srv (cn_net d)) = []" "n_node (cn_net d) = n_node (cn_net c)"
    "\<forall>j. if j \<in> set is then loops_done j (n_srv (cn_net d)) else s_obj (n_srv (cn_net d)) j = s_obj (n_srv (cn_net ?c1)) j"
    by auto
  have "s_obj (n_srv (cn_net d)) i = Some p'" using d(6) [rule_format, of i] Cons.prems(4) by simp
  then have "loops_done i (n_srv (cn_net d))" using p' by (simp add: loops_done_def)
  then have "if j \<in> set (i # is) then loops_done j (n_srv (cn_net d)) else s_obj (n_srv (cn_net d)) j = s_obj (n_srv (cn_net c)) j" for j
    using d(6) [rule_format, of j] by auto
  with d(2-5) console_run_trans [OF d(1) run] show ?case by blast
qed


text \<open>A loop of a peer that is still to be stopped waits for the lock that \<open>Stop\<close> holds.\<close>

definition stop_stuck :: "nat \<Rightarrow> loop \<Rightarrow> server \<Rightarrow> bool" where
  "stop_stuck i k s \<longleftrightarrow> s_lock s = Some InStop \<and> i \<in> set (s_stopping s) \<and> (\<exists>p r. s_obj s i = Some p \<and> loop_at k p = AtLock r)"

lemma loop_at_quit [simp]: "loop_at k (p\<lparr>p_quit := q\<rparr>) = loop_at k p"
  by (cases k) (simp_all add: loop_at_def)

lemma stop_stuck_step:
  assumes "net_step E C J D R X x y" "stop_stuck i k (n_srv x)" "s_lock (n_srv y) = Some InStop"
  shows "stop_stuck i k (n_srv y)"
  using assms(1)
proof (cases rule: net_step.cases)
  case (net_read j p I now mc payload s' n')
  have f: "read_frame j (n_srv x) s'" by (rule read_round_frame [OF net_read(4,2)])
  obtain q r where q: "s_obj (n_srv x) i = Some q" "loop_at k q = AtLock r" using assms(2) by (auto simp: stop_stuck_def)
  have "\<exists>p r. s_obj s' i = Some p \<and> loop_at k p = AtLock r"
  proof (cases "i = j")
    case True
    obtain p' where p': "s_obj s' i = Some p'" "p_write p' = p_write p"
      using f net_read(2) True by (auto simp: read_frame_def touched_def)
    have "k = WriteLoop" using q net_read(2,3) True by (cases k) (auto simp: loop_at_def)
    then show ?thesis using q p' net_read(2) True by (auto simp: loop_at_def)
  qed (use f q in \<open>auto simp: read_frame_def\<close>)
  then show ?thesis using assms(2) net_read(1) f by (auto simp: stop_stuck_def read_frame_def)
next
  case (net_write j p ok p')
  have "p_write p' = p_write p \<or> p_write p' = AtLock True" "p_read p' = p_read p"
    using net_write(4) by (auto simp: write_round_def Let_def split: list.splits option.splits if_splits)
  then show ?thesis using net_write assms(2) by (cases k) (auto simp: stop_stuck_def loop_at_def)
next
  case (net_stop_next j "is")
  then show ?thesis using assms(2) by (cases k) (auto simp: stop_stuck_def loops_done_def loop_at_def)
qed (use assms(2,3) in \<open>auto simp: stop_stuck_def stop_peer_def loop_at_read\<close>)

lemma stop_stuck_run:
  assumes "console_run E C J D R X c d" "stop_stuck i k (n_srv (cn_net c))" "cn_phase c = Stopping"
  shows "stop_stuck i k (n_srv (cn_net d)) \<and> cn_phase d = Stopping"
  using assms
proof induction
  case (con_next d e)
  then have d: "stop_stuck i k (n_srv (cn_net d))" "cn_phase d = Stopping" by simp_all
  from con_next(2) show ?case
  proof (cases rule: console_step.cases)
    case (con_net y)
    then show ?thesis using stop_stuck_step [OF con_net(3) d(1)] d by (simp add: stop_stuck_def)
  qed (use d in \<open>auto simp: stop_stuck_def\<close>)
qed simp

text \<open>An exit can also hang: when a connection fails and the console takes the peer lock before the loop of
  this peer does, \<open>Stop\<close> waits for a loop that waits for the lock, and in no run does the program
  get past it.\<close>

theorem exit_can_hang:
  assumes peer: "i \<in> set (s_peers (n_srv (cn_net c)))" "s_obj (n_srv (cn_net c)) i = Some p" "p_read p = Looping"
      "s_lock (n_srv (cn_net c)) = None"
    and phase: "cn_phase c = Prompt"
  shows "\<exists>d. console_run E C J D R X c d \<and> cn_phase d = Stopping \<and>
    (\<forall>e. console_run E C J D R X d e \<longrightarrow> cn_phase e = Stopping)"
proof -
  let ?s1 = "upd_peer i (set_loop ReadLoop (AtLock True)) (n_srv (cn_net c))"
  let ?c1 = "c\<lparr>cn_net := (cn_net c)\<lparr>n_srv := ?s1\<rparr>\<rparr>"
  let ?d = "?c1\<lparr>cn_net := (cn_net ?c1)\<lparr>n_srv := stop_enter ?s1\<rparr>, cn_phase := Stopping\<rparr>"
  have "console_step E C J D R X c ?c1"
    by (rule con_net [OF _ net_read_error [OF peer(2,3)]]) (use phase in simp_all)
  moreover have "console_step E C J D R X ?c1 ?d"
    by (rule con_exit [of _ C undefined "''exit''"]) (use phase peer(4) in \<open>simp_all add: run_exit cmd_exit_def\<close>)
  ultimately have run: "console_run E C J D R X c ?d" by (meson con_refl con_next)
  have "stop_stuck i ReadLoop (n_srv (cn_net ?d))" using peer by (simp add: stop_stuck_def stop_enter_def ex_bool_eq)
  from stop_stuck_run [OF _ this] run show ?thesis by (intro exI [of _ ?d]) simp
qed

subsection \<open>Keys and deposits\<close>

text \<open>A deposit from the console: after a key was added, a stake command for its account puts exactly one
  transaction into the channel, signed with that key, to the staking contract, for the given amount and with the
  next nonce of the account; nothing else of the node changes but the keystore.\<close>

theorem addkey_then_stake:
  assumes lines: "Fields l1 = [''addkey'', kHex]" "Fields l2 = [''stake'', amtStr, addrStr]"
    and key: "ce_H A (TrimPrefix kHex ''0x'') = Some k"
    and args: "big_SetString amtStr 10 = Some amt" "IsHexAddress addrStr" "HexToAddress addrStr = PrivToAddr C k"
    and P: "P = n_Params (nd_netCfg (n_node x))"
    and tx: "tx = NewTransaction (GetNonce (Keccak C) (nd_state (n_node x)) (PrivToAddr C k)) (StakingAddr P) amt 100000 (DefaultBaseFee P) []"
      "ce_SignTx A (n_ChainID (nd_netCfg (n_node x))) tx k = Some signedTx"
    and room: "length (nd_txCh (n_node x)) < 2000"
  shows "\<exists>y z. run_command C A l1 x = Reply [AddedAccount (PrivToAddr C k)] y \<and> run_command C A l2 y = Reply [StakeSubmitted] z \<and>
    GetKey (n_node z) (PrivToAddr C k) = Some k \<and>
    z = x\<lparr>n_node := (n_node x)\<lparr>nd_keystore := nd_keystore (n_node y), nd_txCh := nd_txCh (n_node x) @ [signedTx]\<rparr>\<rparr>"
proof -
  let ?y = "x\<lparr>n_node := AddKey C k (n_node x)\<rparr>"
  have get: "GetKey (AddKey C k (n_node x)) (PrivToAddr C k) = Some k"
    by (simp add: GetKey_def AddKey_def update_Some_unfold)
  have "run_command C A l1 x = Reply [AddedAccount (PrivToAddr C k)] ?y"
    using lines(1) key by (simp add: run_command_def cmd_addkey_def)
  moreover have "run_command C A l2 ?y = Reply [StakeSubmitted]
      (x\<lparr>n_node := (AddKey C k (n_node x))\<lparr>nd_txCh := nd_txCh (n_node x) @ [signedTx]\<rparr>\<rparr>)"
    using lines(2) args tx(2) room get
    by (simp add: run_command_def cmd_stake_def SendStakeTx_def send_signed_def Let_def AddKey_def ChainConfigOf_def SubmitTx_def
        sent_def P [symmetric] tx(1) [symmetric])
  ultimately show ?thesis using get by (simp add: AddKey_def GetKey_def)
qed

subsection \<open>Ports\<close>

lemma find_port_spec:
  "find_port free port k = Some q \<longleftrightarrow> port \<le> q \<and> q < port + int k \<and> free q \<and> (\<forall>p. port \<le> p \<and> p < q \<longrightarrow> \<not> free p)"
proof (induction k arbitrary: port)
  case (Suc k)
  have split: "port \<le> p \<longleftrightarrow> p = port \<or> port + 1 \<le> p" for p by auto
  have "(\<forall>p. port \<le> p \<and> p < q \<longrightarrow> \<not> free p) \<longleftrightarrow> (port < q \<longrightarrow> \<not> free port) \<and> (\<forall>p. port + 1 \<le> p \<and> p < q \<longrightarrow> \<not> free p)"
    unfolding split [of "_"] by auto
  moreover have "port + 1 \<le> q \<longleftrightarrow> port \<le> q \<and> q \<noteq> port" by auto
  ultimately show ?case using Suc [of "port + 1"] by (cases "q = port") auto
qed simp

text \<open>What \<open>net.Listen\<close> promises: the ports the process listens on itself are taken, and nothing else changes.\<close>

definition ports_ok :: "(int list \<Rightarrow> int \<Rightarrow> bool) \<Rightarrow> bool" where
  "ports_ok L \<longleftrightarrow> (\<forall>held p. L held p \<longleftrightarrow> L [] p \<and> p \<notin> set held)"

text \<open>C37. When an explicit port works: with a valid key and a chain that opens, \<open>-port\<close> starts the node exactly
  if the port is free and is not the first free one from 30303 on, since this one is
  given to the P2P server, which listens before the HTTP server; so a base port for P2P such as
  30303 never works on an idle machine.\<close>

theorem port_flag:
  assumes "ports_ok L" "0 < fl_port f" "main_config H (L []) f = Inr config"
    and "Start C J D R (the (ValidatorKey config)) config (disk (DataDir config)) = Inr n"
  shows "(\<exists>r. main_start C J D R H L unix f disk = Inr r) \<longleftrightarrow> L [] (fl_port f) \<and>
    \<not> (30303 \<le> fl_port f \<and> fl_port f < 30403 \<and> (\<forall>p. 30303 \<le> p \<and> p < fl_port f \<longrightarrow> \<not> L [] p))"
proof -
  have config: "P2PPort config = findAvailablePort (L []) 30303" "HTTPPort config = fl_port f" "ValidatorKey config \<noteq> None"
    using assms(2,3) by (auto simp: main_config_def main_ports_def Let_def split: sum.splits)
  then have start: "Start C J D R (case ValidatorKey config of None \<Rightarrow> 0 | Some k \<Rightarrow> k) config (disk (DataDir config)) = Inr n"
    using assms(4) by auto
  have L: "L [q] p \<longleftrightarrow> L [] p \<and> p \<noteq> q" for p q using assms(1) unfolding ports_ok_def by (metis list.set(1,2) singleton_iff)
  have "(\<exists>r. main_start C J D R H L unix f disk = Inr r) \<longleftrightarrow>
      L [] (fl_port f) \<and> \<not> (L [] (findAvailablePort (L []) 30303) \<and> fl_port f = findAvailablePort (L []) 30303)"
    using assms(3) start config(1,2) by (auto simp: main_start_def start_listeners_def p2p_Start_def Let_def L)
  also have "\<dots> \<longleftrightarrow> L [] (fl_port f) \<and> find_port (L []) 30303 100 \<noteq> Some (fl_port f)"
    using find_port_spec [of "L []" 30303 100 30303] find_port_spec [of "L []" 30303 100 "fl_port f"]
    by (cases "find_port (L []) 30303 100") (auto simp: findAvailablePort_def)
  finally show ?thesis by (auto simp: find_port_spec)
qed

subsection \<open>Witnesses\<close>

definition demo_console :: "(bytes \<times> bytes) list console" where
  "demo_console = \<lparr>cn_net = demo_net_state demo_server, cn_out = [], cn_phase = Prompt\<rparr>"

lemma demo_console_sel [simp]:
  "cn_phase demo_console = Prompt" "s_peers (n_srv (cn_net demo_console)) = [0]" "s_lock (n_srv (cn_net demo_console)) = None"
  "s_obj (n_srv (cn_net demo_console)) 0 = Some (NewPeer True 0)" "n_node (cn_net demo_console) = demo_node demo_engine"
  "p_read (NewPeer True 0) = Looping" "p_write (NewPeer True 0) = Looping"
  by (simp_all add: demo_console_def demo_net_state_def demo_server_def NewServer_def NewPeer_def)

theorem disconnect_blocks_exit_witness:
  "\<exists>d. console_run demo_evm gen_crypto demo_codec mem_db (\<lambda>_. 0) no_wire demo_console d \<and>
     (\<forall>e A. console_run demo_evm gen_crypto demo_codec mem_db (\<lambda>_. 0) no_wire d e \<longrightarrow>
       run_command gen_crypto A ''exit'' (cn_net e) = Blocked)"
  using disconnect_blocks_exit [of 0 demo_console "NewPeer True 0" demo_evm gen_crypto demo_codec mem_db "\<lambda>_. 0" no_wire]
  by auto


theorem exit_can_hang_witness:
  "\<exists>d. console_run demo_evm gen_crypto demo_codec mem_db (\<lambda>_. 0) no_wire demo_console d \<and> cn_phase d = Stopping \<and>
     (\<forall>e. console_run demo_evm gen_crypto demo_codec mem_db (\<lambda>_. 0) no_wire d e \<longrightarrow> cn_phase e = Stopping)"
  using exit_can_hang [of 0 demo_console "NewPeer True 0" demo_evm gen_crypto demo_codec mem_db "\<lambda>_. 0" no_wire] by auto

text \<open>A console whose only key belongs to the address 0, with a signer that keeps the transaction.\<close>

definition zero_env :: console_env where
  "zero_env = \<lparr>ce_H = (\<lambda>s. if s = ''02'' then Some 2 else None), ce_SignTx = (\<lambda>cid tx k. Some tx), ce_dial = (\<lambda>_. None),
     ce_now = 0, ce_config = DefaultConfig\<rparr>"

definition zero_crypto :: crypto where
  "zero_crypto = gen_crypto\<lparr>PrivToAddr := \<lambda>_. 0\<rparr>"

definition zero_addr :: string where
  "zero_addr = ''0x0000000000000000000000000000000000000000''"

lemma zero_addr: "IsHexAddress zero_addr" "HexToAddress zero_addr = 0" "list_all (\<lambda>c. \<not> isSpace c) zero_addr" "zero_addr \<noteq> []"
  by (simp_all add: zero_addr_def IsHexAddress_def isHex_def isHexCharacter_def hex_eval isSpace_def)

theorem addkey_then_stake_witness:
  "\<exists>y z. run_command zero_crypto zero_env ''addkey 0x02'' (cn_net demo_console) = Reply [AddedAccount 0] y \<and>
     run_command zero_crypto zero_env (''stake 5 '' @ zero_addr) y = Reply [StakeSubmitted] z \<and>
     GetKey (n_node z) 0 = Some 2 \<and> map tx_Value (nd_txCh (n_node z)) = [5]"
proof -
  have f: "Fields ''addkey 0x02'' = [''addkey'', ''0x02'']" "Fields (''stake 5 '' @ zero_addr) = [''stake'', ''5'', zero_addr]"
    using Fields_words(3) [of "''addkey''" "''0x02''"] Fields_words(3) [of "''stake''" "''5 '' @ zero_addr"]
      Fields_words(3) [of "''5''" zero_addr] Fields_words(2) [of zero_addr] zero_addr(3,4)
    by (simp_all add: isSpace_def)
  have p: "PrivToAddr zero_crypto 2 = 0" by (simp add: zero_crypto_def)
  from addkey_then_stake [OF f, of zero_env 2 5 zero_crypto _ "cn_net demo_console", unfolded p, OF _ _ zero_addr(1,2) refl refl]
  show ?thesis
    by (fastforce simp: zero_env_def TrimPrefix_def big_SetString_def digit_value_def NewTransaction_def demo_node_def)
qed

theorem port_flag_witness:
  "\<exists>C J. \<not> (\<exists>r. main_start C J mem_db (\<lambda>_. 0) (\<lambda>_. Some 2) (\<lambda>held p. p \<notin> set held) (\<lambda>_. True)
     (default_flags\<lparr>fl_port := 30303\<rparr>) (\<lambda>_. []) = Inr r)"
proof -
  let ?G = "n_GenesisHash (GetNetworkConfig ''devnet'')"
  let ?C = "toy_crypto\<lparr>Keccak := \<lambda>_. ?G\<rparr>"
  let ?g = "NewBlock (genesis_header ?C mem_db (\<lambda>_. 0) [] ''devnet'') []"
  let ?J = "toy_codec ?g ?g"
  let ?f = "default_flags\<lparr>fl_port := 30303\<rparr>"
  obtain config where config: "main_config (\<lambda>_. Some 2) (\<lambda>p. p \<notin> set []) ?f = Inr config" "Network config = ''devnet''"
    by (simp add: main_config_def main_key_def default_flags_def Let_def main_ports_def)
  have "?G \<noteq> 0" using demo_hash_new(2) by (simp add: demo_net_def)
  then obtain n where "Start ?C ?J mem_db (\<lambda>_. 0) (the (ValidatorKey config)) config [] = Inr n"
    using Start_fresh(1) [OF leveldb_ok_mem db_writable_mem codec_ok_toy, of "[]" ?g ?g ?C "\<lambda>_. 0" config] config(2)
    by (auto simp: header_Hash_Some toy_codec_def)
  from port_flag [of "\<lambda>held p. p \<notin> set held" ?f, OF _ _ config(1) this, of "\<lambda>_. True"]
  have "\<not> (\<exists>r. main_start ?C ?J mem_db (\<lambda>_. 0) (\<lambda>_. Some 2) (\<lambda>held p. p \<notin> set held) (\<lambda>_. True) ?f (\<lambda>_. []) = Inr r)"
    by (simp add: ports_ok_def default_flags_def)
  then show ?thesis by blast
qed

end
