(* ===== verification/Simulation.thy ===== *)
theory Simulation
  imports Console
begin

text \<open>
  \<open>cmd/simulation/main.go\<close>: four validator nodes in one process, connected to each other, the traffic sent to
  them and the condition for success.  \<open>H\<close> is \<open>crypto.HexToECDSA\<close>, \<open>L\<close> and \<open>unix\<close> are the listeners of
  the operating system, \<open>disk0\<close> is an empty data directory.  Sleeps and signals are not part of the model.
\<close>

definition valKeys :: "string list" where
  "valKeys =
     [''ac0974bec39a17e36ba4a6b4d238ff944bacb478cbed5efcae784d7bf4f2ff80'',
      ''59c6995e998f97a5a0044966f0945389dc9e86dae88c7a8412f4603b6b78690d'',
      ''5de4111afa1a4b94908f83103eb1f1706367c2e68ca870fc3fb9a804cdab365a'',
      ''7c852118294e51e653712a81e05800f419141751be58f605c371e15141b007a6'']"

definition sim_config :: "(string \<Rightarrow> privkey option) \<Rightarrow> nat \<Rightarrow> Config" where
  "sim_config H i = \<lparr>Network = ''simulation'', DataDir = ''tmp/sim_node_'' @ show_nat i, HTTPPort = 8500 + int i,
     ValidatorKey = H (valKeys ! i), P2PPort = 30300 + int i, WSPort = 0, IPCPath = '''', Bootnodes = []\<rparr>"

text \<open>The nodes start one after the other; the ports of the earlier ones are taken.  A failure panics.\<close>

fun sim_start ::
    "crypto \<Rightarrow> codec \<Rightarrow> 'd leveldb \<Rightarrow> (vtree \<Rightarrow> hash) \<Rightarrow> (string \<Rightarrow> privkey option) \<Rightarrow> privkey \<Rightarrow> (int list \<Rightarrow> int \<Rightarrow> bool)
      \<Rightarrow> (string \<Rightarrow> bool) \<Rightarrow> 'd \<Rightarrow> int list \<Rightarrow> nat list \<Rightarrow> main_error + 'd net list" where
  "sim_start C J D R H devKey L unix disk0 taken [] = Inr []"
| "sim_start C J D R H devKey L unix disk0 taken (i # is) =
     (case Start C J D R devKey (sim_config H i) disk0 of
        Inl e \<Rightarrow> Inl (StartFailed e)
      | Inr n \<Rightarrow>
          (case start_listeners (\<lambda>held. L (held @ taken)) unix (sim_config H i) of
             Inl e \<Rightarrow> Inl e
           | Inr ep \<Rightarrow>
               (let taken1 = ep_http ep # (case ep_p2p ep of None \<Rightarrow> [] | Some p \<Rightarrow> [p]) @ taken
                in case sim_start C J D R H devKey L unix disk0 taken1 is of
                     Inl e \<Rightarrow> Inl e
                   | Inr xs \<Rightarrow> Inr (\<lparr>n_srv = NewServer, n_node = n, n_bcast = None\<rparr> # xs))))"

text \<open>Everyone dials everyone.\<close>

definition mesh :: "(nat \<times> string) list" where
  "mesh = concat (map (\<lambda>i. map (\<lambda>j. (i, ''127.0.0.1:'' @ show_nat (30300 + j))) (filter (\<lambda>j. i \<noteq> j) [0..<4])) [0..<4])"

fun sim_connect ::
    "crypto \<Rightarrow> (nat \<Rightarrow> string \<Rightarrow> nat option) \<Rightarrow> int \<Rightarrow> (nat \<times> string) list \<Rightarrow> 'd net list \<Rightarrow> 'd net list option" where
  "sim_connect C dial now [] nodes = Some nodes"
| "sim_connect C dial now ((i, addr) # ds) nodes =
     (case Dial C (dial i) now addr (nodes ! i) of
        Reply out x \<Rightarrow> sim_connect C dial now ds (nodes[i := x])
      | _ \<Rightarrow> None)"

text \<open>The transaction number \<open>i\<close> of the traffic and its submission to the first two nodes; \<open>None\<close> while a channel is full, or without a signature.\<close>

definition sim_tx :: "nat \<Rightarrow> transaction" where
  "sim_tx i = NewTransaction (of_nat i) (HexToAddress ''0xdeadbeef'') 100 21000 100 []"

definition submit_at :: "nat \<Rightarrow> transaction \<Rightarrow> 'd net list \<Rightarrow> 'd net list option" where
  "submit_at k tx nodes =
     (case SubmitTx tx (n_node (nodes ! k)) of
        None \<Rightarrow> None
      | Some n \<Rightarrow> Some (nodes[k := (nodes ! k)\<lparr>n_node := n\<rparr>]))"

definition sim_send ::
    "(int \<Rightarrow> transaction \<Rightarrow> privkey \<Rightarrow> transaction option) \<Rightarrow> privkey \<Rightarrow> nat \<Rightarrow> 'd net list \<Rightarrow> 'd net list option" where
  "sim_send SignTx key i nodes =
     (case SignTx (c_ChainID (ChainConfigOf (GetNetworkConfig ''simulation''))) (sim_tx i) key of
        None \<Rightarrow> None
      | Some signedTx \<Rightarrow>
          (case submit_at 0 signedTx nodes of
             None \<Rightarrow> None
           | Some nodes1 \<Rightarrow> (if i mod 2 = 0 then submit_at 1 signedTx nodes1 else Some nodes1)))"

text \<open>The monitor: all four heights agree and are above 20.\<close>

definition height :: "'d net \<Rightarrow> uint64 option" where
  "height x = map_option (\<lambda>b. big_Uint64 (Number (Header b))) (currentBlock (nd_bc (n_node x)))"

definition sim_success :: "'d net list \<Rightarrow> bool option" where
  "sim_success nodes =
     (case map height nodes of
        [Some h0, Some h1, Some h2, Some h3] \<Rightarrow> Some (h0 > 20 \<and> h0 = h1 \<and> h1 = h2 \<and> h2 = h3)
      | _ \<Rightarrow> None)"

subsection \<open>The traffic\<close>

text \<open>What \<open>types.SignTx\<close> promises of the price.\<close>

definition sign_keeps_price :: "(int \<Rightarrow> transaction \<Rightarrow> privkey \<Rightarrow> transaction option) \<Rightarrow> bool" where
  "sign_keeps_price SignTx \<longleftrightarrow> (\<forall>cid tx key tx'. SignTx cid tx key = Some tx' \<longrightarrow>
     tx_GasFeeCap tx' = tx_GasFeeCap tx \<and> tx_GasTipCap tx' = tx_GasTipCap tx)"

lemma CalcBaseFee_floor:
  assumes "CalcBaseFee config par = Some f" "\<forall>g. BaseFee par = Some g \<longrightarrow> 1000000000 \<le> g"
  shows "1000000000 \<le> f"
proof -
  have "InitialBaseFee = 1000000000" by (simp add: InitialBaseFee_def)
  then show ?thesis
    using assms by (auto simp: CalcBaseFee_def Let_def split: option.splits if_splits)
qed

lemma underpriced_rejected:
  assumes "IsLondon (x_config e) (Number h)" "BaseFee h = Some f"
    and "tx_GasTipCap tx \<le> tx_GasFeeCap tx" "tx_GasFeeCap tx < f" "\<bar>tx_GasFeeCap tx\<bar> < 2 ^ 256" "\<bar>tx_GasTipCap tx\<bar> < 2 ^ 256"
  shows "run_tx E C D d e h s tx \<in> {Skipped, Erred}"
proof (cases "TransactionToMessage C (c_ChainID (x_config e)) tx (BaseFee h)")
  case (Some msg)
  let ?z = "NewEVM h (x_config e) (getHash C e h)"
  have m: "m_GasFeeCap msg = tx_GasFeeCap tx" "m_GasTipCap msg = tx_GasTipCap tx"
    using Some by (auto simp: TransactionToMessage_def split: option.splits)
  have z: "chainConfig ?z = x_config e" "b_BlockNumber (Context ?z) = Number h" "b_BaseFee (Context ?z) = Some f"
    using assms(2) by (simp_all add: NewEVM_def Let_def)
  have fee: "fee_check ?z msg = Some ErrFeeCapTooLow" unfolding fee_check_def z m using assms by simp
  have "nonce_check K q msg \<noteq> Some Panic" for K q by (simp add: nonce_check_def Let_def)
  moreover obtain c s1 where
    "(if m_SkipTransactionChecks msg then ([], NewOverlay s) else GetCode (Keccak C) D d (NewOverlay s) (m_From msg)) = (c, s1)"
    by fastforce
  ultimately obtain err where "preCheck (Keccak C) D d ?z msg (GasLimit h) (NewOverlay s) = Inl err" "err \<noteq> Panic"
    by (cases "nonce_check (Keccak C) (NewOverlay s) msg"; cases "length c > 0 \<and> ParseDelegation c = None")
      (auto simp: preCheck_def fee)
  then have "ApplyMessage E (Keccak C) D d ?z msg (GasLimit h) (NewOverlay s) = Inl err" "err \<noteq> Panic"
    by (simp_all add: ApplyMessage_def execute_def)
  then show ?thesis using Some by (simp add: run_tx_def Let_def)
qed (simp add: run_tx_def Let_def)

text \<open>The traffic of the simulation never executes: every block a node produces has a base fee of at least
  1 Gwei if its parent has none or such a one, while the transactions offer 100 wei for a unit of gas; so the execution
  of each of them, in every state, is skipped or ends with an error, and none changes the state.\<close>

theorem simulation_traffic_rejected:
  assumes signed: "sign_keeps_price SignTx" "SignTx cid (sim_tx i) key = Some tx"
    and header: "CalcBaseFee (ChainConfigOf cfg) (Header par) = Some f" "\<forall>g. BaseFee (Header par) = Some g \<longrightarrow> 1000000000 \<le> g"
      "0 \<le> Number (Header par)" "x_config e = ChainConfigOf cfg"
  shows "run_tx E C D d e (new_header C cfg now par f) s tx \<in> {Skipped, Erred}"
proof -
  have "tx_GasFeeCap tx = tx_GasFeeCap (sim_tx i) \<and> tx_GasTipCap tx = tx_GasTipCap (sim_tx i)"
    using signed unfolding sign_keeps_price_def by blast
  then have p: "tx_GasFeeCap tx = 100" "tx_GasTipCap tx = 100" by (simp_all add: sim_tx_def NewTransaction_def)
  have "100 < f" using CalcBaseFee_floor [OF header(1,2)] by linarith
  moreover have "IsLondon (x_config e) (Number (new_header C cfg now par f))"
    using header(3) unfolding header(4) by (simp add: IsLondon_def isBlockForked_def ChainConfigOf_def new_header_def)
  ultimately show ?thesis
    by (intro underpriced_rejected) (simp_all add: p new_header_def)
qed

theorem simulation_traffic_rejected_witness:
  "run_tx demo_evm toy_crypto mem_db [] (demo_exec\<lparr>x_config := ChainConfigOf (GetNetworkConfig ''simulation'')\<rparr>)
     (new_header toy_crypto (GetNetworkConfig ''simulation'') 5 (GenerateGenesisBlock (GetNetworkConfig ''simulation'')) 1000000000)
     (NewState mem_db 0 None) (sim_tx 0) \<in> {Skipped, Erred}"
proof -
  let ?cfg = "GetNetworkConfig ''simulation''"
  have g: "BaseFee (Header (GenerateGenesisBlock ?cfg)) = None" "Number (Header (GenerateGenesisBlock ?cfg)) = 0"
    by (simp_all add: GenerateGenesisBlock_def GetNetworkConfig_def network_base_def Let_def)
  then have "CalcBaseFee (ChainConfigOf ?cfg) (Header (GenerateGenesisBlock ?cfg)) = Some 1000000000"
    by (simp add: CalcBaseFee_def ChainConfigOf_def InitialBaseFee_def big_Uint64_def)
  then show ?thesis
    by (rule simulation_traffic_rejected [where SignTx = "\<lambda>cid tx key. Some tx" and i = 0, rotated 2])
      (simp_all add: sign_keeps_price_def g)
qed

end
