(* ===== verification/Spec2Isabelle.thy ===== *)
theory Spec2Isabelle
  imports Simulation
begin

text \<open>
  Zephyria, a proof-of-stake chain with EVM execution written in Go: a model of the node and the theorems
  about it.

  \<^bold>\<open>The program.\<close>  A node (\<open>node/node.go\<close>) owns a LevelDB database, a chain of blocks
  (\<open>core/blockchain.go\<close> over the accessors of \<open>core/rawdb\<close>), the account state
  (\<open>state/statedb.go\<close> over a Verkle tree), the consensus engine (\<open>consensus/zelius.go\<close>) and an executor
  (\<open>core/executor.go\<close>).  Its loop collects transactions; when the engine names its key as
  leader it selects transactions, lets the executor run them in waves (\<open>core/scheduler.go\<close>) on
  overlays of the state, runs the native contracts (\<open>core/system_contracts.go\<close>), seals the
  block, hands it to the peers (\<open>p2p\<close>) and persists state and block in a goroutine of its own.  Blocks of
  other nodes come in through the peers and are verified, executed and stored.  Clients use the
  JSON-RPC methods of \<open>rpc\<close>, the operator the console of \<open>cmd/zephyria\<close>.

  \<^bold>\<open>The theories\<close>, in the order of their imports, with the code they translate.  Definitions have the names
  of the source; a prefix or suffix is added where a name is taken.
  \<^item> \<open>Prelude\<close>: types for Go's integers and byte slices, the big-endian codec, lemmas on lists, maps and words.
  \<^item> \<open>GoLib\<close>: \<open>common.Hash\<close>, \<open>common.Address\<close>, hex and decimal text, \<open>uint256\<close>.
  \<^item> \<open>Verkle\<close>: insertion and lookup of the vendored \<open>go-verkle\<close> tree; the locale \<open>byte_trie\<close> is its contract.
  \<^item> \<open>Types\<close>: \<open>types/block.go\<close>, \<open>types/receipt.go\<close>, transactions and the record \<open>crypto\<close>.
  \<^item> \<open>RawDB\<close>: \<open>core/rawdb/accessors_chain.go\<close> over the record \<open>leveldb\<close> and the JSON \<open>codec\<close>.
  \<^item> \<open>StateDB\<close>: \<open>state/statedb.go\<close>; a state is a record of fields with an optional parent.  The locale
    \<open>kv_store\<close> is the key/value contract under which the account operations are proved.
  \<^item> \<open>Zelius\<close>: \<open>consensus/zelius.go\<close>; \<open>Scheduler\<close>: \<open>core/scheduler.go\<close> with the locale
    \<open>wave_scheduler\<close>; \<open>Genesis\<close>: \<open>core/genesis.go\<close>; \<open>Blockchain\<close>: \<open>core/blockchain.go\<close>.
  \<^item> \<open>StateTransition\<close>: \<open>vm/evm.go\<close> and go-ethereum's \<open>ApplyMessage\<close> with the outer layer of calls and creations.
  \<^item> \<open>SystemContracts\<close>: staking, registry and rewards; the locale \<open>registry_store\<close> is an abstract list of
    validators that the storage of the contract refines.
  \<^item> \<open>Executor\<close>: \<open>core/executor.go\<close>, one event per start and end of a goroutine;
    \<open>Wellformed\<close>: the state invariant through a whole block.
  \<^item> \<open>Node\<close>: \<open>node/node.go\<close> as operations on the record \<open>node\<close> and as the relation \<open>node_step\<close>;
    \<open>NodeCorrect\<close>: its properties.
  \<^item> \<open>P2P\<close>: \<open>p2p/message.go\<close>, \<open>p2p/peer.go\<close>, \<open>p2p/server.go\<close>; \<open>net_step\<close> interleaves the
    loops of all peers with the loop of the node and makes the waiting for locks explicit.
  \<^item> \<open>RPC\<close>: the methods of \<open>rpc/*.go\<close> as functions of the node.
  \<^item> \<open>Console\<close>: \<open>cmd/zephyria/main.go\<close>, from the flags to the node, the listeners of \<open>Node.Start\<close>, and
    the commands, with \<open>console_step\<close> over \<open>net_step\<close>; \<open>Simulation\<close>: \<open>cmd/simulation/main.go\<close>.

  \<^bold>\<open>What the theorems show.\<close>
  \<^item> State: committing and restarting gives back every value; merging an overlay publishes exactly its writes; merges
    with disjoint writes commute; transfers conserve; every block keeps the invariant and the agreement with the disk.
  \<^item> Chain: what is added is found again by hash, number and transaction; the head survives a
    restart; the base fee moves in bounded steps.
  \<^item> Consensus: a sealed block verifies exactly for the scheduled leader; leaders depend on the validator list only.
  \<^item> Execution: waves are conflict free and complete; receipts are aligned with the transactions in every
    interleaving; a block without blob transactions always returns; gas lies between its bounds.
  \<^item> Contracts: a deposit and a withdrawal refine appending to and removing from the list of validators.
  \<^item> Node: a produced block extends the head by the rules; a replica that imports it reaches the producer's state; it
    survives a restart; the state lock is released by persisting the block, and by nothing else.
  \<^item> Network: a node that is behind catches up with its peer; buffers and the message rate are bounded.
  \<^item> Clients: an accepted transaction is selected, a persisted one is found with its receipt, a log query
    returns exactly the matching logs, gas estimates are bounded.
  \<^item> Defects that the model exposes are theorems as well: a lost connection stops the node and blocks its console, a
    failed seal freezes it, replayed blocks mint coins, a zeroed balance returns, failed calls keep their value, no
    receipt has logs, tips are paid twice or lost, and (below) the first deposit displaces all configured validators.

  \<^bold>\<open>Parameters.\<close>  What is not in the repository, or only as a library, is an argument: hashing, header
  encoding and signatures (\<open>crypto\<close>; \<open>sign_ok\<close>, \<open>sig_binding\<close>, \<open>collision_free\<close>, \<open>sign_tx_ok\<close>), the
  database (\<open>leveldb_ok\<close>, \<open>db_writable\<close>), the JSON and RLP codecs (\<open>codec_ok\<close>, \<open>wire_ok\<close>), the root
  commitment of a tree, the EVM interpreter and the precompiled contracts (\<open>evm\<close>; \<open>gas_ok\<close>, \<open>evm_keeps\<close>), the clock,
  the interleaving of goroutines (\<open>I\<close>, \<open>W\<close> and the step relations) and the ports of the machine
  (\<open>ports_ok\<close>).  Each hypothesis is documented behaviour of that code, and every theorem that has one is
  applied to concrete instances (\<open>toy_crypto\<close>, \<open>mem_db\<close>, \<open>toy_codec\<close>, \<open>demo_evm\<close> and others).

  \<^bold>\<open>Integers, loops and fuel.\<close>  Go's fixed-width integers are words and wrap around, \<open>*big.Int\<close> is \<open>int\<close>.
  Loops are structural or have a termination proof; no fuel is used.  The one loop that may not end, the
  reading of the validator registry, is a partial function into \<open>option\<close>, and it is proved to return
  for every count below the largest 64-bit number.  A panic is the value \<open>None\<close> or \<open>Panic\<close>, an error a value of a
  sum or option type, a wait for a lock the absence of a step.

  \<^bold>\<open>Not modelled.\<close>  The interpreter loop, the commitments and proofs of the Verkle tree and the branches of
  forks no network configures, since they are library code behind a parameter; reads of one transaction
  that another merge interrupts (an execution sees the state at one instant); the HTTP, WebSocket and IPC servers behind
  the listeners, signals and the closing of the database, which are I/O; RPC methods that return a constant; the
  printed text; the client tools \<open>cmd/metamask_sim\<close>, \<open>cmd/stake_sim\<close>, \<open>cmd/verify_deploy\<close>,
  \<open>cmd/verify_rpc\<close>, \<open>cmd/verify_ws\<close> and \<open>cmd/zwallet\<close>, which are scripts of calls to a
  running node; the sleeps and the shutdown of \<open>cmd/simulation\<close>; \<open>state/stub.go\<close>, the sample
  contract and the shell scripts.
\<close>

section \<open>A deposit from the console to the validator set\<close>

text \<open>A stored value that is not zero survives the commit.\<close>

lemma clear_dirty_GetState:
  assumes "statedb_ok s" "parent s = None" "GetState K s a k \<noteq> 0"
  shows "GetState K (clear_dirty s) a k = GetState K s a k"
proof -
  obtain t where t: "tree (statedb.fields s) = Some t" using assms(1,2) by (cases s) (auto simp: base_ok_def split: option.splits)
  have "getVerkleValue s (storageKey K a k) \<noteq> []" using assms(3) by (auto simp: GetState_def)
  then have "map_of (dirty (statedb.fields s)) (storageKey K a k) \<noteq> Some []" using getVerkleValue_dirty [of s "storageKey K a k" "[]"] by auto
  then show ?thesis using clear_dirty_reads(2) [OF assms(1,2) t] by (simp add: GetState_def)
qed

text \<open>A registry with one entry makes this entry the only validator, and the leader of every view.\<close>

lemma sole_validator:
  assumes "g sync_validatorAddr 0 = 1" "g sync_validatorAddr 1 = address_key a"
  shows "\<exists>e'. SyncValidators (Some g) e = Some (None, e') \<and> map v_Address (Validators e') = [a] \<and> LeaderSchedule e' = [] \<and>
    privKey e' = privKey e"
proof -
  have one: "BigToHash 1 = 1" by (simp add: BigToHash_nat)
  have "readValidator g 1 = \<lparr>v_Address = a, v_Stake = hash_Big (g sync_stakingAddr (BytesToHash (address_Bytes a)))\<rparr>"
    using assms(2) address_key_roundtrip [of a] one by (simp add: readValidator_def Let_def)
  moreover have "syncLoop g 1 1 [] = Some [readValidator g 1]" using syncLoop_returns [of 1 1 g "[]"] by simp
  ultimately show ?thesis using assms(1) by (simp add: SyncValidators_def Let_def hash_Big_def big_Uint64_def RecalculateSchedule_def)
qed

lemma sole_leader:
  assumes "map v_Address (Validators e) = [a]" "LeaderSchedule e = []"
  shows "\<exists>e'. GetLeader C e view = (Some a, e') \<and> Validators e' = Validators e \<and> privKey e' = privKey e"
proof -
  obtain v where v: "Validators e = [v]" "v_Address v = a" using assms(1) by auto
  then show ?thesis using assms(2) by (auto simp: GetLeader_def Let_def split: option.splits)
qed

lemma persist_head: "currentBlock (nd_bc n) \<noteq> None \<Longrightarrow> currentBlock (nd_bc (persist C J D R n)) \<noteq> None"
  by (auto simp: persist_def commit_block_def CommitState_def AddBlock_def Let_def split: option.splits prod.splits)

lemma persist_engine [simp]:
  "nd_engine (persist C J D R n) = nd_engine n" "nd_netCfg (persist C J D R n) = nd_netCfg n"
  "nd_saving n \<noteq> None \<Longrightarrow> nd_state (persist C J D R n) = clear_dirty (nd_state n)"
  by (auto simp: persist_def commit_block_def CommitState_def Let_def split: option.splits)

text \<open>After the first registration, whoever is named in the configuration, the new validator leads.\<close>

lemma registered_takes_over:
  assumes "registered (Keccak C) P N A (nd_state n) [a]" "ValidatorAddr P = sync_validatorAddr" "parent (nd_state n) = None"
    and "nd_saving n \<noteq> None" "currentBlock (nd_bc n) \<noteq> None"
  shows "\<exists>e. tick_leader C (persist C J D R n) = Some (Some a, e) \<and> map v_Address (Validators e) = [a] \<and> privKey e = privKey (nd_engine n)"
proof -
  let ?g = "GetState (Keccak C) (nd_state (persist C J D R n))"
  have ok: "statedb_ok (nd_state n)" and N: "N < unat a"
    using assms(1) by (auto simp: registered_def sys_inv_def separated_def)
  have r: "GetState (Keccak C) (nd_state n) sync_validatorAddr 0 = 1" "GetState (Keccak C) (nd_state n) sync_validatorAddr 1 = address_key a"
    using assms(1) unfolding assms(2) [symmetric] by (auto simp: registered_def)
  have "unat (address_key a) \<noteq> 0" using N by (simp add: unat_address_key)
  then have "address_key a \<noteq> 0" by auto
  then have nz: "GetState (Keccak C) (nd_state n) sync_validatorAddr 0 \<noteq> 0" "GetState (Keccak C) (nd_state n) sync_validatorAddr 1 \<noteq> 0"
    unfolding r by simp_all
  have st: "nd_state (persist C J D R n) = clear_dirty (nd_state n)" using assms(4) by (rule persist_engine(3))
  have g: "?g sync_validatorAddr 0 = 1" unfolding st using clear_dirty_GetState [OF ok assms(3) nz(1)] r(1) by (rule trans)
  have h: "?g sync_validatorAddr 1 = address_key a" unfolding st using clear_dirty_GetState [OF ok assms(3) nz(2)] r(2) by (rule trans)
  note sv = sole_validator [of ?g a "nd_engine n", OF g h]
  obtain e1 where e1: "SyncValidators (Some ?g) (nd_engine n) = Some (None, e1)" "map v_Address (Validators e1) = [a]"
    "LeaderSchedule e1 = []" "privKey e1 = privKey (nd_engine n)"
    using sv by (elim exE conjE) (rule that)
  obtain par where par: "currentBlock (nd_bc (persist C J D R n)) = Some par" using persist_head [OF assms(5)] by blast
  obtain e2 where "GetLeader C e1 (big_Uint64 (Number (Header par) + 1)) = (Some a, e2)" "Validators e2 = Validators e1" "privKey e2 = privKey e1"
    using sole_leader [OF e1(2,3), of C "big_Uint64 (Number (Header par) + 1)"] by (elim exE conjE) (rule that)
  then have "tick_leader C (persist C J D R n) = Some (Some a, e2)" using e1(1) par by (simp add: tick_leader_def)
  then show ?thesis using e1 \<open>Validators e2 = Validators e1\<close> \<open>privKey e2 = privKey e1\<close> by simp
qed

text \<open>The proposer turns a pool of one deposit into a block.\<close>

lemma deposit_produced:
  fixes n :: "'d node"
  defines "cfg \<equiv> nd_netCfg n"
  assumes chain: "currentBlock (nd_bc n) = Some par" "CalcBaseFee (ChainConfigOf cfg) (Header par) = Some fee"
    and node: "nd_pool n = [tx]" "nd_saving n = None" "W [tx] = [tx]"
    and leader: "tick_leader C n = Some (Some (PrivToAddr C key), e)" "privKey e = Some key" "\<forall>h. SignHash C h key \<noteq> None"
    and tx: "Sender C (c_ChainID (ChainConfigOf cfg)) tx \<noteq> None" "select_tx C (c_ChainID (ChainConfigOf cfg)) (nd_state n) tx" "tx_Data tx = []"
    and block: "ApplyBlock E C D (bc_db (nd_bc n)) R (node_executor J D n) I (nd_state n) (new_header C cfg now par fee) [tx] = Some (rs, root, s)"
  shows "\<exists>m b. tick E C J D R I W now n = Some m \<and> nd_saving m = Some (b, rs) \<and> Transactions b = [tx] \<and> nd_state m = s \<and>
    nd_engine m = e \<and> nd_bc m = nd_bc n"
proof -
  let ?n1 = "n\<lparr>nd_engine := e, nd_pool := []\<rparr>"
  let ?h = "(new_header C cfg now par fee)\<lparr>VerkleRoot := root, GasUsed := getGasUsed rs\<rparr>"
  obtain b where b: "Seal C e (NewBlock ?h [tx]) = (b, None)" using Seal_total(1) [OF leader(2,3)] by blast
  have txs: "Transactions b = [tx]" using b by (auto simp: Seal_def Let_def split: option.splits)
  have ex: "node_executor J D ?n1 = node_executor J D n" by (simp add: node_executor_def)
  have "processBatch E C J D R I W now [tx] ?n1
      = Some (?n1\<lparr>nd_engine := e, nd_state := s, nd_locked := True, nd_saving := Some (b, rs), nd_sent := nd_sent n @ [b]\<rparr>)"
    using chain tx block node(3) b unfolding cfg_def
    by (simp add: processBatch_def Let_def valid_txs_def ex intercept_def string_of_bytes_def)
  then show ?thesis using leader node chain(1) txs by (simp add: tick_def Let_def)
qed

text \<open>What \<open>types.SignTx\<close> promises: only the signature and what depends on it change, and the sender is the owner of the key.\<close>

definition sign_tx_ok :: "crypto \<Rightarrow> (int \<Rightarrow> transaction \<Rightarrow> privkey \<Rightarrow> transaction option) \<Rightarrow> bool" where
  "sign_tx_ok C SignTx \<longleftrightarrow> (\<forall>cid tx k tx'. SignTx cid tx k = Some tx' \<longrightarrow> Sender C cid tx' = Some (PrivToAddr C k) \<and>
     tx' = tx\<lparr>tx_ChainId := tx_ChainId tx', tx_Hash := tx_Hash tx', tx_Size := tx_Size tx', tx_V := tx_V tx', tx_R := tx_R tx', tx_S := tx_S tx'\<rparr>)"

lemma signed_deposit:
  assumes "sign_tx_ok C SignTx" "SignTx cid (NewTransaction nonce to amt gas price []) k = Some tx"
  shows "Sender C cid tx = Some (PrivToAddr C k)" "tx_Nonce tx = nonce" "tx_GasPrice tx = price" "tx_GasFeeCap tx = price"
    "tx_Gas tx = gas" "tx_Value tx = amt" "tx_Data tx = []"
proof -
  have s: "Sender C cid tx = Some (PrivToAddr C k)" "tx = (NewTransaction nonce to amt gas price [])
      \<lparr>tx_ChainId := tx_ChainId tx, tx_Hash := tx_Hash tx, tx_Size := tx_Size tx, tx_V := tx_V tx, tx_R := tx_R tx, tx_S := tx_S tx\<rparr>"
    using assms unfolding sign_tx_ok_def by blast+
  show "Sender C cid tx = Some (PrivToAddr C k)" by (rule s(1))
  show "tx_Nonce tx = nonce" "tx_GasPrice tx = price" "tx_GasFeeCap tx = price" "tx_Gas tx = gas" "tx_Value tx = amt" "tx_Data tx = []"
    by (subst s(2), simp add: NewTransaction_def)+
qed

text \<open>C13. The first deposit takes over the network: on an idle node of a network without registered validators, a key
  that is added at the console and used for a stake command gives a transaction that the node puts into
  its next block; the block records the deposit, and from the moment it is persisted the account is the only
  validator and the leader, whichever validators the configuration named.\<close>

theorem first_deposit_takes_over:
  fixes x :: "'d net"
  assumes lines: "Fields l1 = [''addkey'', kHex]" "Fields l2 = [''stake'', amtStr, addrStr]" "ce_H V (TrimPrefix kHex ''0x'') = Some k"
    and args: "big_SetString amtStr 10 = Some amt" "0 < amt" "amt < 2 ^ 256" "IsHexAddress addrStr" "HexToAddress addrStr = a"
      "a = PrivToAddr C k"
    and net: "n = n_node x" "cfg = nd_netCfg n" "P = n_Params cfg" "ValidatorAddr P = sync_validatorAddr" "StakingAddr P \<noteq> RewardAddr P"
      "0 \<le> DefaultBaseFee P"
    and signer: "sign_tx_ok C (ce_SignTx V)" "ce_SignTx V (n_ChainID cfg)
        (NewTransaction (GetNonce (Keccak C) (nd_state n) a) (StakingAddr P) amt 100000 (DefaultBaseFee P) []) k = Some tx"
    and idle: "nd_txCh n = []" "nd_pool n = []" "nd_saving n = None" "W [tx] = [tx]"
    and chain: "currentBlock (nd_bc n) = Some par" "CalcBaseFee (ChainConfigOf cfg) (Header par) = Some fee"
    and leader: "tick_leader C n = Some (Some (PrivToAddr C key), e)" "privKey e = Some key" "\<forall>h. SignHash C h key \<noteq> None"
    and exec: "transfer_tx E C D (bc_db (nd_bc n)) (node_executor J D n) (new_header C cfg now par fee) (nd_state n) tx msg a (StakingAddr P) fee"
      "transfer_room (Keccak C) S a (StakingAddr P) (n_Coinbase cfg)" "sys_slots P N A \<subseteq> S" "interleavings C (node_executor J D n) [tx] I"
    and state: "registered (Keccak C) P N A (nd_state n) []" "a \<in> A" "n_Coinbase cfg \<in> A" "0 < N"
      "evm_keeps E" "base_inv D (bc_db (nd_bc n)) (nd_state n)"
  shows "\<exists>y z n2 n3 b r e'. run_command C V l1 x = Reply [AddedAccount a] y \<and> run_command C V l2 y = Reply [StakeSubmitted] z \<and>
    receive (n_node z) = Some n2 \<and> tick E C J D R I W now n2 = Some n3 \<and> nd_saving n3 = Some (b, [r]) \<and>
    Transactions b = [tx] \<and> receipt.Status r = 1 \<and> stakeOf (Keccak C) P (nd_state n3) a = amt \<and>
    tick_leader C (persist C J D R n3) = Some (Some a, e') \<and> map v_Address (Validators e') = [a]"
proof -
  let ?h = "new_header C cfg now par fee"
  note sg = signed_deposit [OF signer]
  obtain y z where yz: "run_command C V l1 x = Reply [AddedAccount a] y" "run_command C V l2 y = Reply [StakeSubmitted] z"
    "z = x\<lparr>n_node := n\<lparr>nd_keystore := nd_keystore (n_node y), nd_txCh := [tx]\<rparr>\<rparr>"
    using addkey_then_stake [OF lines args(1,4) args(5) [unfolded args(6)], of P x _ tx] signer(2) net(1-3) idle(1) args(6) by auto
  define n2 where "n2 = n\<lparr>nd_keystore := nd_keystore (n_node y), nd_txCh := [], nd_pool := [tx]\<rparr>"
  have rc: "receive (n_node z) = Some n2" using yz(3) idle(2) by (simp add: receive_def n2_def)
  have n2: "node_executor J D n2 = node_executor J D n" "nd_bc n2 = nd_bc n" "nd_state n2 = nd_state n" "nd_engine n2 = nd_engine n"
    "nd_netCfg n2 = cfg" "nd_pool n2 = [tx]" "nd_saving n2 = None"
    using idle(3) net(2) by (simp_all add: n2_def node_executor_def)
  have tl: "tick_leader C n2 = tick_leader C n" unfolding tick_leader_def n2 ..
  have h: "Coinbase ?h = n_Coinbase cfg" "x_netCfg (node_executor J D n) = cfg" "c_ChainID (ChainConfigOf cfg) = n_ChainID cfg"
    by (simp_all add: new_header_def node_executor_def NewExecutor_def net(2) ChainConfigOf_def)
  have m: "m_Value msg = amt" "m_GasLimit msg = 100000" "m_GasFeeCap msg = DefaultBaseFee P" "m_From msg = a"
    using exec(1) sg by (auto simp: transfer_tx_def TransactionToMessage_def transfer_ready_def plain_message_def split: option.splits)
  have "can_pay (Keccak C) (NewOverlay (nd_state n)) msg" using exec(1) by (simp add: transfer_tx_def transfer_ready_def)
  then have sel: "select_tx C (n_ChainID cfg) (nd_state n) tx"
    using covered_selected [OF sg(1), of "nd_state n"] sg args(2,6) net(6) m by (simp add: can_pay_def mult.commute)
  obtain r root s' where ab: "ApplyBlock E C D (bc_db (nd_bc n)) R (node_executor J D n) I (nd_state n) ?h [tx] = Some ([r], root, s')"
    "receipt.Status r = 1" "registered (Keccak C) P N A s' [a]" "stakeOf (Keccak C) P s' a = amt"
    using staking_block [where h = ?h and e = "node_executor J D n", unfolded h, OF net(3,5) exec(1-3) state(1-3) _ _ _ exec(4), of R] args(2,3) state(4) m(1) by auto
  obtain n3 b where n3: "tick E C J D R I W now n2 = Some n3" "nd_saving n3 = Some (b, [r])" "Transactions b = [tx]" "nd_state n3 = s'"
    "nd_bc n3 = nd_bc n"
    using deposit_produced [where n = n2 and C = C and J = J and D = D and W = W and tx = tx, unfolded n2 tl h(3), OF chain _ _ idle(4) leader _ sel sg(7) ab(1)] sg(1) by auto
  have "parent s' = None" using ApplyBlock_inv [OF state(5,6) ab(1)] by (simp add: base_inv_def)
  then obtain e' where "tick_leader C (persist C J D R n3) = Some (Some a, e')" "map v_Address (Validators e') = [a]"
    using registered_takes_over [of C P N A n3 a J D R] ab(3) net(4) n3 chain(1) by auto
  moreover have "stakeOf (Keccak C) P (nd_state n3) a = amt" using ab(4) n3(4) by simp
  ultimately show ?thesis using yz(1,2) rc n3(1-3) ab(2)
    by (intro exI [of _ y] exI [of _ z] exI [of _ n2] exI [of _ n3] exI [of _ b] exI [of _ r] exI [of _ e']) simp
qed

subsection \<open>Witness\<close>

definition stake_state :: statedb where
  "stake_state = SetBalance toy_hash demo_fresh 0xA1 (10 ^ 15)"

lemma stake_state: "paid ((\<lambda>_. 0)(0x1000 := 100, 0xA1 := 10 ^ 15)) stake_state" "base_inv mem_db [] stake_state"
  unfolding stake_state_def demo_fresh_def by (intro paid.intros base_inv_SetBalance base_inv_empty)+

definition stake_net :: NetworkConfig where
  "stake_net = demo_net\<lparr>n_Coinbase := 0xA2\<rparr>"

definition stake_node :: "(bytes \<times> bytes) list node" where
  "stake_node = (demo_node demo_engine)\<lparr>nd_netCfg := stake_net, nd_state := stake_state,
     nd_bc := \<lparr>bc_db = [], bc_config = stake_net, currentBlock = Some demo_gen\<rparr>\<rparr>"

definition stake_env :: console_env where
  "stake_env = \<lparr>ce_H = (\<lambda>s. if s = ''a1'' then Some 0xA1 else None),
     ce_SignTx = (\<lambda>cid tx k. if tx_Type tx \<le> 3 \<and> k \<noteq> 0 then Some (tx\<lparr>tx_R := int (unat k)\<rparr>) else None),
     ce_dial = (\<lambda>_. None), ce_now = 0, ce_config = DefaultConfig\<rparr>"

definition stake_tx :: transaction where
  "stake_tx = (NewTransaction 0 0x1000 5 100000 1000000000 [])\<lparr>tx_R := 0xA1\<rparr>"

definition stake_addr :: string where
  "stake_addr = ''0x00000000000000000000000000000000000000a1''"

lemma stake_addr: "IsHexAddress stake_addr" "HexToAddress stake_addr = 0xA1" "list_all (\<lambda>c. \<not> isSpace c) stake_addr" "stake_addr \<noteq> []"
  by (simp_all add: stake_addr_def IsHexAddress_def isHex_def isHexCharacter_def hex_eval isSpace_def)

lemma stake_sign: "sign_tx_ok toy_crypto (ce_SignTx stake_env)"
  by (auto simp: sign_tx_ok_def stake_env_def Sender_def toy_crypto_def uint_0_iff split: if_splits)

lemma stake_leader: "\<exists>e. tick_leader toy_crypto stake_node = Some (Some 2, e) \<and> privKey e = Some 2"
proof -
  have "registered toy_hash network_params 5 demo_A stake_state []" by (rule paid_registered [OF stake_state(1)])
  then have "GetState toy_hash stake_state sync_validatorAddr 0 = 0" by (simp add: registered_def system_addresses sync_addresses)
  then have "SyncValidators (Some (GetState toy_hash stake_state)) demo_engine = Some (None, demo_engine)"
    by (simp add: SyncValidators_def Let_def hash_Big_def)
  moreover obtain e where e: "GetLeader toy_crypto demo_engine 1 = (Some 2, e)" using demo_leader by (metis prod.collapse)
  moreover have "big_Uint64 (Number (Header demo_gen) + 1) = 1" by (simp add: demo_gen_def big_Uint64_def)
  ultimately have "tick_leader toy_crypto stake_node = Some (Some 2, e)" by (simp add: tick_leader_def stake_node_def)
  then show ?thesis using GetLeader_engine(3) [OF e] demo_key(1) by simp
qed

lemma network_limits: "DefaultGasLimit network_params = 60000000" "DefaultBaseFee network_params = 1000000000"
  by (simp_all add: network_params_def)

lemma stake_exec:
  "transfer_tx demo_evm toy_crypto mem_db [] (node_executor demo_codec mem_db stake_node) (new_header toy_crypto stake_net 5 demo_gen 1000000000)
     stake_state stake_tx (the (TransactionToMessage toy_crypto (n_ChainID stake_net) stake_tx (Some 1000000000))) 0xA1
     (StakingAddr network_params) 1000000000"
proof -
  note v = paid_view [OF stake_state(1)]
  have zero: "toy_hash [] = 0" by (simp add: toy_hash_def)
  have code: "no_code toy_hash mem_db [] (NewOverlay stake_state) a" for a
    using v [of a] zero by (simp add: no_code_NewOverlay getters_as_slots BytesToHash_nat)
  have nonce: "GetNonce toy_hash (NewOverlay stake_state) a = 0" for a using v [of a] by (simp add: getters_as_slots)
  have bal: "GetBalance toy_hash stake_state 0xA1 = 10 ^ 15" "statedb_ok stake_state" using v [of "0xA1"] by simp_all
  have x: "node_executor demo_codec mem_db stake_node = \<lparr>x_config = ChainConfigOf stake_net, x_netCfg = stake_net,
      x_bc = Some (GetBlockByNumber demo_codec mem_db (nd_bc stake_node))\<rparr>"
    by (simp add: node_executor_def NewExecutor_def stake_node_def)
  have n: "n_Params stake_net = network_params" "n_Coinbase stake_net = 0xA2" "c_ChainID (ChainConfigOf stake_net) = n_ChainID stake_net"
    by (simp_all add: stake_net_def demo_net_def ChainConfigOf_def)
  show ?thesis
    unfolding x using code nonce bal n network_limits
    by (simp add: transfer_tx_def transfer_ready_def plain_message_def can_pay_def stake_tx_def NewTransaction_def new_header_def
        TransactionToMessage_def Sender_def system_addresses demo_gen_def demo_evm_def) (simp add: toy_crypto_def)
qed

theorem first_deposit_takes_over_witness:
  "\<exists>y z n2 n3 b r e'. run_command toy_crypto stake_env ''addkey 0xa1'' \<lparr>n_srv = NewServer, n_node = stake_node, n_bcast = None\<rparr> = Reply [AddedAccount 0xA1] y \<and>
     run_command toy_crypto stake_env (''stake 5 '' @ stake_addr) y = Reply [StakeSubmitted] z \<and> receive (n_node z) = Some n2 \<and>
     tick demo_evm toy_crypto demo_codec mem_db (\<lambda>_. 0) (\<lambda>_. [wave_event.Start 0, Finish 0]) (\<lambda>txs. txs) 5 n2 = Some n3 \<and>
     nd_saving n3 = Some (b, [r]) \<and> Transactions b = [stake_tx] \<and> receipt.Status r = 1 \<and>
     stakeOf (Keccak toy_crypto) network_params (nd_state n3) 0xA1 = 5 \<and>
     tick_leader toy_crypto (persist toy_crypto demo_codec mem_db (\<lambda>_. 0) n3) = Some (Some 0xA1, e') \<and> map v_Address (Validators e') = [0xA1]"
proof -
  have f: "Fields ''addkey 0xa1'' = [''addkey'', ''0xa1'']" "Fields (''stake 5 '' @ stake_addr) = [''stake'', ''5'', stake_addr]"
    using Fields_words(3) [of "''addkey''" "''0xa1''"] Fields_words(3) [of "''stake''" "''5 '' @ stake_addr"]
      Fields_words(3) [of "''5''" stake_addr] Fields_words(2) [of stake_addr] stake_addr(3,4)
    by (simp_all add: isSpace_def)
  obtain e where e: "tick_leader toy_crypto stake_node = Some (Some (PrivToAddr toy_crypto 2), e)" "privKey e = Some 2"
    using stake_leader demo_key(2) by auto
  have n: "nd_netCfg stake_node = stake_net" "nd_state stake_node = stake_state" "nd_txCh stake_node = []" "nd_pool stake_node = []"
    "nd_saving stake_node = None" "currentBlock (nd_bc stake_node) = Some demo_gen" "bc_db (nd_bc stake_node) = []"
    by (simp_all add: stake_node_def demo_node_def)
  have c: "n_Params stake_net = network_params" "n_Coinbase stake_net = 0xA2" "PrivToAddr toy_crypto 0xA1 = 0xA1"
    "CalcBaseFee (ChainConfigOf stake_net) (Header demo_gen) = Some 1000000000"
    using demo_fee by (simp_all add: stake_net_def demo_net_def ChainConfigOf_def toy_crypto_def)
  have "GetNonce toy_hash stake_state 0xA1 = 0" using paid_view [OF stake_state(1), of "0xA1"] by (simp add: getters_as_slots)
  then have tx: "ce_SignTx stake_env (n_ChainID stake_net) (NewTransaction (GetNonce (Keccak toy_crypto) stake_state 0xA1)
      (StakingAddr network_params) 5 100000 (DefaultBaseFee network_params) []) 0xA1 = Some stake_tx"
    by (simp add: stake_env_def stake_tx_def network_limits system_addresses NewTransaction_def)
  have a: "(0xA1 :: address) \<in> demo_A" "(0xA2 :: address) \<in> demo_A" by (simp_all add: demo_A_def)
  have i: "interleavings toy_crypto (node_executor demo_codec mem_db stake_node) [stake_tx] (\<lambda>_. [wave_event.Start 0, Finish 0])"
    using single_order by (simp add: interleavings_def schedule_single Let_def)
  show ?thesis
    by (rule first_deposit_takes_over [where n = stake_node and cfg = stake_net and k = "0xA1" and e = e and key = 2 and S = toy_slots and N = 5
          and A = demo_A and fee = 1000000000 and par = demo_gen, OF f])
      (use e n c tx a i stake_addr stake_sign stake_state demo_sys_slots demo_room paid_registered [OF stake_state(1)] stake_exec evm_keeps_demo toy_sign in
        \<open>simp_all add: stake_env_def TrimPrefix_def big_SetString_def digit_value_def network_limits sync_addresses system_addresses\<close>)
qed

end
